(* ===== verification/Prelude.thy ===== *)
theory Prelude
  imports
    Main
    "HOL-Library.Word"
    "HOL-Library.Multiset"
    "HOL-Library.Char_ord"
    "HOL-Library.List_Lexorder"
begin

text \<open>
  Shared vocabulary of the P2P-Park development.

  \<^item> Types: a Go \<^verbatim>\<open>byte\<close> is an \<open>8 word\<close>, an \<^verbatim>\<open>int64\<close> or \<^verbatim>\<open>uint64\<close> a \<open>64 word\<close> (read with
    \<open>sint\<close> or \<open>unat\<close>), a Go \<^verbatim>\<open>string\<close> a \<open>char list\<close> (both are sequences of bytes). A
    \<^verbatim>\<open>time.Time\<close> is the number of nanoseconds since the zero time (1 January of year 1), so that
    \<^verbatim>\<open>IsZero\<close> is equality with 0.
  \<^item> A Go map is a partial function. Ranging over it visits the keys in an unspecified order, so
    every operation that ranges takes the visited order as an argument, constrained by
    \<open>enumerates\<close>.
  \<^item> \<open>sort_slice\<close> models \<^verbatim>\<open>sort.Slice\<close>; because the input order of every call is an arbitrary
    enumeration, its stable result covers every order of ties the library may choose.
  \<^item> \<open>crypto\<close> bundles the cryptographic primitives the program calls; the hypotheses on them are
    the named predicates below.
\<close>

unbundle bit_operations_syntax

subsection \<open>Collections of facts\<close>

named_theorems go_simps \<open>evaluation of the Go library functions the program uses\<close>
named_theorems codec_simps \<open>encode/decode round trips\<close>
named_theorems inv_intros \<open>operations preserve their component's invariant\<close>

subsection \<open>Types\<close>

type_synonym byte = "8 word"
type_synonym bytes = "8 word list"
type_synonym int64 = "64 word"
type_synonym uint64 = "64 word"
type_synonym gotime = int

definition zeroTime :: gotime where
  "zeroTime = 0"

definition IsZero :: "gotime \<Rightarrow> bool" where
  "IsZero t \<longleftrightarrow> t = zeroTime"

text \<open>\<^verbatim>\<open>Time.Unix\<close>: seconds since 1970, rounded down, from nanoseconds since year 1.\<close>

definition Unix :: "gotime \<Rightarrow> int" where
  "Unix t = t div 1000000000 - 62135596800"

definition second :: int where "second = 1000000000"
definition millisecond :: int where "millisecond = 1000000"
definition minute :: int where "minute = 60 * second"

lemmas duration_defs = second_def millisecond_def minute_def

lemma Unix_mono: "s \<le> t \<Longrightarrow> Unix s \<le> Unix t"
  by (simp add: Unix_def zdiv_mono1)

subsection \<open>Cryptographic primitives\<close>

record crypto =
  sha256 :: "bytes \<Rightarrow> bytes"
  ed25519_public :: "bytes \<Rightarrow> bytes"
  ed25519_sign :: "bytes \<Rightarrow> bytes \<Rightarrow> bytes"
  ed25519_verify :: "bytes \<Rightarrow> bytes \<Rightarrow> bytes \<Rightarrow> bool"

text \<open>Documented behaviour of the primitives: a SHA-256 digest has 32 bytes; an ed25519 key has
  32 bytes, a signature is not empty, and a signature made with a private key verifies under its
  public key.\<close>

definition sha256_size :: "crypto \<Rightarrow> bool" where
  "sha256_size cr \<longleftrightarrow> (\<forall>m. length (sha256 cr m) = 32)"

definition ed25519_correct :: "crypto \<Rightarrow> bool" where
  "ed25519_correct cr \<longleftrightarrow>
     (\<forall>priv m. length (ed25519_public cr priv) = 32 \<and> ed25519_sign cr priv m \<noteq> [] \<and>
        ed25519_verify cr (ed25519_public cr priv) m (ed25519_sign cr priv m))"

text \<open>A concrete (insecure) instance that satisfies both, for witnesses: the digest is the first
  32 bytes padded with zeros, a signature is the public key followed by the message.\<close>

definition pad32 :: "bytes \<Rightarrow> bytes" where
  "pad32 m = take 32 (m @ replicate 32 0)"

definition demo_crypto :: crypto where
  "demo_crypto = \<lparr>sha256 = pad32, ed25519_public = pad32,
     ed25519_sign = (\<lambda>priv m. pad32 priv @ m),
     ed25519_verify = (\<lambda>pub m sig. sig = pub @ m)\<rparr>"

lemma length_pad32 [simp]: "length (pad32 m) = 32"
  by (simp add: pad32_def)

lemma pad32_not_Nil [simp]: "pad32 m \<noteq> []"
  by (metis length_pad32 list.size(3) zero_neq_numeral)

lemma demo_crypto_ok [simp]: "sha256_size demo_crypto" "ed25519_correct demo_crypto"
  by (simp_all add: sha256_size_def ed25519_correct_def demo_crypto_def)

lemma sha256_sizeD [simp]: "sha256_size cr \<Longrightarrow> length (sha256 cr m) = 32"
  by (simp add: sha256_size_def)

subsection \<open>Ranging over a map\<close>

definition enumerates :: "'k list \<Rightarrow> ('k \<rightharpoonup> 'v) \<Rightarrow> bool" where
  "enumerates ks m \<longleftrightarrow> distinct ks \<and> set ks = dom m"

lemma enumerates_distinct [dest]: "enumerates ks m \<Longrightarrow> distinct ks"
  by (simp add: enumerates_def)

lemma enumerates_set: "enumerates ks m \<Longrightarrow> set ks = dom m"
  by (simp add: enumerates_def)

lemma enumerates_mset_unique:
  "enumerates ks m \<Longrightarrow> enumerates ks' m \<Longrightarrow> mset ks = mset ks'"
  by (metis enumerates_def set_eq_iff_mset_eq_distinct)

lemma enumerates_ex: "finite (dom m) \<Longrightarrow> \<exists>ks. enumerates ks m"
  by (metis enumerates_def finite_distinct_list)

subsection \<open>sort.Slice\<close>

fun insert_by :: "('a \<Rightarrow> 'a \<Rightarrow> bool) \<Rightarrow> 'a \<Rightarrow> 'a list \<Rightarrow> 'a list" where
  "insert_by lt x [] = [x]"
| "insert_by lt x (y # ys) = (if lt y x then y # insert_by lt x ys else x # y # ys)"

definition sort_slice :: "('a \<Rightarrow> 'a \<Rightarrow> bool) \<Rightarrow> 'a list \<Rightarrow> 'a list" where
  "sort_slice lt xs = foldr (insert_by lt) xs []"

text \<open>The contract of \<^verbatim>\<open>sort.Slice\<close>: the comparison is a strict weak order.\<close>

definition strict_weak :: "('a \<Rightarrow> 'a \<Rightarrow> bool) \<Rightarrow> bool" where
  "strict_weak lt \<longleftrightarrow>
     (\<forall>x. \<not> lt x x) \<and> (\<forall>x y z. lt x y \<longrightarrow> lt y z \<longrightarrow> lt x z) \<and>
     (\<forall>x y z. \<not> lt x y \<longrightarrow> \<not> lt y z \<longrightarrow> \<not> lt x z)"

lemma strict_weak_asym: "strict_weak lt \<Longrightarrow> lt x y \<Longrightarrow> \<not> lt y x"
  unfolding strict_weak_def by blast

lemma strict_weak_key: "strict_weak (\<lambda>x y. (f x :: 'b :: linorder) < f y)"
  by (auto simp: strict_weak_def)

text \<open>Score lists: points descending, then identifier ascending.\<close>

lemma strict_weak_rank:
  "strict_weak (\<lambda>x y. if (p x :: int) = p y then (i x :: 'b :: linorder) < i y else p x > p y)"
  unfolding strict_weak_def by (auto split: if_splits)

lemma mset_insert_by [simp]: "mset (insert_by lt x ys) = add_mset x (mset ys)"
  by (induction ys) auto

lemma set_insert_by [simp]: "set (insert_by lt x ys) = insert x (set ys)"
  by (induction ys) auto

lemma length_insert_by: "length (insert_by lt x ys) = Suc (length ys)"
  by (induction ys) auto

lemma mset_sort_slice [simp]: "mset (sort_slice lt xs) = mset xs"
  by (induction xs) (auto simp: sort_slice_def)

lemma set_sort_slice [simp]: "set (sort_slice lt xs) = set xs"
  by (metis mset_sort_slice set_mset_mset)

lemma length_sort_slice [simp]: "length (sort_slice lt xs) = length xs"
  by (metis mset_sort_slice size_mset)

lemma distinct_sort_slice [simp]: "distinct (sort_slice lt xs) = distinct xs"
  by (metis mset_eq_imp_distinct_iff mset_sort_slice)

lemma distinct_map_sort_slice [simp]: "distinct (map f (sort_slice lt xs)) = distinct (map f xs)"
  by (metis mset_eq_imp_distinct_iff mset_map mset_sort_slice)

lemma strict_weak_trans_neg: "strict_weak lt \<Longrightarrow> \<not> lt x y \<Longrightarrow> \<not> lt y z \<Longrightarrow> \<not> lt x z"
  unfolding strict_weak_def by blast

lemma sorted_insert_by:
  assumes sw: "strict_weak lt" and "sorted_wrt (\<lambda>a b. \<not> lt b a) ys"
  shows "sorted_wrt (\<lambda>a b. \<not> lt b a) (insert_by lt x ys)"
  using assms(2)
proof (induction ys)
  case (Cons y ys)
  show ?case
  proof (cases "lt y x")
    case True
    with Cons strict_weak_asym [OF sw] show ?thesis by auto
  next
    case False
    with Cons.prems have "\<not> lt z x" if "z \<in> set (y # ys)" for z
      using that strict_weak_trans_neg [OF sw, of z y x] by auto
    with False Cons.prems show ?thesis by simp
  qed
qed simp

lemma sorted_sort_slice:
  "strict_weak lt \<Longrightarrow> sorted_wrt (\<lambda>a b. \<not> lt b a) (sort_slice lt xs)"
  by (induction xs) (auto simp: sort_slice_def intro: sorted_insert_by)

text \<open>Where the comparison separates the elements, the sorted list is determined by the multiset:
  the iteration order of the map it came from does not matter.\<close>

lemma sorted_wrt_mset_unique:
  assumes "sorted_wrt P xs" "sorted_wrt P ys" "mset xs = mset ys"
    and anti: "\<And>x y. x \<in> set xs \<Longrightarrow> y \<in> set xs \<Longrightarrow> P x y \<Longrightarrow> P y x \<Longrightarrow> x = y"
  shows "xs = ys"
  using assms
proof (induction xs arbitrary: ys)
  case (Cons x xs)
  obtain y ys' where ys: "ys = y # ys'"
    using Cons.prems(3) by (cases ys) auto
  have "x \<in> set ys" "y \<in> set (x # xs)"
    using mset_eq_setD [OF Cons.prems(3)] ys by auto
  with Cons.prems ys have xy: "x = y"
    by (metis list.set_intros(1) set_ConsD sorted_wrt.simps(2))
  have "xs = ys'"
  proof (rule Cons.IH)
    show "mset xs = mset ys'" using Cons.prems(3) ys xy by simp
  qed (use Cons.prems ys in auto)
  with xy ys show ?case by simp
qed simp

lemma sort_slice_unique:
  assumes "strict_weak lt" "mset xs = mset ys"
    and "\<And>x y. x \<in> set xs \<Longrightarrow> y \<in> set xs \<Longrightarrow> \<not> lt x y \<Longrightarrow> \<not> lt y x \<Longrightarrow> x = y"
  shows "sort_slice lt xs = sort_slice lt ys"
  by (rule sorted_wrt_mset_unique [where P = "\<lambda>a b. \<not> lt b a"])
    (use assms in \<open>auto intro: sorted_sort_slice dest: mset_eq_setD\<close>)

lemma filter_insert_by:
  "(\<And>y. lt y x \<Longrightarrow> P x \<Longrightarrow> \<not> P y) \<Longrightarrow> filter P (insert_by lt x ys) = filter P (x # ys)"
  by (induction ys) auto

text \<open>On a key, \<open>sort_slice\<close> is the library's stable sort.\<close>

lemma sort_slice_key: "sort_slice (\<lambda>a b. f a < f b) xs = sort_key (f :: 'a \<Rightarrow> 'b :: linorder) xs"
proof (rule properties_for_sort_key [symmetric])
  show "mset (sort_slice (\<lambda>a b. f a < f b) xs) = mset xs" by simp
  show "filter (\<lambda>x. f k = f x) (sort_slice (\<lambda>a b. f a < f b) xs) = filter (\<lambda>x. f k = f x) xs" for k
    by (induction xs) (auto simp: sort_slice_def filter_insert_by)
  have "sorted_wrt (\<lambda>a b. \<not> f b < f a) (sort_slice (\<lambda>a b. f a < f b) xs)"
    by (rule sorted_sort_slice [OF strict_weak_key])
  then show "sorted (map f (sort_slice (\<lambda>a b. f a < f b) xs))"
    by (simp add: sorted_wrt_map not_less)
qed

lemma sort_key_map: "sort_key f (map g xs) = map g (sort_key (\<lambda>x. f (g x)) xs)"
proof (rule properties_for_sort_key)
  show "mset (map g (sort_key (\<lambda>x. f (g x)) xs)) = mset (map g xs)"
    by (simp only: mset_map mset_sort)
  show "filter (\<lambda>x. f k = f x) (map g (sort_key (\<lambda>x. f (g x)) xs)) =
      filter (\<lambda>x. f k = f x) (map g xs)" for k
    using sort_key_stable [of "\<lambda>x. f (g x)" "f k" xs]
    by (simp add: filter_map comp_def eq_commute [of "f k"])
qed (simp add: comp_def)

lemma sort_slice_rev_key:
  "rev (sort_slice (\<lambda>a b. f b < f a) (rev xs)) = sort_key (f :: 'a \<Rightarrow> 'b :: linorder) xs"
proof (rule properties_for_sort_key [symmetric])
  show "mset (rev (sort_slice (\<lambda>a b. f b < f a) (rev xs))) = mset xs" by simp
  have "filter (\<lambda>x. f k = f x) (sort_slice (\<lambda>a b. f b < f a) ys) = filter (\<lambda>x. f k = f x) ys" for k ys
    by (induction ys) (auto simp: sort_slice_def filter_insert_by)
  then show "filter (\<lambda>x. f k = f x) (rev (sort_slice (\<lambda>a b. f b < f a) (rev xs))) =
      filter (\<lambda>x. f k = f x) xs" for k
    by (simp add: rev_filter [symmetric])
  have "strict_weak (\<lambda>a b. f b < f a)" by (auto simp: strict_weak_def)
  from sorted_sort_slice [OF this, of "rev xs"]
  have "sorted_wrt (\<lambda>a b. f b \<le> f a) (sort_slice (\<lambda>a b. f b < f a) (rev xs))"
    by (simp add: not_less)
  then show "sorted (map f (rev (sort_slice (\<lambda>a b. f b < f a) (rev xs))))"
    by (simp add: sorted_wrt_map sorted_wrt_rev)
qed

subsection \<open>Lists\<close>

lemma find_Some_unique:
  "\<forall>a \<in> set xs. \<forall>b \<in> set xs. P a \<and> P b \<longrightarrow> a = b \<Longrightarrow> find P xs = Some x \<longleftrightarrow> x \<in> set xs \<and> P x"
  by (induction xs) auto

lemma length_filter_removed:
  "length (filter (\<lambda>x. \<not> P x) xs) + length (filter P xs) = length xs"
  by (induction xs) auto

lemma take_mset_subset: "mset (take n xs) \<subseteq># mset xs"
  by (metis append_take_drop_id mset_append mset_subset_eq_add_left)

lemma distinct_map_take: "distinct (map f xs) \<Longrightarrow> distinct (map f (take n xs))"
  by (metis distinct_take take_map)

lemma distinct_concat_nth:
  assumes "\<And>i. i < length xss \<Longrightarrow> distinct (xss ! i)"
    and "\<And>i j. i < j \<Longrightarrow> j < length xss \<Longrightarrow> set (xss ! i) \<inter> set (xss ! j) = {}"
  shows "distinct (concat xss)"
  using assms
proof (induction xss)
  case (Cons xs xss)
  have "distinct (concat xss)"
  proof (rule Cons.IH)
    show "distinct (xss ! i)" if "i < length xss" for i
      using Cons.prems(1) [of "Suc i"] that by simp
    show "set (xss ! i) \<inter> set (xss ! j) = {}" if "i < j" "j < length xss" for i j
      using Cons.prems(2) [of "Suc i" "Suc j"] that by simp
  qed
  moreover have "set xs \<inter> set ys = {}" if ys: "ys \<in> set xss" for ys
  proof -
    obtain j where "j < length xss" "ys = xss ! j" using ys by (metis in_set_conv_nth)
    then show ?thesis using Cons.prems(2) [of 0 "Suc j"] by simp
  qed
  ultimately show ?case using Cons.prems(1) [of 0] by auto
qed simp

lemma sorted_wrt_strict:
  assumes "sorted (map f xs)" "distinct (map f xs)"
  shows "sorted_wrt (\<lambda>a b. f a < f b) xs"
  using assms by (simp add: strict_sorted_iff sorted_wrt_map flip: sorted_wrt_map)

text \<open>In a sorted list an element with at most \<open>n\<close> elements up to its key is among the first \<open>n\<close>.\<close>

lemma sorted_rank_take:
  fixes f :: "'a \<Rightarrow> 'b :: linorder"
  assumes "sorted (map f xs)" "c \<in> set xs" "length (filter (\<lambda>x. f x \<le> f c) xs) \<le> n"
  shows "c \<in> set (take n xs)"
proof (rule ccontr)
  assume out: "c \<notin> set (take n xs)"
  then have "c \<in> set (drop n xs)"
    using assms(2) by (metis Un_iff append_take_drop_id set_append)
  moreover have "sorted (map f (take n xs @ drop n xs))" using assms(1) by simp
  ultimately have "\<forall>x \<in> set (take n xs). f x \<le> f c"
    unfolding map_append sorted_append by auto
  then have "filter (\<lambda>x. f x \<le> f c) (take n xs) = take n xs" by simp
  then have "filter (\<lambda>x. f x \<le> f c) xs = take n xs @ filter (\<lambda>x. f x \<le> f c) (drop n xs)"
    using filter_append [of "\<lambda>x. f x \<le> f c" "take n xs" "drop n xs"] by (simp only: append_take_drop_id)
  then have "length (take n xs) + length (filter (\<lambda>x. f x \<le> f c) (drop n xs)) \<le> n"
    using assms(3) by (metis length_append)
  moreover have "0 < length (filter (\<lambda>x. f x \<le> f c) (drop n xs))"
    using \<open>c \<in> set (drop n xs)\<close> by (auto simp: filter_empty_conv)
  ultimately have "length (take n xs) < n" by linarith
  then have "take n xs = xs" by simp
  with out assms(2) show False by simp
qed

subsection \<open>Arithmetic\<close>

lemma power_band_unique:
  fixes v :: nat
  assumes "2 ^ a \<le> v" "v < 2 ^ Suc a" "2 ^ b \<le> v" "v < 2 ^ Suc b"
  shows "a = b"
proof -
  have "(2 :: nat) ^ a < 2 ^ Suc b" "(2 :: nat) ^ b < 2 ^ Suc a"
    using assms by linarith+
  then have "a < Suc b" "b < Suc a"
    by (metis nat_power_less_imp_less zero_less_numeral)+
  then show ?thesis by linarith
qed

end
