(* ===== verification/GoLib.thy ===== *)
theory GoLib
  imports Prelude "HOL-Library.Sublist"
begin

text \<open>
  The parts of the Go standard library the program relies on: \<^verbatim>\<open>[]byte(s)\<close> and \<^verbatim>\<open>string(b)\<close>
  conversions, \<^verbatim>\<open>encoding/hex\<close>, the big-endian half of \<^verbatim>\<open>encoding/binary\<close>, \<^verbatim>\<open>bytes.Compare\<close> (the
  lexicographic order of HOL-Library on byte lists), \<^verbatim>\<open>strconv\<close>, \<^verbatim>\<open>encoding/base64\<close> and the ASCII behaviour of \<^verbatim>\<open>strings\<close>.
  The lemmas are the round trips and the order facts the components build on.
\<close>

subsection \<open>Bytes and strings\<close>

definition bytes_of :: "string \<Rightarrow> bytes" where
  "bytes_of s = map (\<lambda>c. word_of_nat (of_char c)) s"

definition string_of :: "bytes \<Rightarrow> string" where
  "string_of b = map (\<lambda>w. char_of (unat w)) b"

lemma unat_byte_of_char [simp]: "unat (word_of_nat (of_char c) :: byte) = of_char c"
  using nat_of_char_less_256 [of c] by (simp add: unat_of_nat)

lemma string_of_bytes_of [simp, codec_simps]: "string_of (bytes_of s) = s"
  by (simp add: string_of_def bytes_of_def comp_def)

lemma bytes_of_string_of [simp, codec_simps]: "bytes_of (string_of b) = b"
proof -
  have "word_of_nat (of_char (char_of (unat w))) = w" for w :: byte
    using unsigned_less [of w, where ?'a = nat] by simp
  then show ?thesis by (simp add: string_of_def bytes_of_def comp_def)
qed

lemma bytes_of_inject [simp]: "bytes_of s = bytes_of t \<longleftrightarrow> s = t"
  by (metis string_of_bytes_of)

lemma length_bytes_of [simp]: "length (bytes_of s) = length s"
  by (simp add: bytes_of_def)

lemma bytes_of_simps [simp]:
  "bytes_of [] = []" "bytes_of (c # s) = word_of_nat (of_char c) # bytes_of s"
  "bytes_of (s @ t) = bytes_of s @ bytes_of t"
  by (simp_all add: bytes_of_def)

lemma less_bytes_of: "bytes_of s < bytes_of t \<longleftrightarrow> s < t"
proof (induction s arbitrary: t)
  case Nil
  then show ?case by (cases t) auto
next
  case (Cons c s)
  show ?case
  proof (cases t)
    case (Cons d u)
    have "(word_of_nat (of_char c) :: byte) < word_of_nat (of_char d) \<longleftrightarrow> c < d"
      by (simp add: word_less_nat_alt less_char_def)
    moreover have "(word_of_nat (of_char c) :: byte) = word_of_nat (of_char d) \<longleftrightarrow> c = d"
      by (metis of_char_eq_iff unat_byte_of_char)
    ultimately show ?thesis using Cons.IH \<open>t = d # u\<close> by simp
  qed simp
qed

subsection \<open>encoding/hex\<close>

definition hexDigit :: "nat \<Rightarrow> char" where
  "hexDigit n = ''0123456789abcdef'' ! n"

text \<open>\<^verbatim>\<open>hex.EncodeToString\<close>: two lower-case digits per byte.\<close>

fun EncodeToString :: "bytes \<Rightarrow> string" where
  "EncodeToString [] = []"
| "EncodeToString (b # bs) =
     hexDigit (unat b div 16) # hexDigit (unat b mod 16) # EncodeToString bs"

text \<open>Digits of either case are accepted.\<close>

definition fromHexChar :: "char \<Rightarrow> nat option" where
  "fromHexChar c = (let n = of_char c :: nat in
     if 48 \<le> n \<and> n \<le> 57 then Some (n - 48)
     else if 97 \<le> n \<and> n \<le> 102 then Some (n - 87)
     else if 65 \<le> n \<and> n \<le> 70 then Some (n - 55)
     else None)"

text \<open>\<^verbatim>\<open>hex.DecodeString\<close>: \<open>None\<close> stands for a non-nil error (odd length or a bad digit).\<close>

fun DecodeString :: "string \<Rightarrow> bytes option" where
  "DecodeString [] = Some []"
| "DecodeString [c] = None"
| "DecodeString (c # d # s) =
     (case (fromHexChar c, fromHexChar d, DecodeString s) of
        (Some a, Some b, Some bs) \<Rightarrow> Some (word_of_nat (16 * a + b) # bs)
      | _ \<Rightarrow> None)"

lemma fromHexChar_hexDigit [simp]: "n < 16 \<Longrightarrow> fromHexChar (hexDigit n) = Some n"
proof -
  assume "n < 16"
  then have "n \<in> {0, 1, 2, 3, 4, 5, 6, 7, 8, 9, 10, 11, 12, 13, 14, 15}"
    by (simp only: insert_iff empty_iff) presburger
  then show ?thesis by (auto simp: hexDigit_def fromHexChar_def)
qed

lemma unat_byte_less [simp]: "unat (b :: byte) < 256"
  using unsigned_less [of b, where ?'a = nat] by simp

lemma DecodeString_EncodeToString [simp, codec_simps]: "DecodeString (EncodeToString bs) = Some bs"
proof (induction bs)
  case (Cons b bs)
  have "unat b div 16 < 16"
    using unat_byte_less [of b] by (simp add: less_mult_imp_div_less)
  then show ?case
    using Cons by (simp add: word_unat_eq_iff)
qed simp

lemma EncodeToString_inject [simp]: "EncodeToString a = EncodeToString b \<longleftrightarrow> a = b"
  by (metis DecodeString_EncodeToString option.inject)

lemma length_EncodeToString [simp]: "length (EncodeToString bs) = 2 * length bs"
  by (induction bs) auto

lemma EncodeToString_not_Nil: "bs \<noteq> [] \<Longrightarrow> EncodeToString bs \<noteq> []"
  by (cases bs) auto

lemma DecodeString_length: "DecodeString s = Some bs \<Longrightarrow> length s = 2 * length bs"
  by (induction s arbitrary: bs rule: DecodeString.induct) (auto split: option.splits)

subsection \<open>encoding/binary, big endian\<close>

text \<open>The \<open>n\<close> low bytes of a word, most significant first: the loop
  \<^verbatim>\<open>for i := n-1; i >= 0; i-- { append(buf, byte(w>>(8*i))) }\<close>.\<close>

fun put_be :: "nat \<Rightarrow> 'a :: len word \<Rightarrow> bytes" where
  "put_be 0 w = []"
| "put_be (Suc i) w = ucast (drop_bit (8 * i) w) # put_be i w"

fun be_val :: "bytes \<Rightarrow> nat" where
  "be_val [] = 0"
| "be_val (b # bs) = unat b * 256 ^ length bs + be_val bs"

definition get_be :: "bytes \<Rightarrow> 'a :: len word" where
  "get_be bs = word_of_nat (be_val bs)"

definition PutUint64 :: "uint64 \<Rightarrow> bytes" where
  "PutUint64 w = put_be 8 w"

definition Uint64 :: "bytes \<Rightarrow> uint64" where
  "Uint64 bs = get_be (take 8 bs)"

lemma length_put_be [simp]: "length (put_be n w) = n"
  by (induction n) auto

lemma length_PutUint64 [simp]: "length (PutUint64 w) = 8"
  by (simp add: PutUint64_def)

lemma be_val_less: "be_val bs < 256 ^ length bs"
proof (induction bs)
  case (Cons b bs)
  have "unat b * 256 ^ length bs + be_val bs < (unat b + 1) * 256 ^ length bs"
    using Cons by simp
  also have "\<dots> \<le> 256 * 256 ^ length bs"
    using unat_byte_less [of b] by (intro mult_right_mono) linarith+
  finally show ?case by simp
qed simp

lemma be_val_append: "be_val (xs @ ys) = be_val xs * 256 ^ length ys + be_val ys"
  by (induction xs) (auto simp: power_add algebra_simps)

lemma digit_cong:
  fixes a b x y m :: nat
  assumes "x < m" "y < m"
  shows "a * m + x = b * m + y \<longleftrightarrow> a = b \<and> x = y"
    and "a * m + x < b * m + y \<longleftrightarrow> a < b \<or> a = b \<and> x < y"
proof -
  have lt: "a * m + x < b * m + y" if "a < b" "x < m" for a b x y
  proof -
    have "a * m + x < (a + 1) * m" using that by simp
    also have "\<dots> \<le> b * m" using that by (intro mult_right_mono) auto
    finally show ?thesis by simp
  qed
  show "a * m + x = b * m + y \<longleftrightarrow> a = b \<and> x = y"
    using lt [of a b x y] lt [of b a y x] assms by (cases a b rule: linorder_cases) auto
  show "a * m + x < b * m + y \<longleftrightarrow> a < b \<or> a = b \<and> x < y"
    using lt [of a b x y] lt [of b a y x] assms by (cases a b rule: linorder_cases) auto
qed

lemma be_val_inject: "length a = length b \<Longrightarrow> be_val a = be_val b \<longleftrightarrow> a = b"
proof (induction a b rule: list_induct2)
  case (Cons x xs y ys)
  then show ?case
    using be_val_less [of xs] be_val_less [of ys] by (simp add: digit_cong word_unat_eq_iff)
qed simp

text \<open>\<^verbatim>\<open>bytes.Compare\<close> on equal lengths is the order of the big-endian numbers.\<close>

lemma be_val_mono: "length a = length b \<Longrightarrow> a < b \<longleftrightarrow> be_val a < be_val b"
proof (induction a b rule: list_induct2)
  case (Cons x xs y ys)
  then show ?case
    using be_val_less [of xs] be_val_less [of ys]
    by (simp add: digit_cong word_less_nat_alt word_unat_eq_iff)
qed simp

lemma unat_drop_bit: "unat (drop_bit k w) = unat w div 2 ^ k"
  by (subst unsigned_drop_bit_eq) (simp add: drop_bit_eq_div take_bit_nat_eq_self)

lemma be_val_put_be: "be_val (put_be n w) = unat w mod 256 ^ n"
proof (induction n)
  case (Suc n)
  have p: "(256 :: nat) ^ n = 2 ^ (8 * n)"
    by (simp add: power_mult)
  have "unat (ucast (drop_bit (8 * n) w) :: byte) = unat w div 256 ^ n mod 256"
    by (simp only: p unsigned_ucast_eq unat_drop_bit take_bit_eq_mod) simp
  then show ?case
    using Suc mod_mult2_eq [of "unat w" "256 ^ n" 256] by (simp add: mult.commute)
qed simp

lemma be_val_PutUint64 [simp]: "be_val (PutUint64 w) = unat w"
  using unsigned_less [of w, where ?'a = nat] by (simp add: PutUint64_def be_val_put_be)

lemma Uint64_PutUint64 [simp, codec_simps]: "Uint64 (PutUint64 w @ s) = w"
  by (simp add: Uint64_def get_be_def)

lemma PutUint64_inject [simp]: "PutUint64 v = PutUint64 w \<longleftrightarrow> v = w"
  by (metis be_val_PutUint64 word_unat_eq_iff)

lemma PutUint64_less: "PutUint64 v < PutUint64 w \<longleftrightarrow> unat v < unat w"
  by (simp add: be_val_mono)

text \<open>For non-negative signed values the unsigned order is the signed one.\<close>

lemma sint_nonneg: "0 \<le> sint x \<Longrightarrow> sint x = int (unat x)" for x :: int64
  using sint_lt [of x] by (simp add: uint_sint take_bit_int_eq_self)

lemma unat_less_sint:
  fixes v w :: int64
  assumes "0 \<le> sint v" "0 \<le> sint w"
  shows "unat v < unat w \<longleftrightarrow> sint v < sint w"
  using assms by (simp only: sint_nonneg of_nat_less_iff)

lemma unat_le_sint:
  fixes v w :: int64
  assumes "0 \<le> sint v" "0 \<le> sint w"
  shows "unat v \<le> unat w \<longleftrightarrow> sint v \<le> sint w"
  using unat_less_sint [OF assms(2,1)] by (simp add: not_less [symmetric])

subsection \<open>strconv\<close>

definition is_digit :: "char \<Rightarrow> bool" where
  "is_digit c \<longleftrightarrow> CHR ''0'' \<le> c \<and> c \<le> CHR ''9''"

fun dec_value :: "int \<Rightarrow> string \<Rightarrow> int" where
  "dec_value acc [] = acc"
| "dec_value acc (c # cs) = dec_value (10 * acc + (of_char c - 48)) cs"

text \<open>\<^verbatim>\<open>strconv.ParseInt(s, 10, 64)\<close>: a sign, digits, and the range of \<^verbatim>\<open>int64\<close>; \<^verbatim>\<open>strconv.ParseUint(s, 10, 64)\<close> takes no sign.\<close>

definition ParseInt64 :: "string \<Rightarrow> int64 option" where
  "ParseInt64 s =
     (let neg = prefix ''-'' s;
          ds = (if prefix ''-'' s \<or> prefix ''+'' s then drop 1 s else s)
      in if ds = [] \<or> \<not> list_all is_digit ds then None
         else let v = (if neg then - dec_value 0 ds else dec_value 0 ds)
              in if - (2 ^ 63) \<le> v \<and> v < 2 ^ 63 then Some (word_of_int v) else None)"

definition ParseUint64 :: "string \<Rightarrow> uint64 option" where
  "ParseUint64 s =
     (if s = [] \<or> \<not> list_all is_digit s \<or> dec_value 0 s \<ge> 2 ^ 64 then None else Some (word_of_int (dec_value 0 s)))"

text \<open>\<^verbatim>\<open>strconv.FormatUint\<close> and \<^verbatim>\<open>strconv.FormatInt\<close> in base 10.\<close>

fun FormatUint :: "nat \<Rightarrow> string" where
  "FormatUint n = (if n < 10 then [char_of (48 + n)] else FormatUint (n div 10) @ [char_of (48 + n mod 10)])"

definition FormatInt :: "int \<Rightarrow> string" where
  "FormatInt i = (if i < 0 then CHR ''-'' # FormatUint (nat (- i)) else FormatUint (nat i))"

declare FormatUint.simps [simp del]

lemma is_digit_code: "is_digit c \<longleftrightarrow> (48 :: nat) \<le> of_char c \<and> of_char c \<le> (57 :: nat)"
  by (simp add: is_digit_def less_eq_char_def)

lemma FormatUint_digits: "FormatUint n \<noteq> [] \<and> (\<forall>c \<in> set (FormatUint n). is_digit c)"
proof (induction n rule: FormatUint.induct)
  case (1 n)
  then show ?case
    by (auto simp: FormatUint.simps [of n] is_digit_code)
qed

lemma FormatUint_hd: "hd (FormatUint n) = CHR ''0'' \<longleftrightarrow> n = 0"
proof (induction n rule: FormatUint.induct)
  case (1 n)
  have "char_of (48 + n) = CHR ''0'' \<longleftrightarrow> n = 0" if "n < 10"
    using that by (simp add: char_of_eq_iff take_bit_nat_eq_self)
  then show ?case
    using 1 FormatUint_digits [of "n div 10"] by (auto simp: FormatUint.simps [of n])
qed

lemma dec_value_append: "dec_value acc (xs @ [c]) = 10 * dec_value acc xs + (of_char c - 48)"
  by (induction xs arbitrary: acc) auto

lemma dec_value_FormatUint [simp, codec_simps]: "dec_value 0 (FormatUint n) = int n"
proof (induction n rule: FormatUint.induct)
  case (1 n)
  have c: "(of_char (char_of (48 + m) :: char) :: int) = 48 + int m" if "m < 10" for m
  proof -
    have "int (of_char (char_of (48 + m) :: char)) = int (48 + m)"
      using that by (intro arg_cong [of _ _ int]) simp
    then show ?thesis
      by (simp only: of_nat_of_char of_nat_add of_nat_numeral)
  qed
  show ?case
    using 1 c [of n] c [of "n mod 10"] by (simp add: FormatUint.simps [of n] dec_value_append zdiv_int zmod_int)
qed

lemma FormatUint_sign: "\<not> prefix ''-'' (FormatUint n) \<and> \<not> prefix ''+'' (FormatUint n)"
  using FormatUint_digits [of n] by (cases "FormatUint n") (auto simp: is_digit_code)

lemma ParseInt64_FormatInt [simp, codec_simps]: "ParseInt64 (FormatInt (sint v)) = Some v"
proof -
  have r: "- (2 ^ 63) \<le> sint v" "sint v < 2 ^ 63"
    using sint_ge [of v] sint_lt [of v] by simp_all
  have d: "FormatUint n \<noteq> []" "list_all is_digit (FormatUint n)" for n
    using FormatUint_digits [of n] by (simp_all add: list_all_iff)
  show ?thesis
    using r d FormatUint_sign [of "nat (sint v)"] by (auto simp: ParseInt64_def FormatInt_def Let_def)
qed

lemma ParseUint64_FormatUint [simp, codec_simps]: "ParseUint64 (FormatUint (unat v)) = Some v"
proof -
  have "int (unat v) < 2 ^ 64"
    using unsigned_less [of v, where ?'a = int] by simp
  then show ?thesis
    using FormatUint_digits [of "unat v"] by (auto simp: ParseUint64_def list_all_iff)
qed

subsection \<open>encoding/base64\<close>

text \<open>\<^verbatim>\<open>A\<close> to \<^verbatim>\<open>Z\<close>, \<^verbatim>\<open>a\<close> to \<^verbatim>\<open>z\<close>, \<^verbatim>\<open>0\<close> to \<^verbatim>\<open>9\<close>, \<^verbatim>\<open>+\<close>, \<^verbatim>\<open>/\<close>\<close>

definition b64_char :: "nat \<Rightarrow> char" where
  "b64_char n =
     (if n < 26 then char_of (65 + n)
      else if n < 52 then char_of (71 + n)
      else if n < 62 then char_of (n - 4)
      else if n = 62 then CHR ''+''
      else CHR ''/'')"

definition b64_val :: "char \<Rightarrow> nat option" where
  "b64_val c =
     (let n = of_char c :: nat
      in if 65 \<le> n \<and> n \<le> 90 then Some (n - 65)
         else if 97 \<le> n \<and> n \<le> 122 then Some (n - 71)
         else if 48 \<le> n \<and> n \<le> 57 then Some (n + 4)
         else if c = CHR ''+'' then Some 62
         else if c = CHR ''/'' then Some 63
         else None)"

fun EncodeBase64 :: "bytes \<Rightarrow> string" where
  "EncodeBase64 [] = []"
| "EncodeBase64 [a] = [b64_char (unat a div 4), b64_char (unat a mod 4 * 16), CHR ''='', CHR ''='']"
| "EncodeBase64 [a, b] =
     [b64_char (unat a div 4), b64_char (unat a mod 4 * 16 + unat b div 16), b64_char (unat b mod 16 * 4), CHR ''='']"
| "EncodeBase64 (a # b # c # bs) =
     b64_char (unat a div 4) # b64_char (unat a mod 4 * 16 + unat b div 16) #
     b64_char (unat b mod 16 * 4 + unat c div 64) # b64_char (unat c mod 64) # EncodeBase64 bs"

definition b64_byte1 :: "nat \<Rightarrow> nat \<Rightarrow> byte" where "b64_byte1 w x = word_of_nat (4 * w + x div 16)"
definition b64_byte2 :: "nat \<Rightarrow> nat \<Rightarrow> byte" where "b64_byte2 x y = word_of_nat (x mod 16 * 16 + y div 4)"
definition b64_byte3 :: "nat \<Rightarrow> nat \<Rightarrow> byte" where "b64_byte3 y z = word_of_nat (y mod 4 * 64 + z)"

text \<open>Padding only at the end; the unused bits of the last character are ignored, as are line breaks.\<close>

fun decode_quads :: "string \<Rightarrow> bytes option" where
  "decode_quads [] = Some []"
| "decode_quads (a # b # c # d # s) =
     (case (b64_val a, b64_val b) of
        (Some w, Some x) \<Rightarrow>
          if c = CHR ''='' then (if d = CHR ''='' \<and> s = [] then Some [b64_byte1 w x] else None)
          else (case b64_val c of
                  None \<Rightarrow> None
                | Some y \<Rightarrow>
                    if d = CHR ''='' then (if s = [] then Some [b64_byte1 w x, b64_byte2 x y] else None)
                    else (case b64_val d of
                            None \<Rightarrow> None
                          | Some z \<Rightarrow> map_option (\<lambda>bs. b64_byte1 w x # b64_byte2 x y # b64_byte3 y z # bs) (decode_quads s)))
      | _ \<Rightarrow> None)"
| "decode_quads s = None"

definition DecodeBase64 :: "string \<Rightarrow> bytes option" where
  "DecodeBase64 s = decode_quads (filter (\<lambda>c. c \<noteq> CHR 0x0D \<and> c \<noteq> CHR 0x0A) s)"

lemma b64_val_char [simp]: "n < 64 \<Longrightarrow> b64_val (b64_char n) = Some n"
  by (auto simp: b64_val_def b64_char_def Let_def char_of_eq_iff take_bit_nat_eq_self)

lemma b64_char_range [simp]:
  assumes "n < 64"
  shows "32 < (of_char (b64_char n) :: nat)" "(of_char (b64_char n) :: nat) < 128"
  using assms by (auto simp: b64_char_def)

lemma b64_char_pad [simp]: "n < 64 \<Longrightarrow> b64_char n \<noteq> CHR ''=''"
  using b64_val_char [of n] by (auto simp: b64_val_def)

lemma b64_bytes [simp]:
  "b64_byte1 (unat a div 4) (unat a mod 4 * 16 + unat (b :: byte) div 16) = a" "b64_byte1 (unat a div 4) (unat a mod 4 * 16) = a"
  "b64_byte2 (n * 16 + unat b div 16) (unat b mod 16 * 4 + unat (c :: byte) div 64) = b"
  "b64_byte2 (n * 16 + unat b div 16) (unat b mod 16 * 4) = b"
  "b64_byte3 (m * 4 + unat c div 64) (unat c mod 64) = c"
proof -
  have d: "unat x div 16 < 16" "unat x div 64 < 4" for x :: byte
    using unat_byte_less [of x] by (simp_all add: less_mult_imp_div_less)
  show "b64_byte1 (unat a div 4) (unat a mod 4 * 16 + unat b div 16) = a" "b64_byte1 (unat a div 4) (unat a mod 4 * 16) = a"
    "b64_byte2 (n * 16 + unat b div 16) (unat b mod 16 * 4 + unat c div 64) = b"
    "b64_byte2 (n * 16 + unat b div 16) (unat b mod 16 * 4) = b"
    "b64_byte3 (m * 4 + unat c div 64) (unat c mod 64) = c"
    using d [of b] d [of c] by (simp_all add: b64_byte1_def b64_byte2_def b64_byte3_def mult.commute)
qed

lemma b64_digits [simp]:
  "unat (a :: byte) div 4 < 64" "unat a mod 4 * 16 < 64" "unat a mod 4 * 16 + unat (b :: byte) div 16 < 64"
  "unat b mod 16 * 4 < 64" "unat b mod 16 * 4 + unat (c :: byte) div 64 < 64"
proof -
  have "unat x div 4 < 64" "unat x div 16 < 16" "unat x div 64 < 4" "unat x mod 4 < 4" "unat x mod 16 < 16" for x :: byte
    using unat_byte_less [of x] by (simp_all add: less_mult_imp_div_less)
  from this [of a] this [of b] this [of c] show
    "unat (a :: byte) div 4 < 64" "unat a mod 4 * 16 < 64" "unat a mod 4 * 16 + unat (b :: byte) div 16 < 64"
    "unat b mod 16 * 4 < 64" "unat b mod 16 * 4 + unat (c :: byte) div 64 < 64"
    by linarith+
qed

lemma EncodeBase64_ascii: "\<forall>c \<in> set (EncodeBase64 bs). 32 < (of_char c :: nat) \<and> (of_char c :: nat) < 128"
  by (induction bs rule: EncodeBase64.induct) auto

lemma DecodeBase64_EncodeBase64 [simp, codec_simps]: "DecodeBase64 (EncodeBase64 bs) = Some bs"
proof -
  have "filter (\<lambda>c. c \<noteq> CHR 0x0D \<and> c \<noteq> CHR 0x0A) (EncodeBase64 bs) = EncodeBase64 bs"
    using EncodeBase64_ascii [of bs] by (auto intro!: filter_True)
  moreover have "decode_quads (EncodeBase64 bs) = Some bs"
    by (induction bs rule: EncodeBase64.induct) auto
  ultimately show ?thesis
    by (simp add: DecodeBase64_def)
qed

end
