(* ===== verification/NodeId.thy ===== *)
theory NodeId
  imports GoLib
begin

text \<open>
  Node identifiers of the DHT (\<^verbatim>\<open>internal/dht/nodeid.go\<close>): derivation from the transport identity,
  hex form, XOR distance, its order and the bucket index. A \<^verbatim>\<open>NodeID\<close> is a Go array of 32 bytes,
  here a byte list of length 32 (\<open>nodeid_ok\<close>). The refinement target is the 256-bit number a
  \<^verbatim>\<open>NodeID\<close> denotes (\<open>be_val\<close>): distance is bitwise exclusive or of these numbers, its order the
  numeric one, and the bucket index the position of the highest set bit.
\<close>

subsection \<open>Errors of the dht package\<close>

datatype dht_error =
    ErrBadPeerID | ErrHexDecode | ErrNodeIDLength
  | ErrBadRecord | ErrBadSignature | ErrSeqTooLow | ErrKeyMismatch | ErrRecordTooLarge
  | ErrInvalidRecord
  | ErrTooManyPending | ErrPeerOverloaded | ErrUnknownPeer | DeadlineExceeded | ErrCanceled

subsection \<open>Identifiers\<close>

type_synonym NodeID = bytes

definition NodeIDBytes :: nat where
  "NodeIDBytes = 32"

definition nodeid_ok :: "NodeID \<Rightarrow> bool" where
  "nodeid_ok i \<longleftrightarrow> length i = NodeIDBytes"

definition NodeIDFromPeerID :: "crypto \<Rightarrow> string \<Rightarrow> dht_error + NodeID" where
  "NodeIDFromPeerID cr peerIDHex =
     (case DecodeString peerIDHex of
        None \<Rightarrow> Inl ErrBadPeerID
      | Some pub \<Rightarrow> if length pub \<noteq> 32 then Inl ErrBadPeerID else Inr (sha256 cr pub))"

definition ParseNodeIDHex :: "string \<Rightarrow> dht_error + NodeID" where
  "ParseNodeIDHex s =
     (case DecodeString s of
        None \<Rightarrow> Inl ErrHexDecode
      | Some b \<Rightarrow> if length b \<noteq> NodeIDBytes then Inl ErrNodeIDLength else Inr b)"

definition NodeIDMatchesPeerID :: "crypto \<Rightarrow> string \<Rightarrow> string \<Rightarrow> bool" where
  "NodeIDMatchesPeerID cr nodeIDHex peerIDHex =
     (case ParseNodeIDHex nodeIDHex of
        Inl _ \<Rightarrow> False
      | Inr claimed \<Rightarrow>
          (case NodeIDFromPeerID cr peerIDHex of
             Inl _ \<Rightarrow> False
           | Inr derived \<Rightarrow> claimed = derived))"

definition Hex :: "NodeID \<Rightarrow> string" where
  "Hex i = EncodeToString i"

subsection \<open>XOR distance\<close>

definition Xor :: "NodeID \<Rightarrow> NodeID \<Rightarrow> NodeID" where
  "Xor a b = map2 (XOR) a b"

definition Distance :: "NodeID \<Rightarrow> NodeID \<Rightarrow> NodeID" where
  "Distance a b = Xor a b"

definition DistanceLess :: "NodeID \<Rightarrow> NodeID \<Rightarrow> bool" where
  "DistanceLess a b \<longleftrightarrow> a < b"

text \<open>The inner loop of \<^verbatim>\<open>BucketIndex\<close>: the first \<open>bit\<close> with \<^verbatim>\<open>x&(1<<(7-bit)) != 0\<close>.\<close>

definition bit_scan :: "byte \<Rightarrow> nat option" where
  "bit_scan x = find (\<lambda>b. x AND push_bit (7 - b) 1 \<noteq> 0) [0..<8]"

fun bucket_scan :: "nat \<Rightarrow> bytes \<Rightarrow> int" where
  "bucket_scan byteIdx [] = -1"
| "bucket_scan byteIdx (x # d) =
     (if x = 0 then bucket_scan (Suc byteIdx) d
      else case bit_scan x of
             Some b \<Rightarrow> int (byteIdx * 8 + b)
           | None \<Rightarrow> bucket_scan (Suc byteIdx) d)"

definition BucketIndex :: "NodeID \<Rightarrow> NodeID \<Rightarrow> int" where
  "BucketIndex self other = bucket_scan 0 (Xor self other)"

subsection \<open>Parsing and printing\<close>

lemma nodeid_ok_length: "nodeid_ok i \<longleftrightarrow> length i = 32"
  by (simp add: nodeid_ok_def NodeIDBytes_def)

lemma ParseNodeIDHex_Hex [simp, codec_simps]: "nodeid_ok i \<Longrightarrow> ParseNodeIDHex (Hex i) = Inr i"
  by (simp add: ParseNodeIDHex_def Hex_def nodeid_ok_def)

lemma ParseNodeIDHex_ok: "ParseNodeIDHex s = Inr i \<Longrightarrow> nodeid_ok i"
  by (auto simp: ParseNodeIDHex_def nodeid_ok_def split: option.splits if_splits)

lemma NodeIDFromPeerID_ok: "sha256_size cr \<Longrightarrow> NodeIDFromPeerID cr p = Inr i \<Longrightarrow> nodeid_ok i"
  by (auto simp: NodeIDFromPeerID_def nodeid_ok_length split: option.splits if_splits)

lemma NodeIDFromPeerID_encode [simp]:
  "length pub = 32 \<Longrightarrow> NodeIDFromPeerID cr (EncodeToString pub) = Inr (sha256 cr pub)"
  by (simp add: NodeIDFromPeerID_def)

lemma NodeIDMatchesPeerID_iff:
  "NodeIDMatchesPeerID cr n p \<longleftrightarrow>
     (\<exists>i. ParseNodeIDHex n = Inr i \<and> NodeIDFromPeerID cr p = Inr i)"
  by (auto simp: NodeIDMatchesPeerID_def split: sum.splits)

subsection \<open>Algebra of the distance\<close>

lemma length_Xor [simp]: "length (Xor a b) = min (length a) (length b)"
  by (simp add: Xor_def)

lemma nodeid_ok_Xor [simp, intro]: "nodeid_ok a \<Longrightarrow> nodeid_ok b \<Longrightarrow> nodeid_ok (Xor a b)"
  by (simp add: nodeid_ok_def)

lemma Xor_commute: "Xor a b = Xor b a"
  by (rule nth_equalityI) (auto simp: Xor_def xor.commute)

lemma Xor_Cons [simp]: "Xor (x # a) (y # b) = (x XOR y) # Xor a b"
  by (simp add: Xor_def)

lemma Xor_Nil [simp]: "Xor [] b = []" "Xor a [] = []"
  by (simp_all add: Xor_def)

lemma Xor_cancel: "length a = length b \<Longrightarrow> length b = length c \<Longrightarrow> Xor (Xor a b) (Xor b c) = Xor a c"
proof (induction a b arbitrary: c rule: list_induct2)
  case (Cons x xs y ys)
  have "(x XOR y) XOR (y XOR z) = x XOR z" for z
    by (metis xor.assoc xor_self_eq xor.left_neutral)
  then show ?case using Cons by (cases c) auto
qed simp

lemma Xor_self: "Xor a a = replicate (length a) 0"
  by (induction a) auto

text \<open>For a fixed target, a distance belongs to one identifier only.\<close>

lemma Xor_inject:
  assumes "length a = length t" "length b = length t"
  shows "Xor a t = Xor b t \<longleftrightarrow> a = b"
  using assms
proof (induction a t arbitrary: b rule: list_induct2)
  case (Cons x xs y ys)
  have "x XOR y = z XOR y \<longleftrightarrow> x = z" for z
    by (metis xor.assoc xor_self_eq xor.right_neutral)
  then show ?case using Cons by (cases b) auto
qed simp

subsection \<open>Refinement to 256-bit numbers\<close>

lemma push_plus_xor:
  fixes x y u v :: nat
  assumes "u < 2 ^ n" "v < 2 ^ n"
  shows "(x * 2 ^ n + u) XOR (y * 2 ^ n + v) = (x XOR y) * 2 ^ n + (u XOR v)"
proof -
  have split: "a * 2 ^ n + b = push_bit n a OR b" if "b < 2 ^ n" for a b :: nat
  proof -
    have b: "take_bit n b = b" using that by (simp add: take_bit_nat_eq_self)
    have "push_bit n a AND b = 0"
      by (subst b [symmetric], rule bit_eqI) (simp add: bit_simps)
    then show ?thesis
      by (metis push_bit_eq_mult disjunctive_add bit_and_iff bit_0_eq bot_apply bot_bool_def)
  qed
  have "u XOR v < 2 ^ n"
    using assms by (metis take_bit_nat_eq_self take_bit_nat_eq_self_iff take_bit_xor)
  moreover have "\<not> bit u m" "\<not> bit v m" if "n \<le> m" for m
    using that assms by (metis bit_take_bit_iff linorder_not_less take_bit_nat_eq_self)+
  then have "(push_bit n x OR u) XOR (push_bit n y OR v) = push_bit n (x XOR y) OR (u XOR v)"
    by (intro bit_eqI) (auto simp: bit_simps)
  ultimately show ?thesis
    using assms by (simp add: split)
qed

lemma be_val_Xor: "length a = length b \<Longrightarrow> be_val (Xor a b) = be_val a XOR be_val b"
proof (induction a b rule: list_induct2)
  case (Cons x xs y ys)
  have p: "(256 :: nat) ^ n = 2 ^ (8 * n)" for n
    by (simp add: power_mult)
  have "unat (x XOR y) = unat x XOR unat y"
    by (simp add: unsigned_xor_eq)
  then show ?case
    using Cons be_val_less [of xs] be_val_less [of ys] by (simp add: p push_plus_xor)
qed simp

lemma DistanceLess_be_val:
  "nodeid_ok a \<Longrightarrow> nodeid_ok b \<Longrightarrow> DistanceLess a b \<longleftrightarrow> be_val a < be_val b"
  by (simp add: DistanceLess_def be_val_mono nodeid_ok_def)

lemma xor_le_plus: "m XOR n \<le> m + (n :: nat)"
proof -
  have "int m OR int n = (int m XOR int n) OR (int m AND int n)"
    by (rule bit_eqI) (auto simp: bit_simps)
  also have "\<dots> = (int m XOR int n) + (int m AND int n)"
    by (rule disjunctive_add [symmetric]) (auto simp: bit_simps)
  finally have "(int m XOR int n) + 2 * (int m AND int n) = int m + int n"
    using plus_and_or [of "int m" "int n"] by simp
  moreover have "0 \<le> int m AND int n" by simp
  ultimately have "int m XOR int n \<le> int m + int n" by linarith
  then have "int (m XOR n) \<le> int (m + n)"
    by (simp add: of_nat_xor_eq)
  then show ?thesis by (simp only: of_nat_le_iff)
qed

lemma be_val_triangle:
  assumes "length a = length b" "length b = length c"
  shows "be_val (Xor a c) \<le> be_val (Xor a b) + be_val (Xor b c)"
proof -
  have "be_val (Xor a c) = be_val (Xor a b) XOR be_val (Xor b c)"
    using assms Xor_cancel [of a b c] be_val_Xor [of "Xor a b" "Xor b c"] by simp
  then show ?thesis by (simp add: xor_le_plus)
qed

lemma be_val_eq_0: "be_val bs = 0 \<longleftrightarrow> (\<forall>b \<in> set bs. b = 0)"
  by (induction bs) (auto simp: unat_eq_zero)

lemma be_val_Xor_eq_0: "length a = length b \<Longrightarrow> be_val (Xor a b) = 0 \<longleftrightarrow> a = b"
proof -
  assume "length a = length b"
  moreover have "be_val (Xor b b) = 0"
    by (simp add: Xor_self be_val_eq_0)
  ultimately show ?thesis
    using be_val_inject [of "Xor a b" "Xor b b"] Xor_inject [of a b b] by simp
qed

subsection \<open>The bucket index is the position of the highest set bit\<close>

lemma bit_scan_eq: "bit_scan x = find (\<lambda>b. bit x (7 - b)) [0..<8]"
  by (simp add: bit_scan_def and_exp_eq_0_iff_not_bit push_bit_of_1)

lemma bit_scan_bounds:
  assumes "x \<noteq> 0"
  shows "\<exists>b. bit_scan x = Some b \<and> b < 8 \<and> 2 ^ (7 - b) \<le> unat x \<and> unat x < 2 ^ (8 - b)"
proof -
  have "x = 0" if "\<forall>n < 8. \<not> bit x n"
    by (rule bit_word_eqI) (use that in auto)
  then obtain n where n: "n < 8" "bit x n"
    using assms by blast
  then have "\<exists>b \<in> set [0..<8]. bit x (7 - b)"
    by (intro bexI [of _ "7 - n"]) auto
  then obtain b where "find (\<lambda>b. bit x (7 - b)) [0..<8] = Some b"
    by (metis find_None_iff not_None_eq)
  then have b: "b < 8" "bit x (7 - b)" "\<forall>j < b. \<not> bit x (7 - j)" "bit_scan x = Some b"
    by (auto simp: find_Some_iff bit_scan_eq)
  have "\<not> bit (unat x) k" if "8 - b \<le> k" for k
    using b(1) b(3) [rule_format, of "7 - k"] that
    by (cases "k < 8") (auto simp: bit_unsigned_iff dest: bit_imp_le_length)
  then have "take_bit (8 - b) (unat x) = unat x"
    by (intro bit_eqI) (auto simp: bit_take_bit_iff linorder_not_le [symmetric])
  then have "unat x < 2 ^ (8 - b)"
    by (simp add: take_bit_nat_eq_self_iff)
  moreover have "2 ^ (7 - b) \<le> unat x"
  proof (rule ccontr)
    assume "\<not> 2 ^ (7 - b) \<le> unat x"
    then have "take_bit (7 - b) (unat x) = unat x" by (simp add: take_bit_nat_eq_self)
    then have "\<not> bit (unat x) (7 - b)" by (metis bit_take_bit_iff less_irrefl)
    with b(2) show False by (simp add: bit_unsigned_iff)
  qed
  ultimately show ?thesis using b by blast
qed

lemma bucket_scan_zero: "be_val d = 0 \<Longrightarrow> bucket_scan i d = -1"
  by (induction d arbitrary: i) (auto simp: unat_eq_zero)

lemma bucket_scan_bounds:
  assumes "be_val d \<noteq> 0"
  shows "\<exists>j < 8 * length d. bucket_scan i d = int (8 * i + j) \<and>
           2 ^ (8 * length d - 1 - j) \<le> be_val d \<and> be_val d < 2 ^ (8 * length d - j)"
  using assms
proof (induction d arbitrary: i)
  case (Cons x d)
  have p: "(256 :: nat) ^ n = 2 ^ (8 * n)" for n
    by (simp add: power_mult)
  show ?case
  proof (cases "x = 0")
    case True
    with Cons obtain j where j: "j < 8 * length d" "bucket_scan (Suc i) d = int (8 * Suc i + j)"
      "2 ^ (8 * length d - 1 - j) \<le> be_val d" "be_val d < 2 ^ (8 * length d - j)"
      by (metis add_0 be_val.simps(2) mult_0 unat_0)
    then show ?thesis
      using True by (intro exI [of _ "j + 8"]) auto
  next
    case False
    then obtain b where b: "bit_scan x = Some b" "b < 8" "2 ^ (7 - b) \<le> unat x" "unat x < 2 ^ (8 - b)"
      using bit_scan_bounds by blast
    let ?m = "(256 :: nat) ^ length d"
    have "2 ^ (7 - b) * ?m \<le> unat x * ?m" and "(unat x + 1) * ?m \<le> 2 ^ (8 - b) * ?m"
      using b by (intro mult_right_mono; simp)+
    moreover have "2 ^ (7 - b) * ?m = 2 ^ (8 * length (x # d) - 1 - b)"
      and "2 ^ (8 - b) * ?m = 2 ^ (8 * length (x # d) - b)"
      using b by (simp_all add: p flip: power_add)
    ultimately have "2 ^ (8 * length (x # d) - 1 - b) \<le> be_val (x # d)"
      and "be_val (x # d) < 2 ^ (8 * length (x # d) - b)"
      using be_val_less [of d] by simp_all
    then show ?thesis
      using False b by (intro exI [of _ b]) simp
  qed
qed simp

lemma BucketIndex_self [simp]: "BucketIndex i i = -1"
  by (simp add: BucketIndex_def bucket_scan_zero be_val_eq_0 Xor_self)

lemma BucketIndex_bounds:
  assumes "nodeid_ok a" "nodeid_ok b" "a \<noteq> b"
  obtains j where "j < 256" "BucketIndex a b = int j"
    "2 ^ (255 - j) \<le> be_val (Xor a b)" "be_val (Xor a b) < 2 ^ (256 - j)"
proof -
  have l: "length a = 32" "length b = 32"
    using assms by (simp_all add: nodeid_ok_length)
  then have "be_val (Xor a b) \<noteq> 0"
    using assms(3) by (simp add: be_val_Xor_eq_0)
  from bucket_scan_bounds [OF this, of 0] l show ?thesis
    by (auto simp: BucketIndex_def intro: that)
qed

lemma BucketIndex_range:
  "nodeid_ok a \<Longrightarrow> nodeid_ok b \<Longrightarrow> a \<noteq> b \<Longrightarrow> \<exists>j < 256. BucketIndex a b = int j"
  using BucketIndex_bounds by metis

lemma BucketIndex_neg_iff:
  "nodeid_ok a \<Longrightarrow> nodeid_ok b \<Longrightarrow> BucketIndex a b < 0 \<longleftrightarrow> a = b"
  using BucketIndex_range [of a b] BucketIndex_self [of a] by force

lemma BucketIndex_less_256: "nodeid_ok a \<Longrightarrow> nodeid_ok b \<Longrightarrow> BucketIndex a b < 256"
  using BucketIndex_range [of a b] BucketIndex_self [of a] by force

lemma BucketIndex_commute: "BucketIndex a b = BucketIndex b a"
  by (simp add: BucketIndex_def Xor_commute)

text \<open>A larger bucket index means a smaller distance: buckets partition the identifiers into
  distance bands.\<close>

lemma BucketIndex_band:
  assumes "nodeid_ok s" "nodeid_ok a" "nodeid_ok b" "a \<noteq> s" "b \<noteq> s"
    and "BucketIndex s a < BucketIndex s b"
  shows "be_val (Xor s b) < be_val (Xor s a)"
proof -
  obtain i where i: "i < 256" "BucketIndex s a = int i" "2 ^ (255 - i) \<le> be_val (Xor s a)"
    by (rule BucketIndex_bounds [OF assms(1,2)]) (use assms(4) in auto)
  obtain j where j: "j < 256" "BucketIndex s b = int j" "be_val (Xor s b) < 2 ^ (256 - j)"
    by (rule BucketIndex_bounds [OF assms(1,3)]) (use assms(5) in auto)
  have "256 - j \<le> 255 - i" using i j assms(6) by simp
  then have "(2 :: nat) ^ (256 - j) \<le> 2 ^ (255 - i)" by (intro power_increasing) auto
  with i(3) j(3) show ?thesis by linarith
qed

subsection \<open>Properties\<close>

text \<open>C31: the byte-wise distance and its lexicographic comparison implement the Kademlia metric on
  256-bit numbers: the distance of two identifiers denotes the exclusive or of their numbers, and
  comparing two distances compares these numbers.\<close>

theorem distance_refines_xor:
  assumes "nodeid_ok a" "nodeid_ok b" "nodeid_ok t"
  shows "be_val (Distance a t) = be_val a XOR be_val t \<and>
    (DistanceLess (Distance a t) (Distance b t) \<longleftrightarrow>
       be_val a XOR be_val t < be_val b XOR be_val t)"
  using assms by (simp add: Distance_def be_val_Xor DistanceLess_be_val nodeid_ok_length)

theorem distance_refines_xor_witness:
  "be_val (Distance (replicate 31 0 @ [2]) (replicate 31 0 @ [3])) = 1 \<and>
   DistanceLess (Distance (replicate 31 0 @ [2]) (replicate 31 0 @ [3]))
                (Distance (replicate 31 0 @ [5]) (replicate 31 0 @ [3]))"
proof -
  have ok: "nodeid_ok (replicate 31 0 @ [x])" for x by (simp add: nodeid_ok_length)
  have v: "be_val (replicate 31 0 @ [x]) = unat x" for x
    by (simp add: be_val_append be_val_eq_0)
  show ?thesis
    using distance_refines_xor [OF ok ok ok, of 2 3 5] by (simp add: v)
qed

text \<open>The distance is a metric with unique points: symmetric, zero exactly on equal identifiers,
  satisfying the triangle inequality, and for a fixed target no two identifiers share a distance
  (so lookups order all candidates strictly).\<close>

lemma distance_metric:
  assumes "nodeid_ok a" "nodeid_ok b" "nodeid_ok c"
  shows "Distance a b = Distance b a \<and>
    (be_val (Distance a b) = 0 \<longleftrightarrow> a = b) \<and>
    be_val (Distance a c) \<le> be_val (Distance a b) + be_val (Distance b c) \<and>
    (Distance a c = Distance b c \<longleftrightarrow> a = b)"
proof (intro conjI)
  show "Distance a b = Distance b a"
    by (simp add: Distance_def Xor_commute)
qed (use assms in \<open>simp_all add: Distance_def be_val_Xor_eq_0 be_val_triangle Xor_inject
  nodeid_ok_length\<close>)

text \<open>\<^verbatim>\<open>BucketIndex\<close> is -1 exactly for the own identifier, otherwise it is the number of leading
  zero bits of the distance, so it lies in 0..255 and bucket \<open>j\<close> holds exactly the distances in
  the band from \<open>2 ^ (255 - j)\<close> up to \<open>2 ^ (256 - j)\<close>.\<close>

lemma bucket_index_band:
  assumes "nodeid_ok self" "nodeid_ok other" "j < 256"
  shows "(BucketIndex self other = -1 \<longleftrightarrow> self = other) \<and>
    (BucketIndex self other = int j \<longleftrightarrow>
       2 ^ (255 - j) \<le> be_val (Distance self other) \<and>
       be_val (Distance self other) < 2 ^ (256 - j))"
proof (cases "self = other")
  case True
  then show ?thesis
    by (simp add: Distance_def Xor_self be_val_eq_0 [THEN iffD2])
next
  case False
  then obtain i where i: "i < 256" "BucketIndex self other = int i"
    "2 ^ (255 - i) \<le> be_val (Xor self other)" "be_val (Xor self other) < 2 ^ (256 - i)"
    using BucketIndex_bounds [OF assms(1,2)] by metis
  have suc: "Suc (255 - k) = 256 - k" if "k < 256" for k :: nat using that by simp
  have "255 - j = 255 - i" if "2 ^ (255 - j) \<le> be_val (Xor self other)"
    "be_val (Xor self other) < 2 ^ (256 - j)"
    by (rule power_band_unique [of _ "be_val (Xor self other)"]) (use that i assms(3) suc in metis)+
  with False i assms(3) show ?thesis unfolding Distance_def by auto
qed

end
