(* ===== verification/NetAddr.thy ===== *)
theory NetAddr
  imports GoLib
begin

text \<open>
  Network addresses: \<^verbatim>\<open>net.SplitHostPort\<close>, \<^verbatim>\<open>net.ParseIP\<close> (through \<^verbatim>\<open>netip.ParseAddr\<close>), the textual
  form of an IPv6 address, and on top of them \<^verbatim>\<open>subnetKey\<close> of \<^verbatim>\<open>internal/dht/routing.go\<close>, the key by
  which the routing table limits how many nodes of one network it admits to a bucket. A parsed
  \<^verbatim>\<open>net.IP\<close> is its 16-byte form; \<open>None\<close> is the nil IP or a non-nil error. \<^verbatim>\<open>strings.ToLower\<close> is
  modelled on ASCII.
\<close>

subsection \<open>Characters\<close>

definition digit_val :: "char \<Rightarrow> nat" where
  "digit_val c = of_char c - 48"

definition ToLower_char :: "char \<Rightarrow> char" where
  "ToLower_char c = (if CHR ''A'' \<le> c \<and> c \<le> CHR ''Z'' then char_of (of_char c + 32 :: nat) else c)"

definition ToLower :: "string \<Rightarrow> string" where
  "ToLower s = map ToLower_char s"

fun dec :: "nat \<Rightarrow> string" where
  "dec n = (if n < 10 then [hexDigit n] else dec (n div 10) @ [hexDigit (n mod 10)])"

fun hexn :: "nat \<Rightarrow> string" where
  "hexn n = (if n < 16 then [hexDigit n] else hexn (n div 16) @ [hexDigit (n mod 16)])"

declare dec.simps [simp del] hexn.simps [simp del]

subsection \<open>net.SplitHostPort\<close>

definition colon :: char where "colon = CHR '':''"

definition SplitHostPort :: "string \<Rightarrow> (string \<times> string) option" where
  "SplitHostPort hostport =
     (if colon \<notin> set hostport then None
      else
        let port = rev (takeWhile (\<lambda>c. c \<noteq> colon) (rev hostport));
            i = length hostport - length port - 1;
            parts =
              (if hd hostport = CHR ''['' then
                 (if CHR '']'' \<notin> set hostport then None
                  else
                    let e = length (takeWhile (\<lambda>c. c \<noteq> CHR '']'') hostport)
                    in if e + 1 = i then Some (take (e - 1) (drop 1 hostport), 1, e + 1) else None)
               else
                 let host = take i hostport
                 in if colon \<in> set host then None else Some (host, 0, 0))
        in case parts of
             None \<Rightarrow> None
           | Some (host, j, k) \<Rightarrow>
               if CHR ''['' \<in> set (drop j hostport) then None
               else if CHR '']'' \<in> set (drop k hostport) then None
               else Some (host, port))"

subsection \<open>net.ParseIP\<close>

fun parseIPv4Fields :: "string \<Rightarrow> nat \<Rightarrow> nat \<Rightarrow> bytes \<Rightarrow> bytes option" where
  "parseIPv4Fields [] val digLen octets =
     (if length octets < 3 then None else Some (octets @ [word_of_nat val]))"
| "parseIPv4Fields (c # s) val digLen octets =
     (if is_digit c then
        (if digLen = 1 \<and> val = 0 then None
         else
           let val' = val * 10 + digit_val c
           in if val' > 255 then None else parseIPv4Fields s val' (Suc digLen) octets)
      else if c = CHR ''.'' then
        (if digLen = 0 \<or> s = [] then None
         else if length octets = 3 then None
         else parseIPv4Fields s 0 0 (octets @ [word_of_nat val]))
      else None)"

definition is_hex :: "char \<Rightarrow> bool" where
  "is_hex c \<longleftrightarrow> fromHexChar c \<noteq> None"

definition hex_val :: "string \<Rightarrow> nat" where
  "hex_val s = foldl (\<lambda>acc c. acc * 16 + (case fromHexChar c of None \<Rightarrow> 0 | Some d \<Rightarrow> d)) 0 s"

lemma dropWhile_tl_less:
  "dropWhile P s \<noteq> [] \<Longrightarrow> length (dropWhile P s) - Suc 0 < length s"
  "dropWhile P s \<noteq> [] \<Longrightarrow> length (dropWhile P s) - Suc (Suc 0) < length s"
  using length_dropWhile_le [of P s] by (cases "dropWhile P s"; simp)+

text \<open>The group loop of \<^verbatim>\<open>netip.parseIPv6\<close>: the rest of the input, the bytes so far and the position of
  the ellipsis; the result is the unread input (non-empty: trailing garbage), the bytes and the
  ellipsis.\<close>

function parseIPv6Loop ::
  "string \<Rightarrow> bytes \<Rightarrow> nat option \<Rightarrow> (string \<times> bytes \<times> nat option) option" where
  "parseIPv6Loop s ip ellipsis =
     (if 16 \<le> length ip then Some (s, ip, ellipsis)
      else
        let group = takeWhile is_hex s;
            rest = dropWhile is_hex s;
            acc = hex_val group;
            ip' = ip @ [word_of_nat (acc div 256), word_of_nat (acc mod 256)]
        in
          if group = [] \<or> length group > 4 then None
          else if rest \<noteq> [] \<and> hd rest = CHR ''.'' then
            (if ellipsis = None \<and> length ip \<noteq> 12 then None
             else if length ip + 4 > 16 then None
             else case parseIPv4Fields s 0 0 [] of
                    None \<Rightarrow> None
                  | Some v4 \<Rightarrow> Some ([], ip @ v4, ellipsis))
          else if rest = [] then Some ([], ip', ellipsis)
          else if hd rest \<noteq> colon then None
          else if tl rest = [] then None
          else if hd (tl rest) \<noteq> colon then parseIPv6Loop (tl rest) ip' ellipsis
          else if ellipsis \<noteq> None then None
          else if tl (tl rest) = [] then Some ([], ip', Some (length ip'))
          else parseIPv6Loop (tl (tl rest)) ip' (Some (length ip')))"
  by pat_completeness auto
termination
  by (relation "measure (\<lambda>(s, _, _). length s)") (auto simp: dropWhile_tl_less)

declare parseIPv6Loop.simps [simp del]

definition parseIPv6 :: "string \<Rightarrow> bytes option" where
  "parseIPv6 s =
     (let lead = (take 2 s = [colon, colon]);
          s' = (if lead then drop 2 s else s)
      in if lead \<and> s' = [] then Some (replicate 16 0)
         else case parseIPv6Loop s' [] (if lead then Some 0 else None) of
                None \<Rightarrow> None
              | Some (rest, ip, ellipsis) \<Rightarrow>
                  if rest \<noteq> [] then None
                  else if length ip < 16 then
                    (case ellipsis of
                       None \<Rightarrow> None
                     | Some e \<Rightarrow> Some (take e ip @ replicate (16 - length ip) 0 @ drop e ip))
                  else if ellipsis \<noteq> None then None
                  else Some ip)"

text \<open>\<^verbatim>\<open>ParseIP\<close>: the first of dot, colon or percent decides the form; an address with a zone
  is refused; an IPv4 address is returned in its IPv4-mapped 16-byte form.\<close>

definition v4InV6Prefix :: bytes where
  "v4InV6Prefix = replicate 10 0 @ [255, 255]"

definition ParseIP :: "string \<Rightarrow> bytes option" where
  "ParseIP s =
     (case find (\<lambda>c. c = CHR ''.'' \<or> c = colon \<or> c = CHR ''%'') s of
        None \<Rightarrow> None
      | Some c \<Rightarrow>
          if c = CHR ''.'' then map_option (\<lambda>v4. v4InV6Prefix @ v4) (parseIPv4Fields s 0 0 [])
          else if c = colon then (if CHR ''%'' \<in> set s then None else parseIPv6 s)
          else None)"

definition To4 :: "bytes \<Rightarrow> bytes option" where
  "To4 ip = (if length ip = 16 \<and> take 12 ip = v4InV6Prefix then Some (drop 12 ip) else None)"

definition IsLoopback :: "bytes \<Rightarrow> bool" where
  "IsLoopback ip =
     (case To4 ip of Some v4 \<Rightarrow> hd v4 = 127 | None \<Rightarrow> ip = replicate 15 0 @ [1])"

subsection \<open>Textual form of an IPv6 address\<close>

fun v6groups :: "bytes \<Rightarrow> nat list" where
  "v6groups (a # b # bs) = (unat a * 256 + unat b) # v6groups bs"
| "v6groups bs = []"

text \<open>The longest run of at least two zero groups, the first one on a tie: (start, end).\<close>

definition zero_run :: "nat list \<Rightarrow> nat \<times> nat" where
  "zero_run gs = foldl (\<lambda>(zs, ze) i.
       let j = i + length (takeWhile (\<lambda>g. g = 0) (drop i gs))
       in if j - i \<ge> 2 \<and> j - i > ze - zs then (i, j) else (zs, ze)) (255, 255) [0..<8]"

fun appendTo6 :: "nat list \<Rightarrow> nat \<times> nat \<Rightarrow> nat \<Rightarrow> nat \<Rightarrow> string" where
  "appendTo6 gs z i 0 = []"
| "appendTo6 gs z i (Suc fuel) =
     (if 8 \<le> i then []
      else if i = fst z then
        colon # colon #
          (if 8 \<le> snd z then [] else hexn (gs ! snd z) @ appendTo6 gs z (Suc (snd z)) fuel)
      else (if 0 < i then [colon] else []) @ hexn (gs ! i) @ appendTo6 gs z (Suc i) fuel)"

definition IP_String :: "bytes \<Rightarrow> string" where
  "IP_String ip =
     (case To4 ip of
        Some v4 \<Rightarrow>
          dec (unat (v4 ! 0)) @ ''.'' @ dec (unat (v4 ! 1)) @ ''.'' @ dec (unat (v4 ! 2)) @ ''.'' @
          dec (unat (v4 ! 3))
      | None \<Rightarrow> let gs = v6groups ip in appendTo6 gs (zero_run gs) 0 8)"

subsection \<open>subnetKey\<close>

definition subnetKey :: "string \<Rightarrow> string" where
  "subnetKey addr =
     (let (host, port) = (case SplitHostPort addr of None \<Rightarrow> (addr, []) | Some hp \<Rightarrow> hp)
      in case ParseIP host of
           None \<Rightarrow> ''dns:'' @ ToLower host
         | Some ip \<Rightarrow>
             if IsLoopback ip then
               (if port \<noteq> [] then ''loopback:'' @ host @ '':'' @ port else ''loopback:'' @ host)
             else
               (case To4 ip of
                  Some v4 \<Rightarrow>
                    ''v4:'' @ dec (unat (v4 ! 0)) @ ''.'' @ dec (unat (v4 ! 1)) @ ''.'' @
                    dec (unat (v4 ! 2)) @ ''.0/24''
                | None \<Rightarrow>
                    if length ip \<noteq> 16 then ''ip:unknown''
                    else ''v6:'' @ IP_String (take 8 ip @ replicate 8 0) @ ''/64''))"

lemma subnetKey_not_Nil [simp]: "subnetKey addr \<noteq> []"
  by (auto simp: subnetKey_def Let_def split: option.splits prod.splits)

end
