(* ===== verification/Contracts.thy ===== *)
theory Contracts
  imports Prelude
begin

text \<open>
  The contracts between the components, each a locale: what a client may rely on, and the lemmas
  every provider then shares. The providers interpret them in their own theories.

  \<^item> \<open>closest_select\<close>: a selection of the nearest elements (\<^verbatim>\<open>RoutingTable.Closest\<close>);
  \<^item> \<open>dedup_log\<close>: insert-if-absent under a key (\<^verbatim>\<open>Ledger.ApplyGrant\<close>);
  \<^item> \<open>version_merge\<close>: the higher version wins (\<^verbatim>\<open>points.Engine.ApplyRemote\<close>, mutable records in
    \<^verbatim>\<open>MemRecordStore.Put\<close>).
\<close>

subsection \<open>Selecting the closest elements\<close>

locale closest_select =
  fixes dist :: "'t \<Rightarrow> 'a \<Rightarrow> 'd :: linorder"
    and select :: "'t \<Rightarrow> nat \<Rightarrow> 'a list \<Rightarrow> 'a list"
  assumes select_eq: "select t n xs = take n (sort_key (dist t) xs)"
begin

lemma length_select: "length (select t n xs) = min n (length xs)"
  by (simp add: select_eq)

lemma select_sorted: "sorted (map (dist t) (select t n xs))"
  by (simp add: select_eq take_map [symmetric])

lemma select_subset: "set (select t n xs) \<subseteq> set xs"
  unfolding select_eq using set_take_subset [of n "sort_key (dist t) xs"] by simp

lemma select_distinct: "distinct (map f xs) \<Longrightarrow> distinct (map f (select t n xs))"
  unfolding select_eq by (metis distinct_map_take mset_eq_imp_distinct_iff mset_map mset_sort)

text \<open>An element that is left out is at least as far away as every selected one.\<close>

lemma select_closest:
  assumes "y \<in># mset xs - mset (select t n xs)" and "x \<in> set (select t n xs)"
  shows "dist t x \<le> dist t y"
proof -
  let ?s = "sort_key (dist t) xs"
  have "mset xs = mset (take n ?s) + mset (drop n ?s)"
    by (metis append_take_drop_id mset_append mset_sort)
  then have "y \<in> set (drop n ?s)"
    using assms(1) by (simp add: select_eq)
  moreover have "sorted (map (dist t) (take n ?s @ drop n ?s))"
    by simp
  ultimately show ?thesis
    using assms(2) unfolding select_eq map_append sorted_append by auto
qed

text \<open>Where distances separate the elements, the selection does not depend on the order in which
  the elements are listed.\<close>

lemma select_order_free:
  assumes "mset xs = mset ys" and "inj_on (dist t) (set xs)"
  shows "select t n xs = select t n ys"
proof -
  have sorted: "sorted_wrt (\<lambda>a b. dist t a \<le> dist t b) (sort_key (dist t) zs)" for zs
    using sorted_sort_key [of "dist t" zs] by (simp add: sorted_wrt_map)
  have "sort_key (dist t) xs = sort_key (dist t) ys"
    by (rule sorted_wrt_mset_unique [OF sorted sorted])
      (use assms in \<open>auto simp: inj_on_def\<close>)
  then show ?thesis by (simp add: select_eq)
qed

end

subsection \<open>Insert if absent\<close>

locale dedup_log =
  fixes key :: "'m \<Rightarrow> 'k"
    and accepts :: "'m \<Rightarrow> bool"
    and entries :: "'s \<Rightarrow> 'k \<rightharpoonup> 'm"
    and ins :: "'m \<Rightarrow> 's \<Rightarrow> bool \<times> 's"
  assumes ins_new: "accepts m \<Longrightarrow> entries s (key m) = None \<Longrightarrow>
      fst (ins m s) \<and> entries (snd (ins m s)) = (entries s)(key m \<mapsto> m)"
    and ins_dup: "entries s (key m) \<noteq> None \<Longrightarrow> ins m s = (False, s)"
    and ins_reject: "\<not> accepts m \<Longrightarrow> ins m s = (False, s)"
begin

lemma ins_flag: "fst (ins m s) \<longleftrightarrow> accepts m \<and> entries s (key m) = None"
  using ins_new ins_dup ins_reject by (metis fst_conv)

lemma ins_frame: "\<not> fst (ins m s) \<Longrightarrow> snd (ins m s) = s"
  using ins_flag ins_dup ins_reject by (metis snd_conv)

lemma entries_ins:
  "entries (snd (ins m s)) k =
     (if k = key m \<and> accepts m \<and> entries s k = None then Some m else entries s k)"
  using ins_new [of m s] ins_dup [of s m] ins_reject [of m s]
  by (cases "accepts m \<and> entries s (key m) = None") auto

text \<open>After any sequence of insertions an entry is the one that was there, or else the first
  acceptable message with its key.\<close>

lemma entries_ins_all:
  "entries (fold (\<lambda>m s. snd (ins m s)) ms s) k =
     (case entries s k of Some m \<Rightarrow> Some m | None \<Rightarrow> find (\<lambda>m. accepts m \<and> key m = k) ms)"
  by (induction ms arbitrary: s) (auto simp: entries_ins split: option.splits)

lemma ins_all_keeps: "entries s k = Some m \<Longrightarrow> entries (fold (\<lambda>m s. snd (ins m s)) ms s) k = Some m"
  by (simp add: entries_ins_all)

lemma ins_idempotent: "ins m (snd (ins m s)) = (False, snd (ins m s))"
  using entries_ins [of m s "key m"] ins_dup ins_reject by (metis option.distinct(1))

text \<open>Replicas that have received the same messages agree, whatever the order and the repetitions,
  provided a key identifies its message.\<close>

lemma ins_all_converge:
  assumes "set ms = set ms'"
    and "\<And>m m'. m \<in> set ms \<Longrightarrow> m' \<in> set ms \<Longrightarrow> accepts m \<Longrightarrow> accepts m' \<Longrightarrow> key m = key m' \<Longrightarrow> m = m'"
  shows "entries (fold (\<lambda>m s. snd (ins m s)) ms s) = entries (fold (\<lambda>m s. snd (ins m s)) ms' s)"
proof
  fix k
  have "find (\<lambda>m. accepts m \<and> key m = k) ms = find (\<lambda>m. accepts m \<and> key m = k) ms'"
  proof (cases "find (\<lambda>m. accepts m \<and> key m = k) ms")
    case None
    then have "find (\<lambda>m. accepts m \<and> key m = k) ms' = None"
      using assms(1) by (simp add: find_None_iff)
    with None show ?thesis by simp
  next
    case (Some m)
    then have m: "m \<in> set ms" "accepts m" "key m = k" by (auto simp: find_Some_iff)
    then have "find (\<lambda>m. accepts m \<and> key m = k) ms' \<noteq> None"
      using assms(1) by (auto simp: find_None_iff)
    then obtain m' where m': "find (\<lambda>m. accepts m \<and> key m = k) ms' = Some m'" by blast
    then have "m' \<in> set ms" "accepts m'" "key m' = k" using assms(1) by (auto simp: find_Some_iff)
    with m assms(2) have "m' = m" by blast
    with Some m' show ?thesis by simp
  qed
  then show "entries (fold (\<lambda>m s. snd (ins m s)) ms s) k =
      entries (fold (\<lambda>m s. snd (ins m s)) ms' s) k"
    by (simp only: entries_ins_all)
qed

end

subsection \<open>The higher version wins\<close>

locale version_merge =
  fixes key :: "'m \<Rightarrow> 'k"
    and ver :: "'m \<Rightarrow> 'v :: linorder"
    and accepts :: "'m \<Rightarrow> bool"
    and entries :: "'s \<Rightarrow> 'k \<rightharpoonup> 'm"
    and ins :: "'m \<Rightarrow> 's \<Rightarrow> bool \<times> 's"
  assumes ins_newer: "accepts m \<Longrightarrow> (\<And>old. entries s (key m) = Some old \<Longrightarrow> ver old < ver m) \<Longrightarrow>
      fst (ins m s) \<and> entries (snd (ins m s)) = (entries s)(key m \<mapsto> m)"
    and ins_stale: "entries s (key m) = Some old \<Longrightarrow> ver m \<le> ver old \<Longrightarrow> ins m s = (False, s)"
    and ins_reject: "\<not> accepts m \<Longrightarrow> ins m s = (False, s)"
begin

lemma entries_ins:
  "entries (snd (ins m s)) k =
     (if k = key m \<and> accepts m \<and> (\<forall>old. entries s k = Some old \<longrightarrow> ver old < ver m) then Some m
      else entries s k)"
proof (cases "accepts m \<and> (\<forall>old. entries s (key m) = Some old \<longrightarrow> ver old < ver m)")
  case True
  then show ?thesis using ins_newer [of m s] by auto
next
  case False
  then have "ins m s = (False, s)"
    using ins_stale [of s m] ins_reject [of m s] by (metis not_less)
  with False show ?thesis by auto
qed

text \<open>Versions never go back.\<close>

lemma ins_mono:
  "entries s k = Some old \<Longrightarrow> \<exists>new. entries (snd (ins m s)) k = Some new \<and> ver old \<le> ver new"
  by (auto simp: entries_ins less_imp_le)

lemma ins_all_mono:
  "entries s k = Some old \<Longrightarrow>
     \<exists>new. entries (fold (\<lambda>m s. snd (ins m s)) ms s) k = Some new \<and> ver old \<le> ver new"
proof (induction ms arbitrary: s old)
  case (Cons m ms)
  from ins_mono [OF Cons.prems, of m] obtain mid
    where "entries (snd (ins m s)) k = Some mid" "ver old \<le> ver mid" by blast
  with Cons.IH [of "snd (ins m s)" mid] show ?case by fastforce
qed simp

text \<open>The merged entry is a received (or initial) message of the highest version.\<close>

lemma ins_all_max:
  assumes "m \<in> set ms" "accepts m"
  shows "\<exists>new. entries (fold (\<lambda>m s. snd (ins m s)) ms s) (key m) = Some new \<and> ver m \<le> ver new"
  using assms
proof (induction ms arbitrary: s)
  case (Cons a ms)
  show ?case
  proof (cases "a = m")
    case True
    have "\<exists>new. entries (snd (ins m s)) (key m) = Some new \<and> ver m \<le> ver new"
      using Cons.prems(2) by (auto simp: entries_ins not_less)
    then obtain new where "entries (snd (ins m s)) (key m) = Some new" "ver m \<le> ver new" by blast
    with ins_all_mono [of "snd (ins m s)" "key m" new ms] True show ?thesis by fastforce
  qed (use Cons in simp)
qed simp

lemma ins_all_source:
  "entries (fold (\<lambda>m s. snd (ins m s)) ms s) k = Some new \<Longrightarrow>
     entries s k = Some new \<or> new \<in> set ms \<and> accepts new \<and> key new = k"
proof (induction ms arbitrary: s)
  case (Cons m ms)
  then have "entries (snd (ins m s)) k = Some new \<or> new \<in> set ms \<and> accepts new \<and> key new = k"
    by simp
  then show ?case by (auto simp: entries_ins split: if_splits)
qed simp

text \<open>Replicas that start empty and receive the same messages agree, whatever the order, provided a
  key and a version identify the message.\<close>

lemma ins_all_converge:
  assumes "set ms = set ms'" and "entries s = Map.empty" "entries s' = Map.empty"
    and uniq: "\<And>m m'. m \<in> set ms \<Longrightarrow> m' \<in> set ms \<Longrightarrow> accepts m \<Longrightarrow> accepts m' \<Longrightarrow>
      key m = key m' \<Longrightarrow> ver m = ver m' \<Longrightarrow> m = m'"
  shows "entries (fold (\<lambda>m s. snd (ins m s)) ms s) = entries (fold (\<lambda>m s. snd (ins m s)) ms' s')"
    (is "entries ?l = entries ?r")
proof
  fix k
  show "entries ?l k = entries ?r k"
  proof (cases "entries ?l k")
    case None
    have "entries ?r k \<noteq> Some m" for m
      using None ins_all_source [of ms' s' k m] ins_all_max [of m ms s] assms(1,3) by fastforce
    with None show ?thesis by (metis not_None_eq)
  next
    case (Some m)
    then have m: "m \<in> set ms" "accepts m" "key m = k"
      using ins_all_source [of ms s k m] assms(2) by auto
    then obtain m' where m': "entries ?r k = Some m'" "ver m \<le> ver m'"
      using ins_all_max [of m ms' s'] assms(1) by blast
    then have n: "m' \<in> set ms" "accepts m'" "key m' = k"
      using ins_all_source [of ms' s' k m'] assms(1,3) by auto
    then have "ver m' \<le> ver m"
      using ins_all_max [of m' ms s] Some by auto
    with m n m' uniq have "m = m'" by (metis order_antisym)
    with Some m' show ?thesis by simp
  qed
qed

end

end
