(* ===== verification/Routing.thy ===== *)
theory Routing
  imports NodeId NetAddr Contracts
begin

text \<open>
  The routing table (\<^verbatim>\<open>internal/dht/routing.go\<close>): 256 buckets of nodes in least-recently-seen order,
  each with a bounded replacement cache. \<^verbatim>\<open>upsertLRU\<close> takes the table's lock twice, around a ping of
  the oldest node that runs unlocked; the two critical sections are \<open>upsert_locked\<close> and
  \<open>upsert_resume\<close>, composed by \<open>upsertLRU\<close> when nothing else runs in between and by the step
  relation \<open>rt_step\<close> when other upserts do.
\<close>

subsection \<open>Data\<close>

record NodeInfo =
  ni_NodeID :: NodeID
  ni_NodeIDHex :: string
  ni_PeerID :: string
  ni_Addr :: string
  ni_Name :: string
  ni_LastSeen :: gotime

record bucket =
  nodes :: "NodeInfo list"
  repl :: "NodeInfo list"

record RoutingTable =
  rt_self :: NodeID
  rt_k :: nat
  rt_buckets :: "bucket list"
  rt_MaxPerSubnet :: int

definition NewRoutingTable :: "NodeID \<Rightarrow> int \<Rightarrow> RoutingTable" where
  "NewRoutingTable self k =
     \<lparr>rt_self = self, rt_k = nat (if k \<le> 0 then 20 else k),
      rt_buckets = replicate 256 \<lparr>nodes = [], repl = []\<rparr>, rt_MaxPerSubnet = 2\<rparr>"

definition SetDiversityLimit :: "int \<Rightarrow> RoutingTable \<Rightarrow> RoutingTable" where
  "SetDiversityLimit maxPerSubnet rt = rt\<lparr>rt_MaxPerSubnet := maxPerSubnet\<rparr>"

subsection \<open>Upsert\<close>

definition replMax :: nat where "replMax = 10"

definition addReplacement :: "bucket \<Rightarrow> NodeInfo \<Rightarrow> bucket" where
  "addReplacement b ni =
     (if \<exists>r \<in> set (repl b). ni_NodeID r = ni_NodeID ni then b
      else b\<lparr>repl := take replMax (ni # repl b)\<rparr>)"

text \<open>Lines 80 to 88: what a sighting changes in a known entry.\<close>

definition refresh_entry :: "string \<Rightarrow> string \<Rightarrow> string \<Rightarrow> gotime \<Rightarrow> NodeInfo \<Rightarrow> NodeInfo" where
  "refresh_entry peerID addr name now ni =
     ni\<lparr>ni_PeerID := (if peerID \<noteq> [] then peerID else ni_PeerID ni), ni_Addr := addr,
        ni_Name := (if name \<noteq> [] then name else ni_Name ni), ni_LastSeen := now\<rparr>"

text \<open>Lines 110 to 126: the bucket already holds the permitted number of nodes of this network.\<close>

definition subnet_full :: "RoutingTable \<Rightarrow> NodeInfo list \<Rightarrow> string \<Rightarrow> bool" where
  "subnet_full rt ns addr =
     (rt_MaxPerSubnet rt > 0 \<and> subnetKey addr \<noteq> [] \<and>
      int (length (filter (\<lambda>n. subnetKey (ni_Addr n) = subnetKey addr) ns)) \<ge> rt_MaxPerSubnet rt)"

definition set_bucket :: "RoutingTable \<Rightarrow> nat \<Rightarrow> bucket \<Rightarrow> RoutingTable" where
  "set_bucket rt i b = rt\<lparr>rt_buckets := (rt_buckets rt)[i := b]\<rparr>"

text \<open>The first critical section. The second component of the result is the suspended rest of the
  call: bucket index, oldest node to ping, new entry.\<close>

definition upsert_locked ::
  "RoutingTable \<Rightarrow> NodeID \<Rightarrow> string \<Rightarrow> string \<Rightarrow> string \<Rightarrow> gotime \<Rightarrow> bool \<Rightarrow>
     RoutingTable \<times> (nat \<times> NodeInfo \<times> NodeInfo) option" where
  "upsert_locked rt i peerID addr name now has_ping =
     (if i = rt_self rt then (rt, None)
      else
        let bi = BucketIndex (rt_self rt) i
        in if bi < 0 \<or> bi \<ge> 256 then (rt, None)
           else
             let b = rt_buckets rt ! nat bi
             in case List.extract (\<lambda>n. ni_NodeID n = i) (nodes b) of
                  Some (pre, ni, post) \<Rightarrow>
                    (set_bucket rt (nat bi)
                       (b\<lparr>nodes := refresh_entry peerID addr name now ni # (pre @ post)\<rparr>), None)
                | None \<Rightarrow>
                    let ni = \<lparr>ni_NodeID = i, ni_NodeIDHex = Hex i, ni_PeerID = peerID,
                              ni_Addr = addr, ni_Name = name, ni_LastSeen = now\<rparr>
                    in if subnet_full rt (nodes b) (ni_Addr ni) then (rt, None)
                       else if length (nodes b) < rt_k rt then
                         (set_bucket rt (nat bi) (b\<lparr>nodes := ni # nodes b\<rparr>), None)
                       else if \<not> has_ping then (rt, None)
                       else (rt, Some (nat bi, last (nodes b), ni)))"

text \<open>The second critical section, after the ping has returned \<open>alive\<close>.\<close>

definition upsert_resume :: "RoutingTable \<Rightarrow> nat \<times> NodeInfo \<times> NodeInfo \<Rightarrow> bool \<Rightarrow> RoutingTable" where
  "upsert_resume rt susp alive =
     (case susp of (bi, tail, ni) \<Rightarrow>
        let b = rt_buckets rt ! bi
        in if length (nodes b) < rt_k rt then set_bucket rt bi (b\<lparr>nodes := ni # nodes b\<rparr>)
           else
             let curTail = last (nodes b)
             in if alive \<and> ni_NodeID curTail = ni_NodeID tail
                then set_bucket rt bi (addReplacement b ni)
                else set_bucket rt bi (b\<lparr>nodes := ni # butlast (nodes b)\<rparr>))"

definition upsertLRU ::
  "RoutingTable \<Rightarrow> NodeID \<Rightarrow> string \<Rightarrow> string \<Rightarrow> string \<Rightarrow> gotime \<Rightarrow> (NodeInfo \<Rightarrow> bool) option \<Rightarrow>
     RoutingTable" where
  "upsertLRU rt i peerID addr name now ping =
     (case upsert_locked rt i peerID addr name now (ping \<noteq> None) of
        (rt', None) \<Rightarrow> rt'
      | (rt', Some susp) \<Rightarrow>
          upsert_resume rt' susp (case ping of None \<Rightarrow> False | Some p \<Rightarrow> p (fst (snd susp))))"

definition Upsert :: "RoutingTable \<Rightarrow> NodeID \<Rightarrow> string \<Rightarrow> string \<Rightarrow> string \<Rightarrow> gotime \<Rightarrow> RoutingTable" where
  "Upsert rt i peerID addr name now = upsertLRU rt i peerID addr name now None"

definition UpsertWithEviction ::
  "RoutingTable \<Rightarrow> NodeID \<Rightarrow> string \<Rightarrow> string \<Rightarrow> string \<Rightarrow> gotime \<Rightarrow> (NodeInfo \<Rightarrow> bool) \<Rightarrow>
     RoutingTable" where
  "UpsertWithEviction rt i peerID addr name now ping =
     upsertLRU rt i peerID addr name now (Some ping)"

subsection \<open>Closest nodes\<close>

text \<open>The inner loop of \<^verbatim>\<open>SortByDistance\<close>: the element at position \<open>j\<close> moves down by swaps.\<close>

fun sift :: "nat \<Rightarrow> (NodeInfo \<times> NodeID) list \<Rightarrow> (NodeInfo \<times> NodeID) list" where
  "sift 0 tmp = tmp"
| "sift (Suc j) tmp =
     (if DistanceLess (snd (tmp ! Suc j)) (snd (tmp ! j))
      then sift j (tmp[Suc j := tmp ! j, j := tmp ! Suc j])
      else tmp)"

definition SortByDistance :: "NodeInfo list \<Rightarrow> NodeID \<Rightarrow> NodeInfo list" where
  "SortByDistance ns target =
     (let tmp = map (\<lambda>n. (n, Distance (ni_NodeID n) target)) ns
      in map fst (fold sift [1..<length tmp] tmp))"

definition all_nodes :: "RoutingTable \<Rightarrow> NodeInfo list" where
  "all_nodes rt = concat (map nodes (rt_buckets rt))"

definition Closest :: "RoutingTable \<Rightarrow> NodeID \<Rightarrow> int \<Rightarrow> NodeInfo list" where
  "Closest rt target n =
     (let n' = (if n \<le> 0 then rt_k rt else nat n)
      in take n' (SortByDistance (all_nodes rt) target))"

definition Size :: "RoutingTable \<Rightarrow> nat" where
  "Size rt = length (all_nodes rt)"

definition BucketSize :: "RoutingTable \<Rightarrow> int \<Rightarrow> nat" where
  "BucketSize rt i = (if i < 0 \<or> i \<ge> 256 then 0 else length (nodes (rt_buckets rt ! nat i)))"

subsection \<open>The sorting loop is the stable sort by distance\<close>

lemma sift_insert:
  "sift (length ps) (ps @ x # rest) = rev (insert_by (\<lambda>a b. snd b < snd a) x (rev ps)) @ rest"
proof (induction ps arbitrary: rest rule: rev_induct)
  case (snoc y qs)
  show ?case
  proof (cases "snd x < snd y")
    case True
    then have "sift (length (qs @ [y])) ((qs @ [y]) @ x # rest) = sift (length qs) (qs @ x # y # rest)"
      by (simp add: DistanceLess_def nth_append list_update_append)
    with True snoc show ?thesis by simp
  qed (simp add: DistanceLess_def nth_append)
qed simp

lemma fold_sift:
  "n \<le> length tmp \<Longrightarrow> fold sift [1..<n] tmp =
     rev (fold (insert_by (\<lambda>a b. snd b < snd a)) (take n tmp) []) @ drop n tmp"
proof (induction n)
  case (Suc n)
  let ?ins = "fold (insert_by (\<lambda>a b. snd b < snd a))"
  have len: "length (?ins xs ys) = length xs + length ys" for xs ys :: "(NodeInfo \<times> NodeID) list"
    by (induction xs arbitrary: ys) (simp_all add: length_insert_by)
  have n: "n < length tmp" using Suc.prems by simp
  then have d: "drop n tmp = tmp ! n # drop (Suc n) tmp"
    by (simp add: Cons_nth_drop_Suc)
  show ?case
  proof (cases "n = 0")
    case True
    then show ?thesis using n d by (simp add: take_Suc_conv_app_nth)
  next
    case False
    then have "fold sift [1..<Suc n] tmp = sift n (fold sift [1..<n] tmp)" by simp
    also have "\<dots> = sift (length (rev (?ins (take n tmp) [])))
        (rev (?ins (take n tmp) []) @ tmp ! n # drop (Suc n) tmp)"
      using Suc n d by (simp add: len)
    also have "\<dots> = rev (?ins (take (Suc n) tmp) []) @ drop (Suc n) tmp"
      using n by (subst sift_insert) (simp add: take_Suc_conv_app_nth)
    finally show ?thesis .
  qed
qed simp

lemma SortByDistance_sort_key:
  "SortByDistance ns target = sort_key (\<lambda>n. Distance (ni_NodeID n) target) ns"
proof -
  let ?tag = "\<lambda>n. (n, Distance (ni_NodeID n) target)"
  have "fold sift [1..<length (map ?tag ns)] (map ?tag ns) =
      rev (sort_slice (\<lambda>a b. snd b < snd a) (rev (map ?tag ns)))"
    by (simp only: fold_sift order_refl) (simp add: sort_slice_def foldr_conv_fold)
  also have "\<dots> = sort_key snd (map ?tag ns)"
    by (rule sort_slice_rev_key)
  also have "\<dots> = map ?tag (sort_key (\<lambda>n. Distance (ni_NodeID n) target) ns)"
    by (simp add: sort_key_map comp_def)
  finally show ?thesis
    by (simp add: SortByDistance_def comp_def)
qed

subsection \<open>Closest is a closest selection\<close>

lemma Closest_eq:
  "Closest rt target n =
     take (if n \<le> 0 then rt_k rt else nat n)
       (sort_key (\<lambda>ni. Distance (ni_NodeID ni) target) (all_nodes rt))"
  by (simp add: Closest_def SortByDistance_sort_key)

interpretation closest: closest_select "\<lambda>target ni. Distance (ni_NodeID ni) target"
  "\<lambda>target n ns. take n (SortByDistance ns target)"
  by unfold_locales (simp add: SortByDistance_sort_key)

lemma Closest_select:
  "0 < n \<Longrightarrow> Closest rt target n = take (nat n) (SortByDistance (all_nodes rt) target)"
  by (simp add: Closest_def)

subsection \<open>Well-formed tables\<close>

text \<open>An entry belongs to the bucket it is filed in and carries the hex form of its identifier.\<close>

definition entry_ok :: "RoutingTable \<Rightarrow> nat \<Rightarrow> NodeInfo \<Rightarrow> bool" where
  "entry_ok rt i n \<longleftrightarrow> nodeid_ok (ni_NodeID n) \<and> BucketIndex (rt_self rt) (ni_NodeID n) = int i \<and>
     ni_NodeIDHex n = Hex (ni_NodeID n)"

definition bucket_ok :: "RoutingTable \<Rightarrow> nat \<Rightarrow> bucket \<Rightarrow> bool" where
  "bucket_ok rt i b \<longleftrightarrow> length (nodes b) \<le> rt_k rt \<and> length (repl b) \<le> replMax \<and>
     (\<forall>n \<in> set (nodes b) \<union> set (repl b). entry_ok rt i n) \<and> distinct (map ni_NodeID (repl b))"

definition rt_wf :: "RoutingTable \<Rightarrow> bool" where
  "rt_wf rt \<longleftrightarrow> nodeid_ok (rt_self rt) \<and> 0 < rt_k rt \<and> length (rt_buckets rt) = 256 \<and>
     (\<forall>i < 256. bucket_ok rt i (rt_buckets rt ! i))"

definition rt_distinct :: "RoutingTable \<Rightarrow> bool" where
  "rt_distinct rt \<longleftrightarrow> (\<forall>i < length (rt_buckets rt). distinct (map ni_NodeID (nodes (rt_buckets rt ! i))))"

definition rt_inv :: "RoutingTable \<Rightarrow> bool" where
  "rt_inv rt \<longleftrightarrow> rt_wf rt \<and> rt_distinct rt"

definition susp_ok :: "RoutingTable \<Rightarrow> nat \<times> NodeInfo \<times> NodeInfo \<Rightarrow> bool" where
  "susp_ok rt susp \<longleftrightarrow> fst susp < 256 \<and> entry_ok rt (fst susp) (snd (snd susp))"

lemma set_bucket_simps [simp]:
  "rt_self (set_bucket rt i b) = rt_self rt" "rt_k (set_bucket rt i b) = rt_k rt"
  "rt_MaxPerSubnet (set_bucket rt i b) = rt_MaxPerSubnet rt"
  "length (rt_buckets (set_bucket rt i b)) = length (rt_buckets rt)"
  "rt_buckets (set_bucket rt i b) = (rt_buckets rt)[i := b]"
  by (simp_all add: set_bucket_def)

lemma entry_ok_cong:
  "rt_self rt' = rt_self rt \<Longrightarrow> entry_ok rt' i n = entry_ok rt i n"
  by (simp add: entry_ok_def)

lemma rt_wf_set_bucket:
  assumes "rt_wf rt" "i < 256" "bucket_ok rt i b"
  shows "rt_wf (set_bucket rt i b)"
proof -
  have "bucket_ok (set_bucket rt i b) j c = bucket_ok rt j c" for j c
    by (simp add: bucket_ok_def entry_ok_def)
  then show ?thesis
    using assms by (auto simp: rt_wf_def nth_list_update)
qed

lemma rt_distinct_set_bucket:
  "rt_distinct rt \<Longrightarrow> distinct (map ni_NodeID (nodes b)) \<Longrightarrow> rt_distinct (set_bucket rt i b)"
  unfolding rt_distinct_def set_bucket_simps length_list_update
  by (metis nth_list_update_eq nth_list_update_neq)

lemma rt_wf_bucket: "rt_wf rt \<Longrightarrow> i < 256 \<Longrightarrow> bucket_ok rt i (rt_buckets rt ! i)"
  by (simp add: rt_wf_def)

lemma rt_wf_index:
  assumes "rt_wf rt" "nodeid_ok i" "i \<noteq> rt_self rt"
  obtains j where "j < 256" "BucketIndex (rt_self rt) i = int j"
  using assms BucketIndex_range [of "rt_self rt" i] by (auto simp: rt_wf_def)

lemma NewRoutingTable_inv: "nodeid_ok self \<Longrightarrow> rt_inv (NewRoutingTable self k)"
  by (auto simp: rt_inv_def rt_wf_def rt_distinct_def NewRoutingTable_def bucket_ok_def)

lemma addReplacement_ok:
  assumes "bucket_ok rt i b" "entry_ok rt i ni"
  shows "bucket_ok rt i (addReplacement b ni)"
proof (cases "\<exists>r \<in> set (repl b). ni_NodeID r = ni_NodeID ni")
  case True
  with assms show ?thesis by (simp add: addReplacement_def)
next
  case False
  let ?new = "take replMax (ni # repl b)"
  have "set ?new \<subseteq> insert ni (set (repl b))"
    using set_take_subset [of replMax "ni # repl b"] by simp
  moreover have "distinct (map ni_NodeID ?new)"
    using False assms by (intro distinct_map_take) (auto simp: bucket_ok_def)
  ultimately show ?thesis
    using False assms by (auto simp: addReplacement_def bucket_ok_def)
qed

lemma nodes_addReplacement [simp]: "nodes (addReplacement b ni) = nodes b"
  by (simp add: addReplacement_def)

subsection \<open>The two critical sections, branch by branch\<close>

abbreviation new_entry :: "NodeID \<Rightarrow> string \<Rightarrow> string \<Rightarrow> string \<Rightarrow> gotime \<Rightarrow> NodeInfo" where
  "new_entry i peerID addr name now \<equiv>
     \<lparr>ni_NodeID = i, ni_NodeIDHex = Hex i, ni_PeerID = peerID, ni_Addr = addr, ni_Name = name,
      ni_LastSeen = now\<rparr>"

lemma refresh_entry_id [simp]:
  "ni_NodeID (refresh_entry p a n now ni) = ni_NodeID ni"
  "ni_NodeIDHex (refresh_entry p a n now ni) = ni_NodeIDHex ni"
  by (simp_all add: refresh_entry_def)

lemma upsert_locked_self: "upsert_locked rt (rt_self rt) p a n now hp = (rt, None)"
  by (simp add: upsert_locked_def)

lemma upsert_locked_known:
  assumes "i \<noteq> rt_self rt" "BucketIndex (rt_self rt) i = int j" "j < 256"
    and "nodes (rt_buckets rt ! j) = pre @ ni # post" "ni_NodeID ni = i"
    and "\<forall>m \<in> set pre. ni_NodeID m \<noteq> i"
  shows "upsert_locked rt i p a n now hp =
    (set_bucket rt j ((rt_buckets rt ! j)\<lparr>nodes := refresh_entry p a n now ni # (pre @ post)\<rparr>), None)"
proof -
  have "List.extract (\<lambda>m. ni_NodeID m = i) (pre @ ni # post) = Some (pre, ni, post)"
    using assms(5,6) by (auto simp: extract_Some_iff)
  with assms show ?thesis by (simp add: upsert_locked_def)
qed

lemma upsert_locked_unknown:
  assumes "i \<noteq> rt_self rt" "BucketIndex (rt_self rt) i = int j" "j < 256"
    and "\<forall>m \<in> set (nodes (rt_buckets rt ! j)). ni_NodeID m \<noteq> i"
  shows "upsert_locked rt i p a n now hp =
    (let b = rt_buckets rt ! j; ni = new_entry i p a n now
     in if subnet_full rt (nodes b) a then (rt, None)
        else if length (nodes b) < rt_k rt then
          (set_bucket rt j (b\<lparr>nodes := ni # nodes b\<rparr>), None)
        else if \<not> hp then (rt, None)
        else (rt, Some (j, last (nodes b), ni)))"
proof -
  have "List.extract (\<lambda>m. ni_NodeID m = i) (nodes (rt_buckets rt ! j)) = None"
    using assms(4) by (auto simp: extract_None_iff)
  with assms(1-3) show ?thesis by (simp add: upsert_locked_def Let_def)
qed

text \<open>Every call on a well-formed table is one of three: the own identifier, a known node, a new one.\<close>

lemma upsert_cases [consumes 2, case_names Self Known New]:
  assumes "rt_wf rt" "nodeid_ok i"
  obtains "i = rt_self rt"
  | j pre ni post where "i \<noteq> rt_self rt" "BucketIndex (rt_self rt) i = int j" "j < 256"
      "nodes (rt_buckets rt ! j) = pre @ ni # post" "ni_NodeID ni = i"
      "\<forall>m \<in> set pre. ni_NodeID m \<noteq> i"
  | j where "i \<noteq> rt_self rt" "BucketIndex (rt_self rt) i = int j" "j < 256"
      "\<forall>m \<in> set (nodes (rt_buckets rt ! j)). ni_NodeID m \<noteq> i"
proof (cases "i = rt_self rt")
  case False
  with assms obtain j where j: "j < 256" "BucketIndex (rt_self rt) i = int j"
    by (rule rt_wf_index)
  show ?thesis
  proof (cases "\<forall>m \<in> set (nodes (rt_buckets rt ! j)). ni_NodeID m \<noteq> i")
    case True
    with False j show ?thesis using that(3) by blast
  next
    case known: False
    then obtain pre ni post where "nodes (rt_buckets rt ! j) = pre @ ni # post" "ni_NodeID ni = i"
      "\<forall>m \<in> set pre. ni_NodeID m \<noteq> i"
      using split_list_first_prop [of "nodes (rt_buckets rt ! j)" "\<lambda>m. ni_NodeID m = i"] by blast
    with False j show ?thesis by (intro that(2)) auto
  qed
qed (rule that(1))

lemma upsert_locked_wf:
  assumes "rt_wf rt" "nodeid_ok i" "upsert_locked rt i p a n now hp = (rt', susp)"
  shows "rt_wf rt' \<and> rt_self rt' = rt_self rt \<and> rt_k rt' = rt_k rt \<and>
    (\<forall>s. susp = Some s \<longrightarrow> susp_ok rt s)"
  using assms(1,2)
proof (cases rule: upsert_cases)
  case Self
  then show ?thesis using assms by (simp add: upsert_locked_self)
next
  case (Known j pre ni post)
  have "bucket_ok rt j (rt_buckets rt ! j)" using assms(1) Known(3) by (rule rt_wf_bucket)
  then have "bucket_ok rt j ((rt_buckets rt ! j)\<lparr>nodes := refresh_entry p a n now ni # (pre @ post)\<rparr>)"
    using Known(4) by (auto simp: bucket_ok_def entry_ok_def)
  then show ?thesis
    using assms upsert_locked_known [OF Known] Known(3) rt_wf_set_bucket by auto
next
  case (New j)
  have b: "bucket_ok rt j (rt_buckets rt ! j)" using assms(1) New(3) by (rule rt_wf_bucket)
  have e: "entry_ok rt j (new_entry i p a n now)"
    using assms(2) New(2) by (simp add: entry_ok_def)
  have "bucket_ok rt j ((rt_buckets rt ! j)\<lparr>nodes := new_entry i p a n now # nodes (rt_buckets rt ! j)\<rparr>)"
    if "length (nodes (rt_buckets rt ! j)) < rt_k rt"
    using b e that by (auto simp: bucket_ok_def)
  with e show ?thesis
    using assms New(3) upsert_locked_unknown [OF New, of p a n now hp] rt_wf_set_bucket
    by (auto simp: Let_def susp_ok_def split: if_splits)
qed

lemma upsert_resume_wf:
  assumes "rt_wf rt" "susp_ok rt susp"
  shows "rt_wf (upsert_resume rt susp alive)"
proof -
  obtain j tl ni where susp: "susp = (j, tl, ni)" by (cases susp)
  let ?b = "rt_buckets rt ! j"
  have j: "j < 256" "entry_ok rt j ni" using assms(2) susp by (simp_all add: susp_ok_def)
  then have b: "bucket_ok rt j ?b" using assms(1) rt_wf_bucket by blast
  have "bucket_ok rt j (?b\<lparr>nodes := ni # nodes ?b\<rparr>)" if "length (nodes ?b) < rt_k rt"
    using b j that by (auto simp: bucket_ok_def)
  moreover have "bucket_ok rt j (?b\<lparr>nodes := ni # butlast (nodes ?b)\<rparr>)"
    using b j assms(1) by (auto simp: bucket_ok_def rt_wf_def dest: in_set_butlastD)
  ultimately show ?thesis
    using assms(1) b j susp
    by (auto simp: upsert_resume_def Let_def intro!: rt_wf_set_bucket addReplacement_ok)
qed

lemma upsert_resume_frame [simp]:
  "rt_self (upsert_resume rt susp alive) = rt_self rt"
  "rt_k (upsert_resume rt susp alive) = rt_k rt"
  "rt_MaxPerSubnet (upsert_resume rt susp alive) = rt_MaxPerSubnet rt"
  "length (rt_buckets (upsert_resume rt susp alive)) = length (rt_buckets rt)"
  by (simp_all add: upsert_resume_def Let_def split: prod.splits)

lemma upsert_locked_frame:
  "rt_self (fst (upsert_locked rt i p a n now hp)) = rt_self rt"
  "rt_k (fst (upsert_locked rt i p a n now hp)) = rt_k rt"
  by (simp_all add: upsert_locked_def Let_def split: option.splits)

lemma upsertLRU_frame [simp]:
  "rt_self (upsertLRU rt i p a n now ping) = rt_self rt"
  "rt_k (upsertLRU rt i p a n now ping) = rt_k rt"
  using upsert_locked_frame [of rt i p a n now "ping \<noteq> None"]
  by (auto simp: upsertLRU_def split: prod.splits option.splits)

text \<open>When a call suspends, the table is unchanged, the bucket is full and the newcomer is not in it.\<close>

lemma upsert_locked_suspends:
  assumes "rt_wf rt" "nodeid_ok i" "upsert_locked rt i p a n now hp = (rt', Some (j, tail, ni))"
  shows "rt' = rt \<and> j < 256 \<and> BucketIndex (rt_self rt) i = int j \<and> ni = new_entry i p a n now \<and>
    tail = last (nodes (rt_buckets rt ! j)) \<and> length (nodes (rt_buckets rt ! j)) = rt_k rt \<and>
    (\<forall>m \<in> set (nodes (rt_buckets rt ! j)). ni_NodeID m \<noteq> i)"
  using assms(1,2)
proof (cases rule: upsert_cases)
  case (New k)
  moreover have "length (nodes (rt_buckets rt ! k)) \<le> rt_k rt"
    using rt_wf_bucket [OF assms(1) New(3)] by (simp add: bucket_ok_def)
  ultimately show ?thesis
    using assms upsert_locked_unknown [OF New, of p a n now hp] by (auto simp: Let_def split: if_splits)
qed (use assms upsert_locked_self upsert_locked_known in fastforce)+

lemma upsert_locked_distinct:
  assumes "rt_inv rt" "nodeid_ok i" "upsert_locked rt i p a n now hp = (rt', susp)"
  shows "rt_distinct rt'"
proof -
  have wf: "rt_wf rt" and d: "rt_distinct rt" using assms(1) by (simp_all add: rt_inv_def)
  have db: "distinct (map ni_NodeID (nodes (rt_buckets rt ! j)))" if "j < 256" for j
    using wf d that by (simp add: rt_distinct_def rt_wf_def)
  from wf assms(2) show ?thesis
  proof (cases rule: upsert_cases)
    case Self
    then show ?thesis using assms(3) d by (simp add: upsert_locked_self)
  next
    case (Known j pre ni post)
    have "distinct (map ni_NodeID (refresh_entry p a n now ni # (pre @ post)))"
      using db [OF Known(3)] Known(4,5) by auto
    then show ?thesis
      using assms(3) upsert_locked_known [OF Known, of p a n now hp] d rt_distinct_set_bucket by auto
  next
    case (New j)
    then have "distinct (map ni_NodeID (new_entry i p a n now # nodes (rt_buckets rt ! j)))"
      using db [OF New(3)] by auto
    then show ?thesis
      using assms(3) upsert_locked_unknown [OF New, of p a n now hp] d rt_distinct_set_bucket
      by (auto simp: Let_def split: if_splits)
  qed
qed

lemma upsert_resume_distinct:
  assumes "rt_distinct rt" "j < length (rt_buckets rt)"
    and new: "ni_NodeID ni \<notin> ni_NodeID ` set (nodes (rt_buckets rt ! j))"
  shows "rt_distinct (upsert_resume rt (j, tail, ni) alive)"
proof -
  let ?ns = "nodes (rt_buckets rt ! j)"
  have "distinct (map ni_NodeID (ni # ?ns))"
    using assms by (simp add: rt_distinct_def)
  moreover from this have "distinct (map ni_NodeID (ni # butlast ?ns))"
    by (auto simp: map_butlast distinct_butlast dest!: in_set_butlastD)
  ultimately show ?thesis
    using assms(1)
    by (auto simp: upsert_resume_def Let_def intro!: rt_distinct_set_bucket)
qed

lemma upsertLRU_inv [inv_intros]:
  assumes "rt_inv rt" "nodeid_ok i"
  shows "rt_inv (upsertLRU rt i p a n now ping)"
proof -
  obtain rt' susp where u: "upsert_locked rt i p a n now (ping \<noteq> None) = (rt', susp)"
    by (cases "upsert_locked rt i p a n now (ping \<noteq> None)")
  have wf: "rt_wf rt" using assms by (simp add: rt_inv_def)
  note w = upsert_locked_wf [OF wf assms(2) u]
  have d: "rt_distinct rt'" by (rule upsert_locked_distinct [OF assms u])
  show ?thesis
  proof (cases susp)
    case None
    with u w d show ?thesis by (simp add: upsertLRU_def rt_inv_def)
  next
    case (Some s)
    obtain j tl ni where s: "s = (j, tl, ni)" by (cases s)
    from upsert_locked_suspends [OF wf assms(2) u [unfolded Some s]]
    have *: "rt' = rt" "j < 256" "ni_NodeID ni \<notin> ni_NodeID ` set (nodes (rt_buckets rt ! j))"
      by auto
    have "susp_ok rt s" using w Some by blast
    then show ?thesis
      using u Some s * wf d upsert_resume_wf [of rt s] upsert_resume_distinct [of rt j ni tl]
      by (simp add: upsertLRU_def rt_inv_def rt_wf_def)
  qed
qed

lemma rt_inv_distinct_all:
  assumes "rt_inv rt"
  shows "distinct (map ni_NodeID (all_nodes rt))"
proof -
  let ?ids = "map (\<lambda>b. map ni_NodeID (nodes b)) (rt_buckets rt)"
  have wf: "rt_wf rt" "length (rt_buckets rt) = 256" and d: "rt_distinct rt"
    using assms by (simp_all add: rt_inv_def rt_wf_def)
  have idx: "BucketIndex (rt_self rt) x = int i" if "i < 256" "x \<in> set (?ids ! i)" for x i
    using rt_wf_bucket [OF wf(1) that(1)] that wf(2) by (auto simp: bucket_ok_def entry_ok_def)
  have "distinct (concat ?ids)"
  proof (rule distinct_concat_nth)
    show "distinct (?ids ! i)" if "i < length ?ids" for i
      using d that by (simp add: rt_distinct_def)
    show "set (?ids ! i) \<inter> set (?ids ! j) = {}" if "i < j" "j < length ?ids" for i j
      using idx [of i] idx [of j] that wf(2) by fastforce
  qed
  then show ?thesis by (simp add: all_nodes_def map_concat comp_def)
qed

lemma all_nodes_member:
  "n \<in> set (all_nodes rt) \<longleftrightarrow> (\<exists>i < length (rt_buckets rt). n \<in> set (nodes (rt_buckets rt ! i)))"
  by (auto simp: all_nodes_def in_set_conv_nth) (metis nth_mem in_set_conv_nth)+

lemma rt_wf_all_nodes:
  assumes "rt_wf rt" "n \<in> set (all_nodes rt)"
  shows "\<exists>i < 256. entry_ok rt i n"
proof -
  obtain i where "i < 256" "n \<in> set (nodes (rt_buckets rt ! i))"
    using assms by (auto simp: all_nodes_member rt_wf_def)
  then show ?thesis
    using rt_wf_bucket [OF assms(1)] by (auto simp: bucket_ok_def)
qed

lemma rt_wf_size: "rt_wf rt \<Longrightarrow> Size rt \<le> 256 * rt_k rt"
proof -
  assume wf: "rt_wf rt"
  have "length (nodes b) \<le> rt_k rt" if "b \<in> set (rt_buckets rt)" for b
    using wf that by (auto simp: rt_wf_def in_set_conv_nth bucket_ok_def)
  then have "sum_list (map (\<lambda>b. length (nodes b)) (rt_buckets rt)) \<le>
      sum_list (map (\<lambda>b. rt_k rt) (rt_buckets rt))"
    by (intro sum_list_mono) auto
  then show ?thesis
    using wf by (simp add: Size_def all_nodes_def length_concat comp_def rt_wf_def
        sum_list_triv)
qed

subsection \<open>Concurrent upserts\<close>

text \<open>Any number of goroutines call \<^verbatim>\<open>upsertLRU\<close>; each critical section is atomic, the pings run
  unlocked. A state is the table with the suspended calls.\<close>

type_synonym suspended = "nat \<times> NodeInfo \<times> NodeInfo"

inductive rt_step ::
  "RoutingTable \<times> suspended multiset \<Rightarrow> RoutingTable \<times> suspended multiset \<Rightarrow> bool" where
  section_done: "nodeid_ok i \<Longrightarrow> upsert_locked rt i p a n now hp = (rt', None) \<Longrightarrow>
     rt_step (rt, S) (rt', S)"
| section_ping: "nodeid_ok i \<Longrightarrow> upsert_locked rt i p a n now hp = (rt', Some s) \<Longrightarrow>
     rt_step (rt, S) (rt', add_mset s S)"
| resume: "s \<in># S \<Longrightarrow> rt_step (rt, S) (upsert_resume rt s alive, S - {#s#})"
| set_limit: "rt_step (rt, S) (SetDiversityLimit m rt, S)"

inductive rt_reach ::
  "NodeID \<Rightarrow> int \<Rightarrow> RoutingTable \<times> suspended multiset \<Rightarrow> bool" for self k where
  init: "rt_reach self k (NewRoutingTable self k, {#})"
| step: "rt_reach self k st \<Longrightarrow> rt_step st st' \<Longrightarrow> rt_reach self k st'"

inductive_cases rt_step_E [elim!]: "rt_step (rt, S) st'"

definition conc_inv :: "RoutingTable \<times> suspended multiset \<Rightarrow> bool" where
  "conc_inv st \<longleftrightarrow> rt_wf (fst st) \<and> (\<forall>s \<in># snd st. susp_ok (fst st) s)"

lemma susp_ok_cong: "rt_self rt' = rt_self rt \<Longrightarrow> susp_ok rt' s = susp_ok rt s"
  by (simp add: susp_ok_def entry_ok_def)

lemma SetDiversityLimit_wf [simp]: "rt_wf (SetDiversityLimit m rt) = rt_wf rt"
  by (simp add: rt_wf_def bucket_ok_def entry_ok_def SetDiversityLimit_def)

lemma rt_step_inv: "rt_step st st' \<Longrightarrow> conc_inv st \<Longrightarrow> conc_inv st'"
proof (induction rule: rt_step.induct)
  case (section_done i rt p a n now hp rt' S)
  then have "rt_wf rt' \<and> rt_self rt' = rt_self rt"
    using upsert_locked_wf [of rt i p a n now hp rt' None] by (simp add: conc_inv_def)
  with section_done show ?case by (simp add: conc_inv_def susp_ok_cong [of rt' rt])
next
  case (section_ping i rt p a n now hp rt' s S)
  then have "rt_wf rt' \<and> rt_self rt' = rt_self rt \<and> susp_ok rt s"
    using upsert_locked_wf [of rt i p a n now hp rt' "Some s"] by (simp add: conc_inv_def)
  with section_ping show ?case by (simp add: conc_inv_def susp_ok_cong [of rt' rt])
next
  case (resume s S rt alive)
  then show ?case
    using upsert_resume_wf [of rt s alive] susp_ok_cong [of "upsert_resume rt s alive" rt]
    by (auto simp: conc_inv_def dest: in_diffD)
next
  case (set_limit rt S m)
  have "susp_ok (SetDiversityLimit m rt) s = susp_ok rt s" for s
    by (rule susp_ok_cong) (simp add: SetDiversityLimit_def)
  with set_limit show ?case by (simp add: conc_inv_def)
qed

lemma rt_reach_inv: "rt_reach self k st \<Longrightarrow> nodeid_ok self \<Longrightarrow> conc_inv st"
proof (induction rule: rt_reach.induct)
  case init
  then show ?case using NewRoutingTable_inv [of self k] by (simp add: conc_inv_def rt_inv_def)
next
  case (step st st')
  then show ?case using rt_step_inv by blast
qed

subsection \<open>What an upsert does to the table\<close>

lemma upsertLRU_known:
  assumes "rt_inv rt" "nodeid_ok i" "i \<noteq> rt_self rt" "BucketIndex (rt_self rt) i = int j"
    and m: "m \<in> set (nodes (rt_buckets rt ! j))" "ni_NodeID m = i"
  shows "upsertLRU rt i p a n now ping = set_bucket rt j ((rt_buckets rt ! j)
    \<lparr>nodes := refresh_entry p a n now m # filter (\<lambda>x. ni_NodeID x \<noteq> i) (nodes (rt_buckets rt ! j))\<rparr>)"
proof -
  have wf: "rt_wf rt" and d: "rt_distinct rt" using assms(1) by (simp_all add: rt_inv_def)
  from wf assms(2) show ?thesis
  proof (cases rule: upsert_cases)
    case (Known j' pre ni post)
    have [simp]: "j' = j" using Known(2) assms(4) by simp
    have "distinct (map ni_NodeID (pre @ ni # post))"
      using d wf Known(3,4) by (simp add: rt_distinct_def rt_wf_def flip: Known(4))
    moreover from this have "i \<notin> ni_NodeID ` (set pre \<union> set post)"
      using Known(5) by auto
    then have "filter (\<lambda>x. ni_NodeID x \<noteq> i) pre = pre" "filter (\<lambda>x. ni_NodeID x \<noteq> i) post = post"
      by (auto intro: filter_True)
    ultimately have "m = ni" "filter (\<lambda>x. ni_NodeID x \<noteq> i) (pre @ ni # post) = pre @ post"
      using m Known(4,5) by auto
    then show ?thesis
      using upsert_locked_known [OF Known] Known(4) by (simp add: upsertLRU_def)
  qed (use assms in auto)
qed

lemma upsertLRU_new:
  assumes "rt_wf rt" "nodeid_ok i" "i \<noteq> rt_self rt" "BucketIndex (rt_self rt) i = int j"
    and m: "\<forall>m \<in> set (nodes (rt_buckets rt ! j)). ni_NodeID m \<noteq> i"
  shows "upsertLRU rt i p a n now ping =
    (let b = rt_buckets rt ! j; ns = nodes b; ni = new_entry i p a n now
     in if subnet_full rt ns a then rt
        else if length ns < rt_k rt then set_bucket rt j (b\<lparr>nodes := ni # ns\<rparr>)
        else case ping of
               None \<Rightarrow> rt
             | Some f \<Rightarrow> if f (last ns) then set_bucket rt j (addReplacement b ni)
                         else set_bucket rt j (b\<lparr>nodes := ni # butlast ns\<rparr>))"
proof -
  have "j < 256" using assms(1-4) rt_wf_index by (metis of_nat_eq_iff)
  from upsert_locked_unknown [OF assms(3,4) this m] show ?thesis
    by (simp add: upsertLRU_def upsert_resume_def Let_def split: option.splits)
qed

lemma all_nodes_set_bucket:
  assumes "m \<in> set (all_nodes (set_bucket rt j b))" "j < length (rt_buckets rt)"
  shows "m \<in> set (nodes b) \<or> m \<in> set (all_nodes rt)"
  using assms by (auto simp: all_nodes_member nth_list_update split: if_splits)

text \<open>Where the entries of the table after an upsert come from.\<close>

lemma upsertLRU_entries:
  assumes inv: "rt_inv rt" "nodeid_ok i" and m: "m \<in> set (all_nodes (upsertLRU rt i p a n now ping))"
  shows "m \<in> set (all_nodes rt) \<or> m = new_entry i p a n now \<or>
    (\<exists>m0 \<in> set (all_nodes rt). ni_NodeID m0 = i \<and> m = refresh_entry p a n now m0)"
proof (cases "i = rt_self rt")
  case True
  then show ?thesis using m by (simp add: upsertLRU_def upsert_locked_self)
next
  case False
  have wf: "rt_wf rt" using inv by (simp add: rt_inv_def)
  obtain j where j: "j < 256" "BucketIndex (rt_self rt) i = int j"
    using rt_wf_index [OF wf inv(2) False] .
  let ?ns = "nodes (rt_buckets rt ! j)"
  have len: "j < length (rt_buckets rt)" using wf j by (simp add: rt_wf_def)
  then have sub: "x \<in> set ?ns \<Longrightarrow> x \<in> set (all_nodes rt)" for x
    by (auto simp: all_nodes_member)
  show ?thesis
  proof (cases "\<exists>m0 \<in> set ?ns. ni_NodeID m0 = i")
    case True
    then obtain m0 where m0: "m0 \<in> set ?ns" "ni_NodeID m0 = i" by blast
    from all_nodes_set_bucket [OF m [unfolded upsertLRU_known [OF inv False j(2) m0]] len] show ?thesis
      using m0 sub by auto
  next
    case unknown: False
    then have unknown': "\<forall>m0 \<in> set ?ns. ni_NodeID m0 \<noteq> i" by blast
    have sb: "x \<in> set (all_nodes rt) \<or> x = new_entry i p a n now"
      if "x \<in> set (all_nodes (set_bucket rt j b))" "set (nodes b) \<subseteq> insert (new_entry i p a n now) (set ?ns)" for x b
      using all_nodes_set_bucket [OF that(1) len] that(2) sub by blast
    show ?thesis
      using m unfolding upsertLRU_new [OF wf inv(2) False j(2) unknown'] Let_def
      by (auto split: if_splits option.splits dest!: sb dest: in_set_butlastD)
  qed
qed

text \<open>An entry is authentic if its node identifier is the hash of the peer's key.\<close>

definition rt_authentic :: "crypto \<Rightarrow> RoutingTable \<Rightarrow> bool" where
  "rt_authentic cr rt \<longleftrightarrow>
     (\<forall>ni \<in> set (all_nodes rt). NodeIDFromPeerID cr (ni_PeerID ni) = Inr (ni_NodeID ni))"

lemma NodeIDFromPeerID_Nil [simp]: "NodeIDFromPeerID cr [] = Inl ErrBadPeerID"
  by (simp add: NodeIDFromPeerID_def)

lemma upsertLRU_authentic [inv_intros]:
  assumes "rt_authentic cr rt" "rt_inv rt" "nodeid_ok i" "NodeIDFromPeerID cr p = Inr i"
  shows "rt_authentic cr (upsertLRU rt i p a n now ping)"
proof -
  have "p \<noteq> []" using assms(4) by auto
  then show ?thesis
    using assms upsertLRU_entries [OF assms(2,3), of _ p a n now ping]
    by (fastforce simp: rt_authentic_def refresh_entry_def)
qed

lemma NewRoutingTable_authentic: "rt_authentic cr (NewRoutingTable self k)"
  by (simp add: rt_authentic_def all_nodes_def NewRoutingTable_def)

lemma addReplacement_member:
  "ni_NodeID ni \<in> ni_NodeID ` set (repl (addReplacement b ni))"
  by (auto simp: addReplacement_def replMax_def) (metis imageI)

definition subnet_count :: "NodeInfo list \<Rightarrow> string \<Rightarrow> nat" where
  "subnet_count ns sk = length (filter (\<lambda>n. subnetKey (ni_Addr n) = sk) ns)"

definition diverse :: "RoutingTable \<Rightarrow> bool" where
  "diverse rt \<longleftrightarrow> (\<forall>j < 256. \<forall>sk. int (subnet_count (nodes (rt_buckets rt ! j)) sk) \<le> rt_MaxPerSubnet rt)"

lemma subnet_full_iff:
  "0 < rt_MaxPerSubnet rt \<Longrightarrow>
     subnet_full rt ns a \<longleftrightarrow> rt_MaxPerSubnet rt \<le> int (subnet_count ns (subnetKey a))"
  by (simp add: subnet_full_def subnet_count_def)

lemma subnet_count_Cons:
  "subnet_count (n # ns) sk = (if subnetKey (ni_Addr n) = sk then 1 else 0) + subnet_count ns sk"
  by (simp add: subnet_count_def)

lemma subnet_count_butlast: "subnet_count (butlast ns) sk \<le> subnet_count ns sk"
proof (cases ns rule: rev_cases)
  case (snoc ys y)
  then show ?thesis by (simp add: subnet_count_def)
qed simp

lemma diverse_set_bucket:
  assumes "diverse rt" "length (rt_buckets rt) = 256"
    and "\<And>sk. int (subnet_count (nodes b) sk) \<le> rt_MaxPerSubnet rt"
  shows "diverse (set_bucket rt j b)"
  unfolding diverse_def set_bucket_simps
proof (intro allI impI)
  fix l sk assume "l < (256 :: nat)"
  then show "int (subnet_count (nodes ((rt_buckets rt)[j := b] ! l)) sk) \<le> rt_MaxPerSubnet rt"
    using assms by (cases "l = j") (auto simp: diverse_def)
qed

lemma upsertLRU_diverse:
  assumes "rt_wf rt" "diverse rt" "0 < rt_MaxPerSubnet rt" "nodeid_ok i"
    and new: "\<forall>m \<in> set (all_nodes rt). ni_NodeID m \<noteq> i"
  shows "diverse (upsertLRU rt i p a n now ping)"
proof (cases "i = rt_self rt")
  case True
  then show ?thesis using assms(2) by (simp add: upsertLRU_def upsert_locked_self)
next
  case False
  then obtain j where j: "j < 256" "BucketIndex (rt_self rt) i = int j"
    using assms(1,4) rt_wf_index by metis
  let ?ns = "nodes (rt_buckets rt ! j)"
  have len: "length (rt_buckets rt) = 256" using assms(1) by (simp add: rt_wf_def)
  then have m: "\<forall>m \<in> set ?ns. ni_NodeID m \<noteq> i"
    using new j by (auto simp: all_nodes_member)
  have le: "int (subnet_count ?ns sk) \<le> rt_MaxPerSubnet rt" for sk
    using assms(2) j by (simp add: diverse_def)
  have ins: "int (subnet_count (new_entry i p a n now # xs) sk) \<le> rt_MaxPerSubnet rt"
    if "\<not> subnet_full rt ?ns a" "\<And>sk. subnet_count xs sk \<le> subnet_count ?ns sk" for xs sk
    using that(1) that(2) [of sk] le [of sk] assms(3)
    by (auto simp: subnet_full_iff subnet_count_Cons)
  show ?thesis
    unfolding upsertLRU_new [OF assms(1,4) False j(2) m]
    using assms(2) len le ins [of ?ns] ins [of "butlast ?ns"] subnet_count_butlast [of ?ns]
    by (auto simp: Let_def split: option.splits intro!: diverse_set_bucket)
qed

subsection \<open>Sample identifiers for witnesses\<close>

definition sample_id :: "byte \<Rightarrow> NodeID" where
  "sample_id x = x # replicate 31 0"

definition sample_node :: "byte \<Rightarrow> string \<Rightarrow> NodeInfo" where
  "sample_node x addr = new_entry (sample_id x) ''p'' addr ''n'' 5"

lemma sample_id_ok [simp]: "nodeid_ok (sample_id x)"
  by (simp add: sample_id_def nodeid_ok_length)

lemma sample_id_inject [simp]: "sample_id x = sample_id y \<longleftrightarrow> x = y"
  by (simp add: sample_id_def)

lemma sample_id_bucket: "x \<noteq> 0 \<Longrightarrow> bit_scan x = Some b \<Longrightarrow> BucketIndex (sample_id 0) (sample_id x) = int b"
  by (simp add: sample_id_def BucketIndex_def)

lemma bit_scan_samples: "bit_scan 128 = Some 0" "bit_scan 129 = Some 0" "bit_scan 130 = Some 0"
  by code_simp+

lemma sample_buckets [simp]:
  "BucketIndex (sample_id 0) (sample_id 128) = 0" "BucketIndex (sample_id 0) (sample_id 129) = 0"
  "BucketIndex (sample_id 0) (sample_id 130) = 0"
  by (simp_all add: sample_id_bucket bit_scan_samples)

lemma sample_subnets [simp]:
  "subnetKey ''10.0.0.1:4000'' = ''v4:10.0.0.0/24''" "subnetKey ''10.0.1.1:4000'' = ''v4:10.0.1.0/24''"
  "subnetKey ''10.0.2.1:4000'' = ''v4:10.0.2.0/24''"
  by code_simp+

abbreviation sample_a :: NodeInfo where "sample_a \<equiv> sample_node 128 ''10.0.0.1:4000''"
abbreviation sample_b :: NodeInfo where "sample_b \<equiv> sample_node 129 ''10.0.1.1:4000''"
abbreviation sample_c :: NodeInfo where "sample_c \<equiv> sample_node 130 ''10.0.2.1:4000''"

text \<open>A table of capacity 2 whose first bucket holds the given nodes.\<close>

definition sample_table :: "NodeInfo list \<Rightarrow> RoutingTable" where
  "sample_table ns = set_bucket (NewRoutingTable (sample_id 0) 2) 0 \<lparr>nodes = ns, repl = []\<rparr>"

lemma sample_table_simps [simp]:
  "rt_self (sample_table ns) = sample_id 0" "rt_k (sample_table ns) = 2"
  "rt_MaxPerSubnet (sample_table ns) = 2" "length (rt_buckets (sample_table ns)) = 256"
  "rt_buckets (sample_table ns) ! 0 = \<lparr>nodes = ns, repl = []\<rparr>"
  by (simp_all add: sample_table_def NewRoutingTable_def)

lemma sample_table_Nil: "sample_table [] = NewRoutingTable (sample_id 0) 2"
  by (simp add: sample_table_def NewRoutingTable_def set_bucket_def list_update_same_conv)

lemma set_bucket_sample [simp]:
  "set_bucket (sample_table ns) 0 \<lparr>nodes = ms, repl = []\<rparr> = sample_table ms"
  by (simp add: sample_table_def set_bucket_def)

lemma sample_node_id [simp]:
  "ni_NodeID (sample_node x addr) = sample_id x" "ni_Addr (sample_node x addr) = addr"
  by (simp_all add: sample_node_def)

lemma sample_add_a: "upsert_locked (sample_table []) (sample_id 128) ''p'' ''10.0.0.1:4000'' ''n'' 5 True =
    (sample_table [sample_a], None)"
  by (simp add: upsert_locked_def subnet_full_def Let_def sample_node_def List.extract_Nil_code)

lemma sample_add_b: "upsert_locked (sample_table [sample_a]) (sample_id 129) ''p'' ''10.0.1.1:4000'' ''n'' 5 True =
    (sample_table [sample_b, sample_a], None)"
  by (simp add: upsert_locked_def subnet_full_def Let_def extract_Nil_code extract_Cons_code)
    (simp add: sample_node_def)

lemma sample_add_c: "upsert_locked (sample_table [sample_b, sample_a]) (sample_id 130) ''p''
    ''10.0.2.1:4000'' ''n'' 5 True = (sample_table [sample_b, sample_a], Some (0, sample_a, sample_c))"
  by (simp add: upsert_locked_def subnet_full_def Let_def extract_Nil_code extract_Cons_code)
    (simp add: sample_node_def)

lemma sample_evict:
  "upsert_resume (sample_table [n, m]) (0, sample_a, sample_c) False = sample_table [sample_c, n]"
  by (simp add: upsert_resume_def)

lemma sample_full_reach: "rt_reach (sample_id 0) 2 (sample_table [sample_b, sample_a], {#})"
proof -
  have "rt_reach (sample_id 0) 2 (sample_table [], {#})"
    unfolding sample_table_Nil by (rule rt_reach.init)
  then have "rt_reach (sample_id 0) 2 (sample_table [sample_a], {#})"
    by (rule rt_reach.step) (rule rt_step.section_done [OF sample_id_ok sample_add_a])
  then show ?thesis
    by (rule rt_reach.step) (rule rt_step.section_done [OF sample_id_ok sample_add_b])
qed

lemma sample_full_inv: "rt_inv (sample_table [sample_b, sample_a])"
proof -
  have "rt_inv (sample_table [])"
    unfolding sample_table_Nil by (rule NewRoutingTable_inv) simp
  then have "rt_inv (upsertLRU (upsertLRU (sample_table []) (sample_id 128) ''p'' ''10.0.0.1:4000'' ''n''
      5 (Some (\<lambda>_. True))) (sample_id 129) ''p'' ''10.0.1.1:4000'' ''n'' 5 (Some (\<lambda>_. True)))"
    by (intro inv_intros) simp_all
  then show ?thesis by (simp add: upsertLRU_def sample_add_a sample_add_b)
qed

subsection \<open>Properties\<close>

text \<open>C16: starting from a fresh table, any sequence of upserts (with or without a ping function, of any
  node and address) leaves every bucket within its capacity, free of duplicates, filed by bucket
  index and with a replacement cache of at most ten nodes.\<close>

theorem upsert_keeps_table_invariant:
  assumes "nodeid_ok self" and "\<forall>(i, _) \<in> set ops. nodeid_ok i"
  shows "rt_inv (foldl (\<lambda>rt (i, p, a, n, now, ping). upsertLRU rt i p a n now ping)
           (NewRoutingTable self k) ops)"
proof -
  have "rt_inv (foldl (\<lambda>rt (i, p, a, n, now, ping). upsertLRU rt i p a n now ping) rt ops)"
    if "rt_inv rt" for rt
    using that assms(2) by (induction ops arbitrary: rt) (auto intro: inv_intros)
  then show ?thesis using NewRoutingTable_inv [OF assms(1)] by blast
qed

theorem upsert_keeps_table_invariant_witness:
  "rt_inv (upsertLRU (NewRoutingTable (sample_id 0) 2) (sample_id 130) ''p'' ''10.0.2.1:4000'' ''n'' 5 None)"
  using upsert_keeps_table_invariant [of "sample_id 0"
      "[(sample_id 130, ''p'', ''10.0.2.1:4000'', ''n'', 5, None)]" 2] by simp

text \<open>C24: what one upsert does to the bucket of its node, on every branch: a known node moves to the
  front with its new address; a node of an over-represented network is dropped; with room it is
  inserted in front; in a full bucket it is dropped when no ping is given, replaces the oldest node
  when the oldest does not answer, and otherwise only enters the replacement cache. No other
  bucket changes.\<close>

theorem upsert_lru_policy:
  assumes "rt_inv rt" "nodeid_ok i" "i \<noteq> rt_self rt" "BucketIndex (rt_self rt) i = int j"
  shows "let ns = nodes (rt_buckets rt ! j); rt' = upsertLRU rt i p a n now ping;
             ns' = nodes (rt_buckets rt' ! j); ni = new_entry i p a n now
     in (\<forall>m \<in> set ns. ni_NodeID m = i \<longrightarrow>
           ns' = refresh_entry p a n now m # filter (\<lambda>x. ni_NodeID x \<noteq> i) ns) \<and>
        (i \<notin> ni_NodeID ` set ns \<longrightarrow>
           ns' = (if subnet_full rt ns a then ns
                  else if length ns < rt_k rt then ni # ns
                  else case ping of
                         None \<Rightarrow> ns
                       | Some alive \<Rightarrow> if alive (last ns) then ns else ni # butlast ns)) \<and>
        (\<forall>alive. i \<notin> ni_NodeID ` set ns \<and> \<not> subnet_full rt ns a \<and> length ns = rt_k rt \<and>
           ping = Some alive \<and> alive (last ns) \<longrightarrow>
           i \<in> ni_NodeID ` set (repl (rt_buckets rt' ! j))) \<and>
        (\<forall>l < 256. l \<noteq> j \<longrightarrow> rt_buckets rt' ! l = rt_buckets rt ! l)"
proof (cases "i \<in> ni_NodeID ` set (nodes (rt_buckets rt ! j))")
  case True
  have wf: "rt_wf rt" using assms(1) by (simp add: rt_inv_def)
  then have j: "j < length (rt_buckets rt)"
    using assms rt_wf_index [of rt i] by (metis of_nat_eq_iff rt_wf_def)
  have "upsertLRU rt i p a n now ping = set_bucket rt j ((rt_buckets rt ! j)
    \<lparr>nodes := refresh_entry p a n now m # filter (\<lambda>x. ni_NodeID x \<noteq> i) (nodes (rt_buckets rt ! j))\<rparr>)"
    if "m \<in> set (nodes (rt_buckets rt ! j))" "ni_NodeID m = i" for m
    using upsertLRU_known [OF assms] that by blast
  with True j show ?thesis by (auto simp: Let_def)
next
  case False
  have wf: "rt_wf rt" using assms(1) by (simp add: rt_inv_def)
  then have j: "j < length (rt_buckets rt)"
    using assms rt_wf_index [of rt i] by (metis of_nat_eq_iff rt_wf_def)
  have m: "\<forall>m \<in> set (nodes (rt_buckets rt ! j)). ni_NodeID m \<noteq> i" using False by auto
  note up = upsertLRU_new [OF wf assms(2-4) m, of p a n now, unfolded Let_def]
  show ?thesis
    unfolding Let_def
  proof (intro conjI)
    show "\<forall>m \<in> set (nodes (rt_buckets rt ! j)). ni_NodeID m = i \<longrightarrow> P m" for P using m by blast
  qed (use False j addReplacement_member [of "new_entry i p a n now" "rt_buckets rt ! j"]
    in \<open>simp_all add: up split: option.splits\<close>)
qed

theorem upsert_lru_policy_witness:
  "nodes (rt_buckets (upsertLRU (sample_table [sample_b, sample_a]) (sample_id 130) ''p''
     ''10.0.2.1:4000'' ''n'' 5 (Some (\<lambda>_. False))) ! 0) = [sample_c, sample_b]"
  using upsert_lru_policy [OF sample_full_inv sample_id_ok, of 130 0 "''p''" "''10.0.2.1:4000''" "''n''" 5
      "Some (\<lambda>_. False)"]
  by (simp add: Let_def subnet_full_def) (simp add: sample_node_def)

text \<open>The diversity limit holds for admissions: in a table where no bucket holds more nodes of one
  network than the limit, upserting a node that is not yet known keeps it that way.\<close>

lemma diversity_limit_on_admission:
  assumes "rt_inv rt" "diverse rt" "0 < rt_MaxPerSubnet rt" "nodeid_ok i"
    and "\<forall>m \<in> set (all_nodes rt). ni_NodeID m \<noteq> i"
  shows "diverse (upsertLRU rt i p a n now ping)"
  using assms upsertLRU_diverse by (simp add: rt_inv_def)

text \<open>The limit does not hold for updates: a known node that reports a new address is moved to
  the front without a new diversity check, so two sightings can put more nodes of one network into a
  bucket than the limit allows.\<close>

lemma diversity_limit_bypassed_by_address_change:
  "\<exists>rt. rt_inv rt \<and> diverse rt \<and> rt_MaxPerSubnet rt = 1 \<and>
     \<not> diverse (upsertLRU rt (sample_id 128) ''p'' ''10.0.1.1:4000'' ''n'' 9 None)"
proof -
  let ?rt = "SetDiversityLimit 1 (sample_table [sample_b, sample_a])"
  have inv: "rt_inv ?rt"
    using sample_full_inv by (simp add: rt_inv_def rt_distinct_def) (simp add: SetDiversityLimit_def)
  have b: "rt_buckets ?rt = rt_buckets (sample_table [sample_b, sample_a])" "rt_self ?rt = sample_id 0"
    "rt_MaxPerSubnet ?rt = 1"
    by (simp_all add: SetDiversityLimit_def)
  have up: "nodes (rt_buckets (upsertLRU ?rt (sample_id 128) ''p'' ''10.0.1.1:4000'' ''n'' 9 None) ! 0) =
      [refresh_entry ''p'' ''10.0.1.1:4000'' ''n'' 9 sample_a, sample_b]"
    using upsertLRU_known [OF inv sample_id_ok, of 128 0 sample_a "''p''" "''10.0.1.1:4000''" "''n''" 9 None]
    by (simp add: b)
  have "subnet_count [refresh_entry ''p'' ''10.0.1.1:4000'' ''n'' 9 sample_a, sample_b] ''v4:10.0.1.0/24'' = 2"
    by (simp add: subnet_count_def refresh_entry_def)
  moreover have "rt_MaxPerSubnet (upsertLRU ?rt (sample_id 128) ''p'' ''10.0.1.1:4000'' ''n'' 9 None) = 1"
    using upsertLRU_known [OF inv sample_id_ok, of 128 0 sample_a "''p''" "''10.0.1.1:4000''" "''n''" 9 None]
    by (simp add: b)
  ultimately have "\<not> diverse (upsertLRU ?rt (sample_id 128) ''p'' ''10.0.1.1:4000'' ''n'' 9 None)"
    unfolding diverse_def using up by (auto intro!: exI [of _ 0] exI [of _ "''v4:10.0.1.0/24''"])
  moreover have "diverse ?rt"
    unfolding diverse_def b
    by (auto simp: sample_table_def NewRoutingTable_def nth_list_update subnet_count_def)
  ultimately show ?thesis using inv b(3) by blast
qed

text \<open>C32: under arbitrary interleavings of concurrent upserts (critical sections atomic, pings unlocked
  and answering arbitrarily) every bucket stays within its capacity, so the table never exceeds 256
  buckets of \<open>k\<close> nodes, and every entry stays in its own bucket.\<close>

theorem concurrent_upserts_bounded:
  assumes "rt_reach self k (rt, S)" "nodeid_ok self"
  shows "rt_wf rt \<and> Size rt \<le> 256 * rt_k rt"
  using rt_reach_inv [OF assms] rt_wf_size by (simp add: conc_inv_def)

theorem concurrent_upserts_bounded_witness:
  "Size (sample_table [sample_b, sample_a]) \<le> 512"
  using concurrent_upserts_bounded [OF sample_full_reach sample_id_ok] by simp

text \<open>Duplicates are not excluded under concurrency: two goroutines that report the same unknown
  node while the bucket is full both suspend for the ping; neither looks for the node again when it
  resumes, so the node is inserted twice and a node nobody pinged is evicted.\<close>

lemma concurrent_upserts_duplicate:
  "\<exists>rt. rt_reach (sample_id 0) 2 (rt, {#}) \<and> \<not> rt_distinct rt \<and>
     nodes (rt_buckets rt ! 0) = [sample_c, sample_c]"
proof -
  let ?s = "(0, sample_a, sample_c)"
  have "rt_reach (sample_id 0) 2 (sample_table [sample_b, sample_a], {#?s#})"
    by (rule rt_reach.step [OF sample_full_reach])
      (rule rt_step.section_ping [OF sample_id_ok sample_add_c])
  then have "rt_reach (sample_id 0) 2 (sample_table [sample_b, sample_a], {#?s, ?s#})"
    by (rule rt_reach.step) (rule rt_step.section_ping [OF sample_id_ok sample_add_c])
  then have "rt_reach (sample_id 0) 2
      (upsert_resume (sample_table [sample_b, sample_a]) ?s False, {#?s, ?s#} - {#?s#})"
    by (rule rt_reach.step) (rule rt_step.resume, simp)
  then have "rt_reach (sample_id 0) 2 (sample_table [sample_c, sample_b], {#?s#})"
    by (simp add: sample_evict)
  then have "rt_reach (sample_id 0) 2
      (upsert_resume (sample_table [sample_c, sample_b]) ?s False, {#?s#} - {#?s#})"
    by (rule rt_reach.step) (rule rt_step.resume, simp)
  then have "rt_reach (sample_id 0) 2 (sample_table [sample_c, sample_c], {#})"
    by (simp add: sample_evict)
  moreover have "\<not> rt_distinct (sample_table [sample_c, sample_c])"
    unfolding rt_distinct_def by (auto intro!: exI [of _ 0])
  ultimately show ?thesis by (intro exI [of _ "sample_table [sample_c, sample_c]"]) simp
qed

text \<open>The hand-written insertion sort over the distance-tagged copy is the stable sort by XOR
  distance to the target.\<close>

lemma sort_by_distance_correct:
  "SortByDistance ns target = sort_key (\<lambda>n. Distance (ni_NodeID n) target) ns"
  by (rule SortByDistance_sort_key)

text \<open>C23: \<^verbatim>\<open>Closest\<close> returns the \<open>n\<close> nearest nodes of the table (all of them if there are fewer), without
  duplicates and in strictly increasing distance; a node that is left out is farther away than every
  returned one.\<close>

theorem closest_returns_nearest:
  assumes "rt_inv rt" "nodeid_ok target" "0 < n"
  shows "let cs = Closest rt target n; d = (\<lambda>ni. be_val (Distance (ni_NodeID ni) target)) in
    length cs = min (nat n) (Size rt) \<and> set cs \<subseteq> set (all_nodes rt) \<and>
    sorted_wrt (\<lambda>x y. d x < d y) cs \<and>
    (\<forall>x \<in> set cs. \<forall>y \<in> set (all_nodes rt) - set cs. d x < d y)"
proof -
  let ?cs = "Closest rt target n" and ?D = "\<lambda>ni. Distance (ni_NodeID ni) target"
  have wf: "rt_wf rt" using assms(1) by (simp add: rt_inv_def)
  have cs: "?cs = take (nat n) (SortByDistance (all_nodes rt) target)"
    using assms(3) by (rule Closest_select)
  have sub: "set ?cs \<subseteq> set (all_nodes rt)"
    unfolding cs by (rule closest.select_subset)
  have ok: "nodeid_ok (?D ni)" if "ni \<in> set (all_nodes rt)" for ni
    using rt_wf_all_nodes [OF wf that] assms(2) by (auto simp: entry_ok_def Distance_def)
  have inj: "?D x = ?D y \<Longrightarrow> ni_NodeID x = ni_NodeID y"
    if "x \<in> set (all_nodes rt)" "y \<in> set (all_nodes rt)" for x y
    using rt_wf_all_nodes [OF wf that(1)] rt_wf_all_nodes [OF wf that(2)] assms(2)
    by (auto simp: entry_ok_def Distance_def Xor_inject nodeid_ok_length)
  have dall: "distinct (map ?D (all_nodes rt))"
    using rt_inv_distinct_all [OF assms(1)] inj by (auto simp: distinct_map inj_on_def)
  then have "sorted_wrt (\<lambda>x y. ?D x < ?D y) ?cs"
    using closest.select_sorted [where t = target and n = "nat n" and xs = "all_nodes rt"]
      closest.select_distinct [OF dall, where t = target and n = "nat n"]
    unfolding cs by (intro sorted_wrt_strict) simp_all
  then have "sorted_wrt (\<lambda>x y. be_val (?D x) < be_val (?D y)) ?cs"
    by (rule sorted_wrt_mono_rel [rotated])
      (use sub ok in \<open>auto simp: be_val_mono nodeid_ok_length subset_iff\<close>)
  moreover have "be_val (?D x) < be_val (?D y)" if "x \<in> set ?cs" "y \<in> set (all_nodes rt) - set ?cs" for x y
  proof -
    have "y \<in># mset (all_nodes rt) - mset ?cs"
      using that(2) by (simp add: in_diff_count count_eq_zero_iff [THEN iffD2])
    then have "?D x \<le> ?D y"
      using closest.select_closest that(1) unfolding cs by blast
    moreover have "?D x \<noteq> ?D y"
      using dall sub that by (metis DiffD1 DiffD2 distinct_map inj_onD subsetD)
    ultimately show ?thesis
      using ok that sub be_val_mono [of "?D x" "?D y"] by (auto simp: nodeid_ok_length subset_iff)
  qed
  ultimately show ?thesis
    using sub closest.length_select [where t = target and n = "nat n" and xs = "all_nodes rt"] sub
    unfolding Let_def cs by (auto simp: Size_def SortByDistance_sort_key)
qed

theorem closest_returns_nearest_witness:
  "length (Closest (sample_table [sample_b, sample_a]) (sample_id 128) 1) =
     min 1 (Size (sample_table [sample_b, sample_a]))"
  using closest_returns_nearest [OF sample_full_inv sample_id_ok, of 1 128] by (simp add: Let_def)

end
