(* ===== verification/Messages.thy ===== *)
theory Messages
  imports GoLib
begin

text \<open>
  The wire types of the protocol (\<^verbatim>\<open>internal/proto\<close>). Field names carry a short prefix of their
  struct. A nil and an empty Go slice are the same list; a pointer field is an \<open>option\<close>.

  A \<^verbatim>\<open>json.RawMessage\<close> is the message it decodes to (\<open>payload\<close>), or \<open>P_bad\<close> when \<^verbatim>\<open>json.Unmarshal\<close> fails; the decoding
  itself, from bytes, is in \<open>Json\<close> and \<open>Codec\<close>. An envelope whose type does not fit its payload decodes
  to some message of the type the receiver expects, so quantifying over that message covers it.
\<close>

subsection \<open>DHT\<close>

record DHTRecord =
  rec_Type :: string
  rec_Value :: bytes
  rec_CreatedUnix :: int64
  rec_ExpiresUnix :: int64
  rec_PubKey :: bytes
  rec_Seq :: uint64
  rec_Sig :: bytes
  rec_Name :: string

record DHTNode =
  nd_NodeID :: string
  nd_PeerID :: string
  nd_Addr :: string
  nd_Name :: string

record DHTWire =
  w_Kind :: string
  w_RPCID :: string
  w_Target :: string
  w_Nodes :: "DHTNode list"
  w_Key :: string
  w_Record :: "DHTRecord option"
  w_OK :: bool
  w_Error :: string

text \<open>\<^verbatim>\<open>proto.DHTWire{}\<close>: the zero value composite literals start from.\<close>

definition zeroWire :: DHTWire where
  "zeroWire = \<lparr>w_Kind = [], w_RPCID = [], w_Target = [], w_Nodes = [], w_Key = [], w_Record = None,
     w_OK = False, w_Error = []\<rparr>"

subsection \<open>Quizzes and points\<close>

record QuizOpen =
  qo_QuizID :: string
  qo_CreatorID :: string
  qo_Question :: string
  qo_Points :: int64
  qo_Created :: int64
  qo_Expires :: int64

record QuizOpenSigned =
  qs_Open :: QuizOpen
  qs_Signature :: bytes

record QuizAnswer =
  qa_QuizID :: string
  qa_Answer :: string
  qa_Timestamp :: int64

record QuizGrant =
  g_GrantID :: string
  g_QuizID :: string
  g_GrantorID :: string
  g_RecipientID :: string
  g_Points :: int64
  g_Timestamp :: int64
  g_Signature :: bytes

record QuizResult =
  qr_QuizID :: string
  qr_PlayerID :: string
  qr_Correct :: bool
  qr_Delta :: int64

record QuizWire =
  qw_Kind :: string
  qw_Open :: "QuizOpenSigned option"
  qw_Answer :: "QuizAnswer option"
  qw_Grant :: "QuizGrant option"
  qw_Result :: "QuizResult option"

record PointsSnapshot =
  ps_PlayerID :: string
  ps_Name :: string
  ps_Points :: int64
  ps_Version :: uint64

record SignedPointsSnapshot =
  sp_Snapshot :: PointsSnapshot
  sp_PubKey :: bytes
  sp_Signature :: bytes

record GrantSyncSummary =
  gs_MaxTimestamp :: int64
  gs_RecentGrantIDs :: "string list"

record GrantSyncRequest =
  gr_SinceTimestamp :: int64
  gr_Limit :: int

subsection \<open>Peers\<close>

record PeerInfo =
  pi_ID :: string
  pi_Name :: string
  pi_Addr :: string
  pi_PublicAddr :: string

record Hello =
  h_Name :: string
  h_Listen :: string
  h_Protocol :: string

record Identify =
  id_Name :: string
  id_UserPub :: bytes

record NatRegister =
  nr_UserID :: string
  nr_Name :: string

record ChatMessage =
  cm_Text :: string
  cm_From :: string
  cm_Timestamp :: int64

record EncryptedMessage =
  em_Nonce :: bytes
  em_Ciphertext :: bytes

subsection \<open>Envelopes\<close>

datatype payload =
    P_bad
  | P_hello Hello
  | P_peers "PeerInfo list"
  | P_identify Identify
  | P_gossip string string payload \<comment> \<open>\<^verbatim>\<open>Gossip\<close>: id, channel, body\<close>
  | P_chat ChatMessage
  | P_dht DHTWire
  | P_quiz QuizWire
  | P_points SignedPointsSnapshot
  | P_encrypted EncryptedMessage
  | P_natRegister NatRegister
  | P_natRelay string payload \<comment> \<open>\<^verbatim>\<open>NatRelay\<close>: target user, payload\<close>
  | P_syncSummary GrantSyncSummary
  | P_syncRequest GrantSyncRequest
  | P_syncResponse "QuizGrant list"

record Envelope =
  env_Type :: string
  env_FromID :: string
  env_Payload :: payload

definition MsgDHT :: string where "MsgDHT = ''dht''"
definition MsgHello :: string where "MsgHello = ''hello''"
definition MsgPeerList :: string where "MsgPeerList = ''peer_list''"
definition MsgGossip :: string where "MsgGossip = ''gossip''"
definition MsgIdentify :: string where "MsgIdentify = ''identify''"
definition MsgNatRegister :: string where "MsgNatRegister = ''nat_register''"
definition MsgNatRelay :: string where "MsgNatRelay = ''nat_relay''"
definition MsgGrantSyncSummary :: string where "MsgGrantSyncSummary = ''grant_sync_summary''"
definition MsgGrantSyncRequest :: string where "MsgGrantSyncRequest = ''grant_sync_request''"
definition MsgGrantSyncResponse :: string where "MsgGrantSyncResponse = ''grant_sync_response''"

lemmas msg_type_defs = MsgDHT_def MsgHello_def MsgPeerList_def MsgGossip_def MsgIdentify_def
  MsgNatRegister_def MsgNatRelay_def MsgGrantSyncSummary_def MsgGrantSyncRequest_def
  MsgGrantSyncResponse_def

text \<open>What \<^verbatim>\<open>json.Unmarshal\<close> into a \<^verbatim>\<open>DHTWire\<close> yields.\<close>

definition as_dht :: "payload \<Rightarrow> DHTWire option" where
  "as_dht p = (case p of P_dht w \<Rightarrow> Some w | _ \<Rightarrow> None)"

definition DecodePeerIDHexToPub :: "string \<Rightarrow> bytes option" where
  "DecodePeerIDHexToPub peerID =
     (case DecodeString peerID of
        None \<Rightarrow> None
      | Some b \<Rightarrow> if length b \<noteq> 32 then None else Some b)"

text \<open>The bytes a grant's signature covers.\<close>

definition EncodeQuizGrantCanonical :: "crypto \<Rightarrow> QuizGrant \<Rightarrow> bytes" where
  "EncodeQuizGrantCanonical cr g =
     sha256 cr
       (bytes_of (g_GrantID g) @ [0] @ bytes_of (g_QuizID g) @ [0] @ bytes_of (g_GrantorID g) @ [0] @
        bytes_of (g_RecipientID g) @ [0] @ PutUint64 (g_Points g) @ PutUint64 (g_Timestamp g))"

end
