(* ===== verification/Records.thy ===== *)
theory Records
  imports NodeId Messages Contracts
begin

text \<open>
  DHT records (\<^verbatim>\<open>internal/dht/record.go\<close>, \<^verbatim>\<open>record_validate.go\<close>, \<^verbatim>\<open>record_store.go\<close>): keys, the signed
  payload, validation against a key, and the in-memory record store. The Go interface
  \<^verbatim>\<open>RecordStore\<close> is the locale \<open>record_store\<close>; \<open>memstore\<close> interprets it on \<^verbatim>\<open>MemRecordStore\<close>.
\<close>

type_synonym rkey = bytes

subsection \<open>Keys and signatures\<close>

definition RecordImmutable :: string where "RecordImmutable = ''IMMUTABLE''"
definition RecordMutable :: string where "RecordMutable = ''MUTABLE''"

definition KeyFromImmutable :: "crypto \<Rightarrow> bytes \<Rightarrow> rkey" where
  "KeyFromImmutable cr v = sha256 cr v"

definition KeyFromMutable :: "crypto \<Rightarrow> bytes \<Rightarrow> string \<Rightarrow> rkey" where
  "KeyFromMutable cr pubKey name = sha256 cr (pubKey @ bytes_of name)"

definition KeyHex :: "rkey \<Rightarrow> string" where
  "KeyHex k = EncodeToString k"

definition ParseKeyHex :: "string \<Rightarrow> dht_error + rkey" where
  "ParseKeyHex s =
     (case DecodeString s of
        None \<Rightarrow> Inl ErrBadRecord
      | Some b \<Rightarrow> if length b \<noteq> 32 then Inl ErrBadRecord else Inr b)"

definition signBuffer :: "rkey \<Rightarrow> uint64 \<Rightarrow> int64 \<Rightarrow> bytes \<Rightarrow> bytes" where
  "signBuffer key seq expiresUnix v = key @ put_be 8 seq @ put_be 8 expiresUnix @ v"

definition signPayload :: "crypto \<Rightarrow> rkey \<Rightarrow> uint64 \<Rightarrow> int64 \<Rightarrow> bytes \<Rightarrow> bytes" where
  "signPayload cr key seq expiresUnix v = sha256 cr (signBuffer key seq expiresUnix v)"

definition SignMutable :: "crypto \<Rightarrow> bytes \<Rightarrow> rkey \<Rightarrow> uint64 \<Rightarrow> int64 \<Rightarrow> bytes \<Rightarrow> bytes" where
  "SignMutable cr priv key seq expiresUnix v =
     ed25519_sign cr priv (signPayload cr key seq expiresUnix v)"

definition VerifyMutable ::
  "crypto \<Rightarrow> bytes \<Rightarrow> rkey \<Rightarrow> uint64 \<Rightarrow> int64 \<Rightarrow> bytes \<Rightarrow> bytes \<Rightarrow> bool" where
  "VerifyMutable cr pub key seq expiresUnix v sig =
     ed25519_verify cr pub (signPayload cr key seq expiresUnix v) sig"

subsection \<open>Validation\<close>

definition maxValue :: nat where "maxValue = 64 * 1024"

text \<open>\<^verbatim>\<open>rec.ExpiresUnix != 0 && now.Unix() > rec.ExpiresUnix\<close>\<close>

definition expired :: "gotime \<Rightarrow> DHTRecord \<Rightarrow> bool" where
  "expired now r \<longleftrightarrow> rec_ExpiresUnix r \<noteq> 0 \<and> Unix now > sint (rec_ExpiresUnix r)"

text \<open>The result is the error, or \<open>None\<close> for nil.\<close>

definition ValidateRecordAgainstKey ::
  "crypto \<Rightarrow> gotime \<Rightarrow> rkey \<Rightarrow> DHTRecord option \<Rightarrow> dht_error option" where
  "ValidateRecordAgainstKey cr now key rec =
     (case rec of
        None \<Rightarrow> Some ErrInvalidRecord
      | Some r \<Rightarrow>
          if expired now r then Some ErrInvalidRecord
          else if length (rec_Value r) > maxValue then Some ErrRecordTooLarge
          else if rec_Type r = RecordImmutable then
            (if sha256 cr (rec_Value r) \<noteq> key then Some ErrKeyMismatch else None)
          else if rec_Type r = RecordMutable then
            (if length (rec_PubKey r) \<noteq> 32 \<or> length (rec_Sig r) = 0 then Some ErrBadRecord
             else if KeyFromMutable cr (rec_PubKey r) (rec_Name r) \<noteq> key then Some ErrKeyMismatch
             else if \<not> VerifyMutable cr (rec_PubKey r) key (rec_Seq r) (rec_ExpiresUnix r)
                        (rec_Value r) (rec_Sig r) then Some ErrBadSignature
             else None)
          else Some ErrBadRecord)"

subsection \<open>The in-memory store\<close>

record MemRecordStore =
  rs_data :: "rkey \<rightharpoonup> DHTRecord"

definition NewMemRecordStore :: MemRecordStore where
  "NewMemRecordStore = \<lparr>rs_data = Map.empty\<rparr>"

text \<open>Values are immutable in HOL, so a deep copy is the record itself; nil stays nil.\<close>

definition copyRecord :: "DHTRecord option \<Rightarrow> DHTRecord option" where
  "copyRecord r = r"

definition Get :: "MemRecordStore \<Rightarrow> rkey \<Rightarrow> gotime \<Rightarrow> DHTRecord option" where
  "Get m key now =
     (case rs_data m key of
        None \<Rightarrow> None
      | Some r \<Rightarrow> if expired now r then None else copyRecord (Some r))"

definition Put ::
  "MemRecordStore \<Rightarrow> rkey \<Rightarrow> DHTRecord option \<Rightarrow> gotime \<Rightarrow> dht_error option \<times> MemRecordStore" where
  "Put m key rec now =
     (case copyRecord rec of
        None \<Rightarrow> (Some ErrBadRecord, m)
      | Some r \<Rightarrow>
          if rec_Type r = RecordMutable \<and>
             (case rs_data m key of
                None \<Rightarrow> False
              | Some old \<Rightarrow> rec_Type old = RecordMutable \<and> rec_Seq r \<le> rec_Seq old)
          then (Some ErrSeqTooLow, m)
          else (None, m\<lparr>rs_data := (rs_data m)(key \<mapsto> r)\<rparr>))"

definition Delete :: "MemRecordStore \<Rightarrow> rkey \<Rightarrow> MemRecordStore" where
  "Delete m key = m\<lparr>rs_data := (rs_data m)(key := None)\<rparr>"

text \<open>One iteration of the loop of \<^verbatim>\<open>SweepExpired\<close>.\<close>

definition sweep_step :: "gotime \<Rightarrow> rkey \<Rightarrow> nat \<times> MemRecordStore \<Rightarrow> nat \<times> MemRecordStore" where
  "sweep_step now k acc =
     (case acc of (n, m) \<Rightarrow>
        (case rs_data m k of
           Some r \<Rightarrow> if expired now r then (n + 1, Delete m k) else (n, m)
         | None \<Rightarrow> (n, m)))"

text \<open>\<open>ks\<close> is the order in which the map is ranged over, \<open>wall\<close> the clock consulted for a zero
  \<open>now\<close>.\<close>

definition SweepExpired :: "gotime \<Rightarrow> rkey list \<Rightarrow> MemRecordStore \<Rightarrow> gotime \<Rightarrow> nat \<times> MemRecordStore" where
  "SweepExpired wall ks m now =
     fold (sweep_step (if IsZero now then wall else now)) ks (0, m)"

text \<open>\<^verbatim>\<open>ForEach\<close> with a callback that threads a state and may stop the iteration.\<close>

fun ForEach :: "rkey list \<Rightarrow> MemRecordStore \<Rightarrow> (rkey \<Rightarrow> DHTRecord \<Rightarrow> 's \<Rightarrow> 's \<times> bool) \<Rightarrow> 's \<Rightarrow> 's" where
  "ForEach [] m f s = s"
| "ForEach (k # ks) m f s =
     (case rs_data m k of
        None \<Rightarrow> ForEach ks m f s
      | Some r \<Rightarrow> (case f k r s of (s', True) \<Rightarrow> ForEach ks m f s' | (s', False) \<Rightarrow> s'))"

definition Len :: "MemRecordStore \<Rightarrow> nat" where
  "Len m = card (dom (rs_data m))"

subsection \<open>Codecs\<close>

lemma ParseKeyHex_KeyHex [simp, codec_simps]: "length k = 32 \<Longrightarrow> ParseKeyHex (KeyHex k) = Inr k"
  by (simp add: ParseKeyHex_def KeyHex_def)

lemma ParseKeyHex_length: "ParseKeyHex s = Inr k \<Longrightarrow> length k = 32"
  by (auto simp: ParseKeyHex_def split: option.splits if_splits)

lemma ParseKeyHex_NodeID: "ParseKeyHex s = Inr k \<Longrightarrow> ParseNodeIDHex s = Inr k"
  by (auto simp: ParseKeyHex_def ParseNodeIDHex_def NodeIDBytes_def split: option.splits if_splits)

lemma put_be_8_inject [simp]: "put_be 8 (v :: uint64) = put_be 8 w \<longleftrightarrow> v = w"
  using PutUint64_inject by (simp add: PutUint64_def)

lemma signBuffer_inject:
  assumes "length k = length k'"
  shows "signBuffer k s e v = signBuffer k' s' e' v' \<longleftrightarrow> k = k' \<and> s = s' \<and> e = e' \<and> v = v'"
  using assms by (simp add: signBuffer_def)

subsection \<open>Validation\<close>

lemma Record_types [simp]: "RecordImmutable \<noteq> RecordMutable" "RecordMutable \<noteq> RecordImmutable"
  by (simp_all add: RecordImmutable_def RecordMutable_def)

text \<open>Everything validation requires, apart from the expiry.\<close>

definition well_signed :: "crypto \<Rightarrow> rkey \<Rightarrow> DHTRecord \<Rightarrow> bool" where
  "well_signed cr k r \<longleftrightarrow> length (rec_Value r) \<le> maxValue \<and>
     (rec_Type r = RecordImmutable \<and> sha256 cr (rec_Value r) = k \<or>
      rec_Type r = RecordMutable \<and> length (rec_PubKey r) = 32 \<and> rec_Sig r \<noteq> [] \<and>
        KeyFromMutable cr (rec_PubKey r) (rec_Name r) = k \<and>
        VerifyMutable cr (rec_PubKey r) k (rec_Seq r) (rec_ExpiresUnix r) (rec_Value r) (rec_Sig r))"

lemma Validate_None_iff:
  "ValidateRecordAgainstKey cr now k (Some r) = None \<longleftrightarrow> \<not> expired now r \<and> well_signed cr k r"
  by (auto simp: ValidateRecordAgainstKey_def well_signed_def)

lemma Validate_NoneD:
  "ValidateRecordAgainstKey cr now k rec = None \<Longrightarrow>
     \<exists>r. rec = Some r \<and> \<not> expired now r \<and> well_signed cr k r"
  by (cases rec) (simp_all add: Validate_None_iff, simp add: ValidateRecordAgainstKey_def)

lemma expired_mono: "expired now r \<Longrightarrow> now \<le> t \<Longrightarrow> expired t r"
  using Unix_mono [of now t] by (auto simp: expired_def)

subsection \<open>The contract of a record store\<close>

locale record_store =
  fixes get :: "'s \<Rightarrow> rkey \<Rightarrow> gotime \<Rightarrow> DHTRecord option"
    and put :: "'s \<Rightarrow> rkey \<Rightarrow> DHTRecord option \<Rightarrow> gotime \<Rightarrow> dht_error option \<times> 's"
    and del :: "'s \<Rightarrow> rkey \<Rightarrow> 's"
    and swept :: "'s \<Rightarrow> gotime \<Rightarrow> 's \<Rightarrow> bool"
  assumes put_ok: "put s k rec now = (None, s') \<Longrightarrow>
      \<exists>r. rec = Some r \<and> (\<forall>t. get s' k t = (if expired t r then None else Some r))"
    and put_other: "k' \<noteq> k \<Longrightarrow> get (snd (put s k rec now)) k' t = get s k' t"
    and put_error: "put s k rec now = (Some e, s') \<Longrightarrow> s' = s"
    and get_del: "get (del s k) k' t = (if k' = k then None else get s k' t)"
    and swept_source: "swept s now s' \<Longrightarrow> get s' k t = Some r \<Longrightarrow> get s k t = Some r"
    and swept_keep: "swept s now s' \<Longrightarrow> now \<le> t \<Longrightarrow> get s' k t = get s k t"
    and get_fresh: "get s k t = Some r \<Longrightarrow> \<not> expired t r"
begin

text \<open>What a store may serve: records that validate at the time they are served.\<close>

definition serves_valid :: "crypto \<Rightarrow> 's \<Rightarrow> bool" where
  "serves_valid cr s \<longleftrightarrow> (\<forall>k t r. get s k t = Some r \<longrightarrow> ValidateRecordAgainstKey cr t k (Some r) = None)"

lemma serves_valid_put:
  assumes "serves_valid cr s" "ValidateRecordAgainstKey cr now k rec = None"
  shows "serves_valid cr (snd (put s k rec now'))"
  unfolding serves_valid_def
proof (intro allI impI)
  fix k' t r
  let ?s = "snd (put s k rec now')"
  assume g: "get ?s k' t = Some r"
  show "ValidateRecordAgainstKey cr t k' (Some r) = None"
  proof (cases "fst (put s k rec now') = None \<and> k' = k")
    case True
    then obtain r' where "rec = Some r'" "get ?s k t = (if expired t r' then None else Some r')"
      using put_ok [of s k rec now' ?s] by (metis prod.collapse)
    with True g assms(2) show ?thesis by (auto simp: Validate_None_iff split: if_splits)
  next
    case False
    have "?s = s \<or> k' \<noteq> k"
      using False put_error [of s k rec now' _ ?s] by (metis not_None_eq prod.collapse)
    then have "get s k' t = Some r" using g put_other by metis
    with assms(1) show ?thesis by (simp add: serves_valid_def)
  qed
qed

lemma serves_valid_del: "serves_valid cr s \<Longrightarrow> serves_valid cr (del s k)"
  by (auto simp: serves_valid_def get_del split: if_splits)

lemma serves_valid_swept: "serves_valid cr s \<Longrightarrow> swept s now s' \<Longrightarrow> serves_valid cr s'"
  unfolding serves_valid_def using swept_source by blast

text \<open>A successful put is visible, and only at its key.\<close>

lemma get_put:
  assumes "put s k (Some r) now = (None, s')"
  shows "get s' k' t = (if k' = k then if expired t r then None else Some r else get s k' t)"
  using put_ok [OF assms] put_other [of k' k s "Some r" now t] assms by auto

end

subsection \<open>The in-memory store keeps the contract\<close>

lemma rs_data_Delete [simp]: "rs_data (Delete m k) = (rs_data m)(k := None)"
  by (simp add: Delete_def)

lemma sweep_fold:
  "distinct ks \<Longrightarrow> fold (sweep_step now) ks (n, m) =
     (n + card {k \<in> set ks. \<exists>r. rs_data m k = Some r \<and> expired now r},
      m\<lparr>rs_data := (\<lambda>k. if k \<in> set ks \<and> (\<exists>r. rs_data m k = Some r \<and> expired now r) then None
                        else rs_data m k)\<rparr>)"
proof (induction ks arbitrary: n m)
  case (Cons k ks)
  show ?case
  proof (cases "\<exists>r. rs_data m k = Some r \<and> expired now r")
    case True
    then have "sweep_step now k (n, m) = (n + 1, Delete m k)" by (auto simp: sweep_step_def)
    moreover have "{x \<in> set (k # ks). \<exists>r. rs_data m x = Some r \<and> expired now r} =
        insert k {x \<in> set ks. \<exists>r. rs_data (Delete m k) x = Some r \<and> expired now r}"
      using True Cons.prems by auto
    ultimately show ?thesis
      using Cons True by (auto simp: fun_eq_iff intro!: MemRecordStore.equality)
  next
    case False
    then have "sweep_step now k (n, m) = (n, m)" by (auto simp: sweep_step_def split: option.splits)
    moreover have "{x \<in> set (k # ks). \<exists>r. rs_data m x = Some r \<and> expired now r} =
        {x \<in> set ks. \<exists>r. rs_data m x = Some r \<and> expired now r}"
      using False by auto
    ultimately show ?thesis
      using Cons False by (auto simp: fun_eq_iff intro!: MemRecordStore.equality)
  qed
qed simp

lemma SweepExpired_eq:
  assumes "enumerates ks (rs_data m)" "\<not> IsZero now"
  shows "SweepExpired wall ks m now =
    (card {k. \<exists>r. rs_data m k = Some r \<and> expired now r},
     m\<lparr>rs_data := (\<lambda>k. case rs_data m k of None \<Rightarrow> None
                         | Some r \<Rightarrow> if expired now r then None else Some r)\<rparr>)"
proof -
  have s: "set ks = dom (rs_data m)" using assms(1) by (rule enumerates_set)
  have "{k \<in> set ks. \<exists>r. rs_data m k = Some r \<and> expired now r} =
      {k. \<exists>r. rs_data m k = Some r \<and> expired now r}"
    using s by auto
  moreover have "(\<lambda>k. if k \<in> set ks \<and> (\<exists>r. rs_data m k = Some r \<and> expired now r) then None
        else rs_data m k) = (\<lambda>k. case rs_data m k of None \<Rightarrow> None
                         | Some r \<Rightarrow> if expired now r then None else Some r)"
    using s by (auto simp: fun_eq_iff split: option.splits)
  ultimately show ?thesis
    using assms by (simp add: SweepExpired_def sweep_fold enumerates_distinct)
qed

lemma Put_cases:
  "Put m k rec now =
     (case rec of
        None \<Rightarrow> (Some ErrBadRecord, m)
      | Some r \<Rightarrow>
          if rec_Type r = RecordMutable \<and>
             (\<exists>old. rs_data m k = Some old \<and> rec_Type old = RecordMutable \<and> rec_Seq r \<le> rec_Seq old)
          then (Some ErrSeqTooLow, m)
          else (None, m\<lparr>rs_data := (rs_data m)(k \<mapsto> r)\<rparr>))"
  by (auto simp: Put_def copyRecord_def split: option.splits)

definition mem_swept :: "MemRecordStore \<Rightarrow> gotime \<Rightarrow> MemRecordStore \<Rightarrow> bool" where
  "mem_swept m now m' \<longleftrightarrow>
     (\<exists>wall ks. enumerates ks (rs_data m) \<and> \<not> IsZero now \<and> m' = snd (SweepExpired wall ks m now))"

lemma Get_swept:
  assumes "mem_swept m now m'"
  shows "Get m' k t = (if \<exists>r. rs_data m k = Some r \<and> expired now r then None else Get m k t)"
  using assms by (auto simp: mem_swept_def SweepExpired_eq Get_def split: option.splits if_splits)

interpretation memstore: record_store Get Put Delete mem_swept
proof unfold_locales
  fix m :: MemRecordStore and k k' rec now t r m' e
  show "Put m k rec now = (None, m') \<Longrightarrow>
      \<exists>r. rec = Some r \<and> (\<forall>t. Get m' k t = (if expired t r then None else Some r))"
    by (auto simp: Put_cases Get_def copyRecord_def split: option.splits if_splits)
  show "k' \<noteq> k \<Longrightarrow> Get (snd (Put m k rec now)) k' t = Get m k' t"
    by (auto simp: Put_cases Get_def split: option.splits)
  show "Put m k rec now = (Some e, m') \<Longrightarrow> m' = m"
    by (auto simp: Put_cases split: option.splits if_splits)
  show "Get (Delete m k) k' t = (if k' = k then None else Get m k' t)"
    by (simp add: Get_def)
  show "mem_swept m now m' \<Longrightarrow> Get m' k t = Some r \<Longrightarrow> Get m k t = Some r"
    by (auto simp: Get_swept split: if_splits)
  show "mem_swept m now m' \<Longrightarrow> now \<le> t \<Longrightarrow> Get m' k t = Get m k t"
    by (simp add: Get_swept) (auto simp: Get_def dest: expired_mono)
  show "Get m k t = Some r \<Longrightarrow> \<not> expired t r"
    by (auto simp: Get_def copyRecord_def split: option.splits if_splits)
qed

subsection \<open>Mutable records are versioned\<close>

text \<open>The mutable part of the store, and \<^verbatim>\<open>Put\<close> restricted to mutable records.\<close>

definition mut_entries :: "MemRecordStore \<Rightarrow> rkey \<rightharpoonup> rkey \<times> DHTRecord" where
  "mut_entries m k =
     (case rs_data m k of
        Some r \<Rightarrow> if rec_Type r = RecordMutable then Some (k, r) else None
      | None \<Rightarrow> None)"

definition mut_put :: "rkey \<times> DHTRecord \<Rightarrow> MemRecordStore \<Rightarrow> bool \<times> MemRecordStore" where
  "mut_put kr m =
     (if rec_Type (snd kr) = RecordMutable
      then (fst (Put m (fst kr) (Some (snd kr)) zeroTime) = None, snd (Put m (fst kr) (Some (snd kr)) zeroTime))
      else (False, m))"

interpretation versions: version_merge fst "\<lambda>kr. rec_Seq (snd kr)"
  "\<lambda>kr. rec_Type (snd kr) = RecordMutable" mut_entries mut_put
proof unfold_locales
  fix kr old :: "rkey \<times> DHTRecord" and m
  assume mut: "rec_Type (snd kr) = RecordMutable"
    and new: "\<And>old. mut_entries m (fst kr) = Some old \<Longrightarrow> rec_Seq (snd old) < rec_Seq (snd kr)"
  have "\<not> (\<exists>old. rs_data m (fst kr) = Some old \<and> rec_Type old = RecordMutable \<and>
      rec_Seq (snd kr) \<le> rec_Seq old)"
    using new by (auto simp: mut_entries_def not_le [symmetric] split: option.splits if_splits)
  with mut show "fst (mut_put kr m) \<and>
      mut_entries (snd (mut_put kr m)) = (mut_entries m)(fst kr \<mapsto> kr)"
    by (auto simp: mut_put_def Put_cases mut_entries_def fun_eq_iff)
next
  fix kr old :: "rkey \<times> DHTRecord" and m
  assume "mut_entries m (fst kr) = Some old" "rec_Seq (snd kr) \<le> rec_Seq (snd old)"
  then show "mut_put kr m = (False, m)"
    by (auto simp: mut_put_def Put_cases mut_entries_def split: option.splits if_splits)
qed (simp add: mut_put_def)

definition mut_only :: "MemRecordStore \<Rightarrow> bool" where
  "mut_only m \<longleftrightarrow> (\<forall>k r. rs_data m k = Some r \<longrightarrow> rec_Type r = RecordMutable)"

lemma mut_only_Put:
  "mut_only m \<Longrightarrow> rec_Type r = RecordMutable \<Longrightarrow> mut_only (snd (Put m k (Some r) now))"
  by (auto simp: mut_only_def Put_cases)

subsection \<open>Reachable stores\<close>

text \<open>Every write of the program to the record store is validated first (the \<^verbatim>\<open>STORE\<close> handler,
  \<^verbatim>\<open>PublishRecord\<close>, \<^verbatim>\<open>IterativeFindValue\<close>).\<close>

inductive rs_reach :: "crypto \<Rightarrow> MemRecordStore \<Rightarrow> bool" for cr where
  init: "rs_reach cr NewMemRecordStore"
| store: "rs_reach cr m \<Longrightarrow> ValidateRecordAgainstKey cr now k rec = None \<Longrightarrow>
    rs_reach cr (snd (Put m k rec now'))"
| delete: "rs_reach cr m \<Longrightarrow> rs_reach cr (Delete m k)"
| sweep: "rs_reach cr m \<Longrightarrow> enumerates ks (rs_data m) \<Longrightarrow> \<not> IsZero now \<Longrightarrow>
    rs_reach cr (snd (SweepExpired wall ks m now))"

lemma rs_reach_valid: "rs_reach cr m \<Longrightarrow> memstore.serves_valid cr m"
proof (induction rule: rs_reach.induct)
  case init
  show ?case
    unfolding memstore.serves_valid_def by (simp add: NewMemRecordStore_def Get_def)
next
  case (sweep m ks now wall)
  then have "mem_swept m now (snd (SweepExpired wall ks m now))"
    unfolding mem_swept_def by blast
  with sweep.IH show ?case by (rule memstore.serves_valid_swept)
qed (auto intro: memstore.serves_valid_put memstore.serves_valid_del)

subsection \<open>Sample records\<close>

definition sample_immutable :: DHTRecord where
  "sample_immutable = \<lparr>rec_Type = RecordImmutable, rec_Value = [1, 2, 3], rec_CreatedUnix = 0,
     rec_ExpiresUnix = 0, rec_PubKey = [], rec_Seq = 0, rec_Sig = [], rec_Name = []\<rparr>"

definition sample_mutable :: "uint64 \<Rightarrow> DHTRecord" where
  "sample_mutable seq = \<lparr>rec_Type = RecordMutable, rec_Value = [9], rec_CreatedUnix = 0,
     rec_ExpiresUnix = 0, rec_PubKey = pad32 [7], rec_Seq = seq,
     rec_Sig = SignMutable demo_crypto [7] (KeyFromMutable demo_crypto (pad32 [7]) ''profile'') seq 0 [9],
     rec_Name = ''profile''\<rparr>"

lemma sample_mutable_simps [simp]:
  "rec_Type (sample_mutable seq) = RecordMutable" "rec_Seq (sample_mutable seq) = seq"
  "rec_Name (sample_mutable seq) = ''profile''"
  by (simp_all add: sample_mutable_def)

lemma sample_immutable_valid:
  "ValidateRecordAgainstKey demo_crypto now (pad32 [1, 2, 3]) (Some sample_immutable) = None"
  by (simp add: Validate_None_iff sample_immutable_def expired_def well_signed_def demo_crypto_def
      maxValue_def)

lemma sample_mutable_valid:
  "ValidateRecordAgainstKey demo_crypto now (KeyFromMutable demo_crypto (pad32 [7]) ''profile'')
     (Some (sample_mutable seq)) = None"
  by (simp add: Validate_None_iff sample_mutable_def expired_def well_signed_def maxValue_def
      SignMutable_def VerifyMutable_def) (simp add: demo_crypto_def)

subsection \<open>Properties\<close>

text \<open>Whatever a node has stored, deleted and swept, \<^verbatim>\<open>Get\<close> only returns records that validate
  against the requested key at the time of the request: an immutable record hashes to the key, a
  mutable one carries a valid signature of the key's owner, and neither has expired.\<close>

lemma served_records_valid:
  assumes "rs_reach cr m" "Get m k t = Some r"
  shows "ValidateRecordAgainstKey cr t k (Some r) = None"
  using rs_reach_valid [OF assms(1)] assms(2) by (simp add: memstore.serves_valid_def)



text \<open>C11: storing mutable records in any order, the sequence number under a key never goes down,
  what is stored is one of the records received for that key, and it has the highest sequence
  number of them; stores that receive the same set of records in different orders agree when a
  key and a sequence number identify the record.\<close>

theorem mutable_records_latest_wins:
  assumes "set krs = set krs'"
    and "\<forall>kr \<in> set krs. rec_Type (snd kr) = RecordMutable"
    and "\<forall>a \<in> set krs. \<forall>b \<in> set krs. fst a = fst b \<and> rec_Seq (snd a) = rec_Seq (snd b) \<longrightarrow> a = b"
  shows "let run = fold (\<lambda>(k, r) m. snd (Put m k (Some r) zeroTime)); m = run krs NewMemRecordStore in
     rs_data m = rs_data (run krs' NewMemRecordStore) \<and>
     (\<forall>k r. rs_data m k = Some r \<longrightarrow> (k, r) \<in> set krs) \<and>
     (\<forall>(k, r) \<in> set krs. \<exists>new. rs_data m k = Some new \<and> rec_Seq r \<le> rec_Seq new)"
proof -
  let ?run = "fold (\<lambda>(k, r) m. snd (Put m k (Some r) zeroTime))"
    and ?ins = "fold (\<lambda>kr m. snd (mut_put kr m))"
  have run: "?run xs m = ?ins xs m" if "\<forall>kr \<in> set xs. rec_Type (snd kr) = RecordMutable" for xs m
    using that by (induction xs arbitrary: m) (auto simp: mut_put_def)
  have mutonly: "mut_only (?run xs m)"
    if "\<forall>kr \<in> set xs. rec_Type (snd kr) = RecordMutable" and "mut_only m" for xs m
    using that by (induction xs arbitrary: m) (auto simp: mut_only_Put)
  have entries: "rs_data (?run xs NewMemRecordStore) k =
      map_option snd (mut_entries (?run xs NewMemRecordStore) k)"
    if "\<forall>kr \<in> set xs. rec_Type (snd kr) = RecordMutable" for xs k
    using mutonly [OF that, of NewMemRecordStore]
    by (auto simp: mut_only_def mut_entries_def NewMemRecordStore_def split: option.splits)
  have all': "\<forall>kr \<in> set krs'. rec_Type (snd kr) = RecordMutable" using assms(1,2) by simp
  have none: "mut_entries NewMemRecordStore = Map.empty"
    by (simp add: mut_entries_def NewMemRecordStore_def fun_eq_iff)
  have same: "mut_entries (?run krs NewMemRecordStore) = mut_entries (?run krs' NewMemRecordStore)"
    unfolding run [OF assms(2)] run [OF all']
    by (rule versions.ins_all_converge [OF assms(1) none none]) (use assms(3) in blast)
  have 1: "rs_data (?run krs NewMemRecordStore) = rs_data (?run krs' NewMemRecordStore)"
    using same by (simp add: fun_eq_iff entries [OF assms(2)] entries [OF all'])
  have 2: "(k, r) \<in> set krs" if "rs_data (?run krs NewMemRecordStore) k = Some r" for k r
  proof -
    have "map_option snd (mut_entries (?run krs NewMemRecordStore) k) = Some r"
      using that by (simp only: entries [OF assms(2)])
    then obtain kr where kr: "mut_entries (?run krs NewMemRecordStore) k = Some kr" "snd kr = r"
      unfolding map_option_eq_Some by blast
    then have "kr \<in> set krs \<and> fst kr = k"
      using versions.ins_all_source [of krs NewMemRecordStore k kr] none run [OF assms(2)] by simp
    with kr(2) show ?thesis by (cases kr) simp
  qed
  have 3: "\<exists>new. rs_data (?run krs NewMemRecordStore) k = Some new \<and> rec_Seq r \<le> rec_Seq new"
    if "(k, r) \<in> set krs" for k r
  proof -
    have "rec_Type (snd (k, r)) = RecordMutable" using that assms(2) by blast
    from versions.ins_all_max [of "(k, r)" krs NewMemRecordStore, OF that this] obtain kr
      where "mut_entries (?run krs NewMemRecordStore) k = Some kr" "rec_Seq r \<le> rec_Seq (snd kr)"
      unfolding run [OF assms(2)] by auto
    then show ?thesis by (simp add: entries [OF assms(2)])
  qed
  show ?thesis unfolding Let_def using 1 2 3 by blast
qed

theorem mutable_records_latest_wins_witness:
  "rs_data (snd (Put (snd (Put NewMemRecordStore [1] (Some (sample_mutable 2)) zeroTime)) [1]
      (Some (sample_mutable 1)) zeroTime)) =
   rs_data (snd (Put (snd (Put NewMemRecordStore [1] (Some (sample_mutable 1)) zeroTime)) [1]
      (Some (sample_mutable 2)) zeroTime))"
proof -
  let ?xs = "[([1], sample_mutable 2), ([1 :: byte], sample_mutable 1)]"
    and ?ys = "[([1], sample_mutable 1), ([1 :: byte], sample_mutable 2)]"
  have set: "set ?xs = set ?ys" by (simp only: list.set insert_commute)
  have mut: "\<forall>kr \<in> set ?xs. rec_Type (snd kr) = RecordMutable" by simp
  have id: "\<forall>a \<in> set ?xs. \<forall>b \<in> set ?xs. fst a = fst b \<and> rec_Seq (snd a) = rec_Seq (snd b) \<longrightarrow> a = b"
    by simp
  show ?thesis
    using mutable_records_latest_wins [OF set mut id, unfolded Let_def, THEN conjunct1]
    by (simp only: fold.simps comp_apply prod.case id_apply)
qed

text \<open>A sweep removes exactly the expired records, returns their number, and does not change the
  answer of any request from then on.\<close>

lemma sweep_expired_correct:
  assumes "enumerates ks (rs_data m)" "\<not> IsZero now"
  shows "case SweepExpired wall ks m now of (n, m') \<Rightarrow>
     n = card {k. \<exists>r. rs_data m k = Some r \<and> expired now r} \<and>
     (\<forall>k r. rs_data m' k = Some r \<longleftrightarrow> rs_data m k = Some r \<and> \<not> expired now r) \<and>
     (\<forall>k t. now \<le> t \<longrightarrow> Get m' k t = Get m k t)"
proof -
  have "mem_swept m now (snd (SweepExpired wall ks m now))"
    using assms by (auto simp: mem_swept_def)
  then have "\<forall>k t. now \<le> t \<longrightarrow> Get (snd (SweepExpired wall ks m now)) k t = Get m k t"
    using memstore.swept_keep by blast
  then show ?thesis
    by (simp add: SweepExpired_eq [OF assms] split: option.splits) auto
qed

text \<open>The keys of mutable and immutable records are not separated. For every stored mutable record
  anyone can build, without the private key, an immutable record that validates against the same
  key (its value is the public key followed by the name); \<^verbatim>\<open>Put\<close> lets it replace the mutable
  record whatever the sequence numbers, and afterwards accepts an older version again.\<close>

lemma mutable_record_takeover:
  assumes "ValidateRecordAgainstKey cr now k (Some r) = None" "rec_Type r = RecordMutable"
    and "length (rec_Name r) + 32 \<le> maxValue" "rec_Type old = RecordMutable"
  shows "\<exists>f. rec_Type f = RecordImmutable \<and> rec_Sig f = [] \<and>
     ValidateRecordAgainstKey cr now k (Some f) = None \<and>
     (\<forall>m. Put m k (Some f) now = (None, m\<lparr>rs_data := (rs_data m)(k \<mapsto> f)\<rparr>) \<and>
        fst (Put (snd (Put m k (Some f) now)) k (Some old) now) = None)"
proof -
  let ?f = "\<lparr>rec_Type = RecordImmutable, rec_Value = rec_PubKey r @ bytes_of (rec_Name r),
     rec_CreatedUnix = 0, rec_ExpiresUnix = 0, rec_PubKey = [], rec_Seq = 0, rec_Sig = [], rec_Name = []\<rparr>"
  have "well_signed cr k ?f"
    using assms by (auto simp: Validate_None_iff well_signed_def KeyFromMutable_def)
  then have "ValidateRecordAgainstKey cr now k (Some ?f) = None"
    by (simp add: Validate_None_iff expired_def)
  moreover have "Put m k (Some ?f) now = (None, m\<lparr>rs_data := (rs_data m)(k \<mapsto> ?f)\<rparr>)" for m
    by (simp add: Put_cases)
  ultimately show ?thesis
    by (intro exI [of _ ?f]) (simp add: Put_cases)
qed

end
