(* ===== verification/RateLimit.thy ===== *)
theory RateLimit
  imports Prelude Complex_Main
begin

text \<open>
  The token bucket that limits DHT requests per peer (\<^verbatim>\<open>internal/dht/ratelimit.go\<close>). Tokens are
  exact rationals instead of \<^verbatim>\<open>float64\<close>: rounding is not modelled. The clock is Go's monotonic
  clock, so the times of successive calls do not decrease.
\<close>

record tokenBucket =
  tb_tokens :: rat
  tb_last :: gotime

text \<open>\<^verbatim>\<open>&tokenBucket{}\<close>\<close>

definition newBucket :: tokenBucket where
  "newBucket = \<lparr>tb_tokens = 0, tb_last = zeroTime\<rparr>"

text \<open>\<^verbatim>\<open>t.Sub(s).Seconds()\<close>\<close>

definition seconds_between :: "gotime \<Rightarrow> gotime \<Rightarrow> rat" where
  "seconds_between s t = of_int (t - s) / 1000000000"

definition allow :: "tokenBucket \<Rightarrow> gotime \<Rightarrow> rat \<Rightarrow> rat \<Rightarrow> rat \<Rightarrow> bool \<times> tokenBucket" where
  "allow b now rate burst cost =
     (let b0 = (if IsZero (tb_last b) then \<lparr>tb_tokens = burst, tb_last = now\<rparr> else b);
          elapsed = seconds_between (tb_last b0) now;
          tokens = tb_tokens b0 + elapsed * rate;
          tokens = (if tokens > burst then burst else tokens)
      in if tokens < cost then (False, \<lparr>tb_tokens = tokens, tb_last = now\<rparr>)
         else (True, \<lparr>tb_tokens = tokens - cost, tb_last = now\<rparr>))"

text \<open>The number of granted calls when the bucket is asked at the given times.\<close>

fun granted :: "tokenBucket \<Rightarrow> gotime list \<Rightarrow> rat \<Rightarrow> rat \<Rightarrow> rat \<Rightarrow> nat" where
  "granted b [] rate burst cost = 0"
| "granted b (t # ts) rate burst cost =
     (case allow b t rate burst cost of (ok, b') \<Rightarrow>
        (if ok then 1 else 0) + granted b' ts rate burst cost)"

subsection \<open>The bucket\<close>

lemma seconds_between_simps [simp]: "seconds_between t t = 0"
  "s \<le> t \<Longrightarrow> 0 \<le> seconds_between s t"
  by (simp_all add: seconds_between_def)

lemma seconds_between_add: "seconds_between r s + seconds_between s t = seconds_between r t"
  by (simp add: seconds_between_def add_divide_distrib [symmetric])

definition bucket_inv :: "rat \<Rightarrow> gotime \<Rightarrow> tokenBucket \<Rightarrow> bool" where
  "bucket_inv burst now b \<longleftrightarrow>
     tb_last b = zeroTime \<or> 0 \<le> tb_tokens b \<and> tb_tokens b \<le> burst \<and> tb_last b \<le> now"

lemma bucket_inv_new [simp]: "bucket_inv burst now newBucket"
  by (simp add: bucket_inv_def newBucket_def)

text \<open>One call: the tokens stay between zero and the burst, and never exceed what was left plus what
  the elapsed time refills.\<close>

lemma allow_inv [inv_intros]:
  assumes "bucket_inv burst now b" "0 \<le> rate" "0 < cost" "cost \<le> burst"
  shows "bucket_inv burst now (snd (allow b now rate burst cost))"
  using assms by (auto simp: allow_def bucket_inv_def Let_def IsZero_def)

lemma allow_last [simp]: "tb_last (snd (allow b now rate burst cost)) = now"
  by (simp add: allow_def Let_def)

lemma allow_spend:
  "(if fst (allow b now rate burst cost) then cost else 0) + tb_tokens (snd (allow b now rate burst cost)) \<le> burst"
  by (simp add: allow_def Let_def)

lemma allow_spend_refill:
  assumes "tb_last b \<noteq> zeroTime"
  shows "(if fst (allow b now rate burst cost) then cost else 0) + tb_tokens (snd (allow b now rate burst cost))
    \<le> tb_tokens b + seconds_between (tb_last b) now * rate"
  using assms by (simp add: allow_def Let_def IsZero_def)

lemma granted_spend:
  assumes "bucket_inv burst (tb_last b) b" "tb_last b \<noteq> zeroTime" "0 \<le> rate" "0 < cost" "cost \<le> burst"
    and "sorted (tb_last b # ts)" "zeroTime < tb_last b"
  shows "of_nat (granted b ts rate burst cost) * cost \<le>
    tb_tokens b + seconds_between (tb_last b) (last (tb_last b # ts)) * rate"
  using assms
proof (induction ts arbitrary: b)
  case Nil
  then show ?case by (simp add: bucket_inv_def)
next
  case (Cons t ts)
  let ?r = "allow b t rate burst cost"
  have inv: "bucket_inv burst (tb_last b) b" using Cons.prems(1) .
  have "bucket_inv burst t b" using inv Cons.prems(2,6) by (auto simp: bucket_inv_def)
  then have "bucket_inv burst t (snd ?r)" using Cons.prems(3-5) by (rule allow_inv)
  moreover have "tb_last (snd ?r) = t" by simp
  moreover have t: "zeroTime < t" using Cons.prems(6,7) by auto
  ultimately have IH: "of_nat (granted (snd ?r) ts rate burst cost) * cost \<le>
      tb_tokens (snd ?r) + seconds_between t (last (t # ts)) * rate"
    using Cons.IH [of "snd ?r"] Cons.prems by simp
  have "of_nat (granted b (t # ts) rate burst cost) * cost =
      (if fst ?r then cost else 0) + of_nat (granted (snd ?r) ts rate burst cost) * cost"
    by (simp add: case_prod_unfold algebra_simps)
  also have "\<dots> \<le> (if fst ?r then cost else 0) + tb_tokens (snd ?r) +
      seconds_between t (last (t # ts)) * rate"
    using IH by simp
  also have "\<dots> \<le> tb_tokens b + seconds_between (tb_last b) t * rate +
      seconds_between t (last (t # ts)) * rate"
    using allow_spend_refill [OF Cons.prems(2), of t rate burst cost] by simp
  also have "\<dots> = tb_tokens b + seconds_between (tb_last b) (last (t # ts)) * rate"
    by (simp only: seconds_between_add [of "tb_last b" t "last (t # ts)", symmetric] distrib_right add.assoc)
  finally show ?case by simp
qed

lemma granted_window:
  assumes "bucket_inv burst t b" "0 \<le> rate" "0 < cost" "cost \<le> burst"
    and "sorted (t # ts)" "zeroTime < t"
  shows "of_nat (granted b (t # ts) rate burst cost) * cost \<le>
    burst + seconds_between t (last (t # ts)) * rate"
proof -
  let ?r = "allow b t rate burst cost"
  have inv: "bucket_inv burst t (snd ?r)"
    using assms(1-4) by (rule allow_inv)
  have "of_nat (granted b (t # ts) rate burst cost) * cost =
      (if fst ?r then cost else 0) + of_nat (granted (snd ?r) ts rate burst cost) * cost"
    by (simp add: case_prod_unfold algebra_simps)
  also have "\<dots> \<le> (if fst ?r then cost else 0) + tb_tokens (snd ?r) +
      seconds_between t (last (t # ts)) * rate"
    using granted_spend [of burst "snd ?r" rate cost ts] inv assms by simp
  also have "\<dots> \<le> burst + seconds_between t (last (t # ts)) * rate"
    using allow_spend [of b t rate burst cost] by simp
  finally show ?thesis .
qed

subsection \<open>Properties\<close>

text \<open>In every window of consecutive calls, however many there are, the limiter grants at most
  the burst plus the refill of the window's duration: with the handler's settings (20 per second,
  burst 40, cost 1) at most \<open>40 + 20 * d\<close> requests in \<open>d\<close> seconds.\<close>

lemma rate_limit_window:
  assumes "bucket_inv burst t b" "0 \<le> rate" "0 < cost" "cost \<le> burst"
    and "sorted (t # ts)" "zeroTime < t"
  shows "of_nat (granted b (t # ts) rate burst cost) * cost \<le>
    burst + seconds_between t (last (t # ts)) * rate"
  using assms by (rule granted_window)

text \<open>A peer that has waited for the refill of one request is served: after a pause in which the
  refill reaches the cost, the next call is granted, whatever happened before.\<close>

lemma rate_limit_recovers:
  assumes "bucket_inv burst now b" "0 \<le> rate" "cost \<le> burst"
    and "tb_last b = zeroTime \<or> cost \<le> seconds_between (tb_last b) now * rate"
  shows "fst (allow b now rate burst cost)"
  using assms by (auto simp: allow_def bucket_inv_def Let_def IsZero_def)

end
