(* ===== verification/Rpc.thy ===== *)
theory Rpc
  imports NodeId Messages "HOL-Library.AList"
begin

text \<open>
  The RPC bookkeeping of the DHT (\<^verbatim>\<open>internal/dht/rpc.go\<close> and the response half of
  \<^verbatim>\<open>handler.go\<close>). \<^verbatim>\<open>pending\<close> maps an RPC id to the channel its caller waits on, \<^verbatim>\<open>inflight\<close> counts
  the running queries per peer. \<^verbatim>\<open>pending\<close> is an association list because its length is tested.
  A channel is a number; \<open>chans\<close> holds its one-element buffer.

  The maps have a lock each, so \<^verbatim>\<open>beginRPC\<close> and \<^verbatim>\<open>endRPC\<close> are several critical sections. They are
  composed sequentially in \<open>beginRPC\<close>, \<open>endRPC\<close> and \<open>Query\<close>, and under arbitrary interleaving of
  many queries in the step relation \<open>rpc_step\<close>.
\<close>

subsection \<open>State\<close>

record RpcState =
  pending :: "(string \<times> nat) list"
  inflight :: "string \<Rightarrow> nat"
  chans :: "nat \<Rightarrow> DHTWire option"

definition newRpcState :: RpcState where
  "newRpcState = \<lparr>pending = [], inflight = (\<lambda>_. 0), chans = (\<lambda>_. None)\<rparr>"

definition maxPendingRPCs :: nat where "maxPendingRPCs = 2048"
definition maxInflightPerPeer :: nat where "maxInflightPerPeer = 4"

subsection \<open>Critical sections\<close>

text \<open>Lines 22 to 28 of \<^verbatim>\<open>rpc.go\<close>.\<close>

definition begin_pending :: "string \<Rightarrow> nat \<Rightarrow> RpcState \<Rightarrow> dht_error option \<times> RpcState" where
  "begin_pending rpcid ch s =
     (if length (pending s) \<ge> maxPendingRPCs then (Some ErrTooManyPending, s)
      else (None, s\<lparr>pending := AList.update rpcid ch (pending s)\<rparr>))"

text \<open>Lines 31 to 41.\<close>

definition begin_inflight :: "string \<Rightarrow> RpcState \<Rightarrow> bool \<times> RpcState" where
  "begin_inflight peerID s =
     (if inflight s peerID \<ge> maxInflightPerPeer then (False, s)
      else (True, s\<lparr>inflight := (inflight s)(peerID := inflight s peerID + 1)\<rparr>))"

definition delete_pending :: "string \<Rightarrow> RpcState \<Rightarrow> RpcState" where
  "delete_pending rpcid s = s\<lparr>pending := AList.delete rpcid (pending s)\<rparr>"

definition beginRPC :: "string \<Rightarrow> string \<Rightarrow> nat \<Rightarrow> RpcState \<Rightarrow> dht_error option \<times> RpcState" where
  "beginRPC peerID rpcid ch s =
     (case begin_pending rpcid ch s of
        (Some e, s1) \<Rightarrow> (Some e, s1)
      | (None, s1) \<Rightarrow>
          (case begin_inflight peerID s1 of
             (False, s2) \<Rightarrow> (Some ErrPeerOverloaded, delete_pending rpcid s2)
           | (True, s2) \<Rightarrow> (None, s2)))"

definition end_inflight :: "string \<Rightarrow> RpcState \<Rightarrow> RpcState" where
  "end_inflight peerID s =
     (if inflight s peerID > 0
      then s\<lparr>inflight := (inflight s)(peerID := inflight s peerID - 1)\<rparr> else s)"

definition endRPC :: "string \<Rightarrow> string \<Rightarrow> RpcState \<Rightarrow> RpcState" where
  "endRPC peerID rpcid s = delete_pending rpcid (end_inflight peerID s)"

subsection \<open>Delivering a response\<close>

definition is_response :: "DHTWire \<Rightarrow> bool" where
  "is_response w \<longleftrightarrow> w_RPCID w \<noteq> [] \<and>
     (w_Kind w = ''NODES'' \<or> w_Kind w = ''PONG'' \<or> w_Kind w = ''VALUE'' \<or> w_Kind w = ''STORE_RESULT'')"

text \<open>Lines 34 to 49 of \<^verbatim>\<open>handler.go\<close>: \<open>True\<close> when a waiter took the message. The send does not block:
  a full buffer drops the message.\<close>

definition deliver :: "DHTWire \<Rightarrow> RpcState \<Rightarrow> bool \<times> RpcState" where
  "deliver w s =
     (if is_response w then
        (case map_of (pending s) (w_RPCID w) of
           None \<Rightarrow> (False, s)
         | Some ch \<Rightarrow>
             let s1 = delete_pending (w_RPCID w) s
             in (True, if chans s1 ch = None then s1\<lparr>chans := (chans s1)(ch \<mapsto> w)\<rparr> else s1))
      else (False, s))"

subsection \<open>Queries\<close>

text \<open>The common body of the four \<^verbatim>\<open>Query\<close> functions: \<open>send\<close> is the result of \<^verbatim>\<open>SendToPeer\<close>, \<open>wait\<close> what
  happens to the shared state while the query waits, \<open>timer\<close> whether the timer wins the select. The
  result is the response or the error, and the request that was sent.\<close>

definition Query ::
  "string \<Rightarrow> string \<Rightarrow> nat \<Rightarrow> DHTWire \<Rightarrow> (Envelope \<Rightarrow> dht_error option) \<Rightarrow> string \<Rightarrow>
     (RpcState \<Rightarrow> RpcState) \<Rightarrow> bool \<Rightarrow> RpcState \<Rightarrow> (dht_error + DHTWire) \<times> RpcState" where
  "Query peerID rpcid ch req send selfID wait timer s =
     (case beginRPC peerID rpcid ch (s\<lparr>chans := (chans s)(ch := None)\<rparr>) of
        (Some e, s1) \<Rightarrow> (Inl e, s1)
      | (None, s1) \<Rightarrow>
          (case send \<lparr>env_Type = MsgDHT, env_FromID = selfID, env_Payload = P_dht req\<rparr> of
             Some e \<Rightarrow> (Inl e, endRPC peerID rpcid s1)
           | None \<Rightarrow>
               let s2 = wait s1
               in (case chans s2 ch of
                     Some resp \<Rightarrow> if timer then Inl DeadlineExceeded else Inr resp
                   | None \<Rightarrow> Inl DeadlineExceeded,
                   endRPC peerID rpcid s2)))"

definition QueryFindNode where
  "QueryFindNode peerID targetHex rpcid ch =
     Query peerID rpcid ch (zeroWire\<lparr>w_Kind := ''FIND_NODE'', w_RPCID := rpcid, w_Target := targetHex\<rparr>)"

definition QueryPing where
  "QueryPing peerID rpcid ch = Query peerID rpcid ch (zeroWire\<lparr>w_Kind := ''PING'', w_RPCID := rpcid\<rparr>)"

definition QueryFindValue where
  "QueryFindValue peerID keyHex rpcid ch =
     Query peerID rpcid ch (zeroWire\<lparr>w_Kind := ''FIND_VALUE'', w_RPCID := rpcid, w_Key := keyHex\<rparr>)"

definition QueryStore where
  "QueryStore peerID keyHex r rpcid ch =
     Query peerID rpcid ch
       (zeroWire\<lparr>w_Kind := ''STORE'', w_RPCID := rpcid, w_Key := keyHex, w_Record := Some r\<rparr>)"

text \<open>\<^verbatim>\<open>newRPCID\<close>: 16 random bytes in hex.\<close>

definition newRPCID :: "bytes \<Rightarrow> string" where
  "newRPCID random = EncodeToString (take 16 random)"

subsection \<open>Interleaved queries\<close>

text \<open>Where a running query stands between its critical sections.\<close>

datatype query_pc = Registered | Rejected | Running | Ending

record query =
  q_peer :: string
  q_rpcid :: string
  q_pc :: query_pc

type_synonym rpc_config = "RpcState \<times> query multiset"

abbreviation at_pc :: "string \<Rightarrow> string \<Rightarrow> query_pc \<Rightarrow> query" where
  "at_pc p i pc \<equiv> \<lparr>q_peer = p, q_rpcid = i, q_pc = pc\<rparr>"

text \<open>RPC ids are 128 random bits; two queries that run at the same time have different ones.\<close>

inductive rpc_step :: "rpc_config \<Rightarrow> rpc_config \<Rightarrow> bool" where
  refused: "begin_pending i ch s = (Some e, s') \<Longrightarrow> rpc_step (s, Q) (s', Q)"
| registered: "begin_pending i ch s = (None, s') \<Longrightarrow> i \<notin> q_rpcid ` set_mset Q \<Longrightarrow>
    rpc_step (s, Q) (s', Q + {#at_pc p i Registered#})"
| admitted: "begin_inflight p s = (True, s') \<Longrightarrow>
    rpc_step (s, Q + {#at_pc p i Registered#}) (s', Q + {#at_pc p i Running#})"
| turned_away: "begin_inflight p s = (False, s') \<Longrightarrow>
    rpc_step (s, Q + {#at_pc p i Registered#}) (s', Q + {#at_pc p i Rejected#})"
| undone: "rpc_step (s, Q + {#at_pc p i Rejected#}) (delete_pending i s, Q)"
| response: "deliver w s = (b, s') \<Longrightarrow> rpc_step (s, Q) (s', Q)"
| finishing: "rpc_step (s, Q + {#at_pc p i Running#}) (end_inflight p s, Q + {#at_pc p i Ending#})"
| finished: "rpc_step (s, Q + {#at_pc p i Ending#}) (delete_pending i s, Q)"

inductive rpc_reach :: "rpc_config \<Rightarrow> bool" where
  init: "rpc_reach (newRpcState, {#})"
| step: "rpc_reach c \<Longrightarrow> rpc_step c c' \<Longrightarrow> rpc_reach c'"

subsection \<open>Sequential behaviour\<close>

lemmas rpc_defs = begin_pending_def begin_inflight_def delete_pending_def end_inflight_def

lemma delete_pending_simps [simp]:
  "inflight (delete_pending i s) = inflight s" "chans (delete_pending i s) = chans s"
  "map_of (pending (delete_pending i s)) = (map_of (pending s))(i := None)"
  by (simp_all add: delete_pending_def delete_conv')

lemma end_inflight_simps [simp]:
  "pending (end_inflight p s) = pending s" "chans (end_inflight p s) = chans s"
  by (simp_all add: end_inflight_def)

lemma beginRPC_cases:
  "beginRPC p i ch s =
     (if length (pending s) \<ge> maxPendingRPCs then (Some ErrTooManyPending, s)
      else if inflight s p \<ge> maxInflightPerPeer
      then (Some ErrPeerOverloaded, s\<lparr>pending := AList.delete i (pending s)\<rparr>)
      else (None, s\<lparr>pending := AList.update i ch (pending s),
                    inflight := (inflight s)(p := inflight s p + 1)\<rparr>))"
proof -
  have "AList.delete i (AList.update i ch xs) = AList.delete i xs" for xs :: "(string \<times> nat) list"
    by (induction xs) auto
  then show ?thesis by (simp add: beginRPC_def rpc_defs)
qed

subsection \<open>Responses that arrive while a query waits\<close>

lemma deliver_keeps_chan: "chans s ch = Some w \<Longrightarrow> chans (snd (deliver v s)) ch = Some w"
  by (auto simp: deliver_def Let_def split: option.splits)

lemma deliver_all_keeps_chan:
  "chans s ch = Some w \<Longrightarrow> chans (fold (\<lambda>w s. snd (deliver w s)) ws s) ch = Some w"
  by (induction ws arbitrary: s) (auto simp: deliver_keeps_chan)

lemma deliver_all_inflight: "inflight (fold (\<lambda>w s. snd (deliver w s)) ws s) = inflight s"
proof (induction ws arbitrary: s)
  case (Cons w ws)
  have "inflight (snd (deliver w s)) = inflight s"
    by (auto simp: deliver_def Let_def split: option.splits)
  with Cons show ?case by simp
qed simp

text \<open>The channel of a pending query receives the first response that carries its id.\<close>

lemma deliver_all_chan:
  assumes "chans s ch = None" "map_of (pending s) i = Some ch"
    and "\<forall>j. map_of (pending s) j = Some ch \<longrightarrow> j = i"
  shows "chans (fold (\<lambda>w s. snd (deliver w s)) ws s) ch = find (\<lambda>w. is_response w \<and> w_RPCID w = i) ws"
  using assms
proof (induction ws arbitrary: s)
  case (Cons w ws)
  show ?case
  proof (cases "is_response w \<and> w_RPCID w = i")
    case True
    then have "chans (snd (deliver w s)) ch = Some w"
      using Cons.prems(1,2) by (simp add: deliver_def Let_def)
    with True show ?thesis by (simp add: deliver_all_keeps_chan)
  next
    case False
    let ?s = "snd (deliver w s)"
    have m: "map_of (pending ?s) j =
        (if is_response w \<and> j = w_RPCID w then None else map_of (pending s) j)" for j
      by (auto simp: deliver_def Let_def split: option.splits)
    have "chans ?s ch = None"
      using False Cons.prems(1) Cons.prems(3) [rule_format, of "w_RPCID w"]
      by (auto simp: deliver_def Let_def split: option.splits)
    moreover have "map_of (pending ?s) i = Some ch"
      using m False Cons.prems(2) by metis
    moreover have "\<forall>j. map_of (pending ?s) j = Some ch \<longrightarrow> j = i"
      using m Cons.prems(3) by (metis option.distinct(1))
    ultimately have "chans (fold (\<lambda>w s. snd (deliver w s)) ws ?s) ch =
        find (\<lambda>w. is_response w \<and> w_RPCID w = i) ws"
      by (rule Cons.IH)
    with False show ?thesis by (simp only: fold.simps comp_apply find.simps if_False)
  qed
next
  case Nil
  show ?case by (simp add: Nil.prems(1))
qed

subsection \<open>The invariant of interleaved queries\<close>

definition running :: "query multiset \<Rightarrow> string \<Rightarrow> nat" where
  "running Q p = size (filter_mset (\<lambda>q. q_peer q = p \<and> q_pc q = Running) Q)"

definition ids_unique :: "query multiset \<Rightarrow> bool" where
  "ids_unique Q \<longleftrightarrow> (\<forall>i. count (image_mset q_rpcid Q) i \<le> 1)"

definition pending_ids :: "RpcState \<Rightarrow> string set" where
  "pending_ids s = fst ` set (pending s)"

definition rpc_inv :: "rpc_config \<Rightarrow> bool" where
  "rpc_inv c \<longleftrightarrow> (case c of (s, Q) \<Rightarrow>
     distinct (map fst (pending s)) \<and> length (pending s) \<le> maxPendingRPCs \<and>
     pending_ids s \<subseteq> q_rpcid ` set_mset Q \<and> ids_unique Q \<and>
     (\<forall>p. inflight s p = running Q p) \<and> (\<forall>p. inflight s p \<le> maxInflightPerPeer))"

lemma rpc_invD:
  assumes "rpc_inv (s, Q)"
  shows "inflight s p = running Q p" "inflight s p \<le> maxInflightPerPeer"
  using assms unfolding rpc_inv_def prod.case by blast+

lemma running_add [simp]:
  "running (add_mset q Q) p = running Q p + (if q_peer q = p \<and> q_pc q = Running then 1 else 0)"
  "running {#} p = 0"
  by (simp_all add: running_def)

lemma ids_unique_add [simp]:
  "ids_unique (add_mset q Q) \<longleftrightarrow> ids_unique Q \<and> q_rpcid q \<notin> q_rpcid ` set_mset Q"
proof -
  have "count (image_mset q_rpcid Q) (q_rpcid q) = 0 \<longleftrightarrow> q_rpcid q \<notin> q_rpcid ` set_mset Q"
    by (simp only: count_eq_zero_iff set_image_mset)
  then show ?thesis
    by (auto simp: ids_unique_def le_Suc_eq split: if_splits)
qed

lemma pending_ids_simps [simp]:
  "pending_ids (delete_pending i s) = pending_ids s - {i}"
  "pending_ids (end_inflight p s) = pending_ids s"
  "pending_ids (s\<lparr>pending := AList.update i ch (pending s)\<rparr>) = insert i (pending_ids s)"
  "pending_ids (s\<lparr>inflight := f\<rparr>) = pending_ids s"
  by (force simp: pending_ids_def delete_pending_def AList.delete_eq dom_update)+

lemma delete_pending_length: "length (pending (delete_pending i s)) \<le> length (pending s)"
  by (simp add: delete_pending_def length_delete_le)

lemma rpc_inv_delete:
  assumes "distinct (map fst (pending s))"
  shows "distinct (map fst (pending (delete_pending i s)))"
  using assms by (simp add: delete_pending_def distinct_delete)

lemma update_pending_length:
  "length (AList.update i ch xs) \<le> Suc (length xs)"
  by (induction xs) auto

lemma deliver_frame:
  assumes "deliver w s = (b, s')"
  shows "inflight s' = inflight s"
    and "pending s' = pending s \<and> pending_ids s' = pending_ids s \<or>
      pending s' = pending (delete_pending (w_RPCID w) s) \<and> pending_ids s' = pending_ids s - {w_RPCID w}"
  using assms by (auto simp: deliver_def Let_def pending_ids_def delete_pending_def AList.delete_eq
      split: if_splits option.splits)

lemma rpc_step_inv:
  assumes "rpc_step c c'" "rpc_inv c"
  shows "rpc_inv c'"
  using assms
proof (induction rule: rpc_step.induct)
  case (registered i ch s s' Q p)
  then have s': "s' = s\<lparr>pending := AList.update i ch (pending s)\<rparr>" "length (pending s) < maxPendingRPCs"
    by (auto simp: begin_pending_def split: if_splits)
  then have "length (pending s') \<le> maxPendingRPCs"
    using s' update_pending_length [of i ch "pending s"] by simp
  then show ?case
    using registered s'(1) by (auto simp: rpc_inv_def distinct_update)
next
  case (response w s b s' Q)
  then show ?case
    using deliver_frame [OF response.hyps] delete_pending_length [of "w_RPCID w" s]
    by (auto simp: rpc_inv_def rpc_inv_delete)
next
  case (undone s Q p i)
  then show ?case
    using delete_pending_length [of i s]
    by (auto simp: rpc_inv_def rpc_inv_delete)
next
  case (finishing s Q p i)
  note run = rpc_invD [OF finishing]
  have "inflight (end_inflight p s) p' = running Q p'" for p'
    using run(1) [of p'] by (auto simp: end_inflight_def split: if_splits)
  moreover have "inflight (end_inflight p s) p' \<le> maxInflightPerPeer" for p'
    using run(2) [of p'] by (auto simp: end_inflight_def)
  ultimately show ?case
    using finishing by (simp add: rpc_inv_def)
next
  case (finished s Q p i)
  then show ?case
    using delete_pending_length [of i s]
    by (auto simp: rpc_inv_def rpc_inv_delete)
qed (auto simp: rpc_inv_def begin_pending_def begin_inflight_def end_inflight_def le_diff_conv split: if_splits)

lemma rpc_reach_inv: "rpc_reach c \<Longrightarrow> rpc_inv c"
proof (induction rule: rpc_reach.induct)
  case init
  show ?case by (simp add: rpc_inv_def newRpcState_def ids_unique_def pending_ids_def)
qed (rule rpc_step_inv)

subsection \<open>Properties\<close>

text \<open>C12: under every interleaving of any number of queries with responses, the tables keep their
  bounds: at most 2048 pending RPCs, at most four running queries per peer, and the counter of a
  peer is exactly the number of its running queries.\<close>

theorem rpc_tables_bounded:
  assumes "rpc_reach (s, Q)"
  shows "length (pending s) \<le> 2048 \<and> (\<forall>p. inflight s p \<le> 4 \<and> inflight s p = running Q p)"
  using rpc_reach_inv [OF assms]
  by (auto simp: rpc_inv_def maxPendingRPCs_def maxInflightPerPeer_def)

lemma sample_rpc_reach:
  "rpc_reach (newRpcState\<lparr>pending := [(''id'', 0)], inflight := (inflight newRpcState)(''peer'' := 1)\<rparr>,
     {#at_pc ''peer'' ''id'' Running#})"
proof -
  let ?s = "newRpcState\<lparr>pending := [(''id'', 0)]\<rparr>"
  have "begin_pending ''id'' 0 newRpcState = (None, ?s)"
    by (simp add: begin_pending_def newRpcState_def maxPendingRPCs_def)
  from rpc_reach.step [OF rpc_reach.init rpc_step.registered [OF this, where Q = "{#}" and p = "''peer''"]]
  have "rpc_reach (?s, {#} + {#at_pc ''peer'' ''id'' Registered#})" by simp
  moreover have "begin_inflight ''peer'' ?s =
      (True, ?s\<lparr>inflight := (inflight newRpcState)(''peer'' := 1)\<rparr>)"
    by (simp add: begin_inflight_def newRpcState_def maxInflightPerPeer_def)
  ultimately have "rpc_reach (?s\<lparr>inflight := (inflight newRpcState)(''peer'' := 1)\<rparr>,
      {#} + {#at_pc ''peer'' ''id'' Running#})"
    by (rule rpc_reach.step [OF _ rpc_step.admitted])
  then show ?thesis by simp
qed

theorem rpc_tables_bounded_witness:
  "length (pending (newRpcState\<lparr>pending := [(''id'', 0)], inflight := (inflight newRpcState)(''peer'' := 1)\<rparr>))
     \<le> 2048"
  using rpc_tables_bounded [OF sample_rpc_reach] by simp

text \<open>Nothing leaks: when every query has returned (with a response, a timeout, a send error or a
  refusal), no RPC is pending and every per-peer counter is zero, whatever responses arrived and
  in whatever order.\<close>

lemma rpc_no_leak:
  assumes "rpc_reach (s, {#})"
  shows "pending s = [] \<and> inflight s = (\<lambda>_. 0)"
  using rpc_reach_inv [OF assms] by (auto simp: rpc_inv_def pending_ids_def)

text \<open>C34: one query, every outcome: it is refused when a bound is reached; a send error is reported;
  otherwise, if the responses \<open>ws\<close> arrive while it waits, it returns the first of them that carries
  its id, and times out if there is none or if the timer fires first. In every case its id is no longer
  pending afterwards.\<close>

theorem query_outcomes:
  assumes "i \<notin> fst ` set (pending s)" "ch \<notin> snd ` set (pending s)"
  shows "case Query p i ch req send self (fold (\<lambda>w s. snd (deliver w s)) ws) timer s of (res, s') \<Rightarrow>
    res = (if length (pending s) \<ge> 2048 then Inl ErrTooManyPending
           else if inflight s p \<ge> 4 then Inl ErrPeerOverloaded
           else case send \<lparr>env_Type = MsgDHT, env_FromID = self, env_Payload = P_dht req\<rparr> of
             Some e \<Rightarrow> Inl e
           | None \<Rightarrow> (case find (\<lambda>w. is_response w \<and> w_RPCID w = i) ws of
               Some w \<Rightarrow> if timer then Inl DeadlineExceeded else Inr w
             | None \<Rightarrow> Inl DeadlineExceeded)) \<and>
    i \<notin> fst ` set (pending s') \<and> inflight s' = inflight s"
proof -
  let ?s0 = "s\<lparr>chans := (chans s)(ch := None)\<rparr>"
  let ?s1 = "?s0\<lparr>pending := AList.update i ch (pending s), inflight := (inflight s)(p := inflight s p + 1)\<rparr>"
  let ?s2 = "fold (\<lambda>w s. snd (deliver w s)) ws ?s1"
  have only: "\<forall>j. map_of (pending ?s1) j = Some ch \<longrightarrow> j = i"
    using assms(2) by (auto simp: update_conv' image_iff dest!: map_of_SomeD split: if_splits)
  have "chans ?s2 ch = find (\<lambda>w. is_response w \<and> w_RPCID w = i) ws"
    by (rule deliver_all_chan [OF _ _ only]) (simp_all add: update_conv')
  moreover have "inflight (endRPC p i ?s1) = inflight s" "inflight (endRPC p i ?s2) = inflight s"
    by (simp_all add: endRPC_def end_inflight_def deliver_all_inflight)
  moreover have "i \<notin> fst ` set (pending (endRPC p i t))" for t
    unfolding pending_ids_def [symmetric] by (simp add: endRPC_def)
  moreover have "i \<notin> fst ` set (AList.delete i (pending s))"
    using assms(1) by (auto simp: AList.delete_eq)
  ultimately show ?thesis
    using assms(1)
    by (simp add: Query_def beginRPC_cases maxPendingRPCs_def maxInflightPerPeer_def Let_def
        split: option.splits)
qed

theorem query_outcomes_witness:
  "fst (Query ''peer'' ''id'' 0 zeroWire (\<lambda>_. None) ''me''
     (fold (\<lambda>w s. snd (deliver w s)) [zeroWire\<lparr>w_Kind := ''PONG'', w_RPCID := ''id''\<rparr>]) False newRpcState) =
   Inr (zeroWire\<lparr>w_Kind := ''PONG'', w_RPCID := ''id''\<rparr>)"
  using query_outcomes [where i = "''id''" and s = newRpcState and ch = 0 and p = "''peer''" and req = zeroWire
      and send = "\<lambda>_. None" and self = "''me''" and timer = False
      and ws = "[zeroWire\<lparr>w_Kind := ''PONG'', w_RPCID := ''id''\<rparr>]"]
  by (simp add: newRpcState_def is_response_def split: prod.splits)

end
