(* ===== verification/NodeStore.thy ===== *)
theory NodeStore
  imports Prelude
begin

text \<open>
  The two address books: the DHT's node store (\<^verbatim>\<open>internal/dht/store.go\<close>) and the peer store of the
  discovery package (\<^verbatim>\<open>internal/discovery/peerstore.go\<close>). Both count consecutive failures per key,
  offer the addresses with few failures for dialling, and write themselves to a JSON file after every
  change. The file is the list of records it encodes (\<open>None\<close>: missing or unreadable); a write may
  fail, and then the old content stays (\<^verbatim>\<open>os.Rename\<close> of a temporary file).

  The shared contract is the locale \<open>address_book\<close>, interpreted on both stores.
\<close>

subsection \<open>The contract\<close>

locale address_book =
  fixes failures :: "'s \<Rightarrow> 'k \<rightharpoonup> int"
    and success :: "'k \<Rightarrow> 'a \<Rightarrow> 's \<Rightarrow> 's"
    and failure :: "'k \<Rightarrow> 'a \<Rightarrow> 's \<Rightarrow> 's"
  assumes failures_success: "failures (success k a s) = (failures s)(k \<mapsto> 0)"
    and failures_failure: "failures (failure k a s) =
      (failures s)(k \<mapsto> (case failures s k of None \<Rightarrow> 0 | Some n \<Rightarrow> n) + 1)"
begin

text \<open>A history is a list of dial results, oldest first.\<close>

definition replay :: "('k \<times> 'a \<times> bool) list \<Rightarrow> 's \<Rightarrow> 's" where
  "replay h s = fold (\<lambda>(k, a, ok). if ok then success k a else failure k a) h s"

text \<open>The failures of \<open>k\<close> since its last success.\<close>

definition streak :: "'k \<Rightarrow> ('k \<times> 'a \<times> bool) list \<Rightarrow> nat" where
  "streak k h = length (takeWhile (\<lambda>(_, _, ok). \<not> ok) (rev (filter (\<lambda>(k', _). k' = k) h)))"

lemma replay_snoc:
  "replay (h @ [(k, a, ok)]) s = (if ok then success k a (replay h s) else failure k a (replay h s))"
  by (simp add: replay_def)

lemma streak_snoc:
  "streak k (h @ [(k', a, ok)]) = (if k' = k then if ok then 0 else Suc (streak k h) else streak k h)"
  by (simp add: streak_def)

text \<open>The recorded count is the streak; a key is known once it has been tried.\<close>

lemma failures_replay:
  assumes "failures s = Map.empty"
  shows "failures (replay h s) k = (if k \<in> fst ` set h then Some (int (streak k h)) else None)"
proof (induction h rule: rev_induct)
  case Nil
  then show ?case using assms by (simp add: replay_def)
next
  case (snoc x h)
  obtain k' a ok where x: "x = (k', a, ok)" by (cases x)
  have "streak k h = 0" if "k \<notin> fst ` set h"
  proof -
    have "filter (\<lambda>(k', _). k' = k) h = []" using that by (force simp: filter_empty_conv)
    then show ?thesis by (simp add: streak_def)
  qed
  with snoc x show ?case
    by (auto simp: replay_snoc streak_snoc failures_success failures_failure image_iff)
qed

text \<open>When every key is tried at most once, the order of the results does not matter.\<close>

lemma failures_distinct:
  "distinct (map fst h) \<Longrightarrow> failures (replay h s) k =
     (case map_of h k of
        None \<Rightarrow> failures s k
      | Some (a, ok) \<Rightarrow> Some (if ok then 0 else (case failures s k of None \<Rightarrow> 0 | Some n \<Rightarrow> n) + 1))"
proof (induction h arbitrary: s)
  case (Cons x h)
  obtain k' a ok where x: "x = (k', a, ok)" by (cases x)
  then have "map_of h k' = None"
    using Cons.prems by (simp add: map_of_eq_None_iff)
  then show ?case
    using Cons x by (auto simp: replay_def failures_success failures_failure split: option.splits)
qed (simp add: replay_def)

end

subsection \<open>The node store of the DHT\<close>

record nodeRecord =
  nr_NodeID :: string
  nr_Addr :: string
  nr_Name :: string
  nr_LastSeen :: gotime
  nr_LastSuccess :: gotime
  nr_FailureCount :: int

record Store =
  st_nodes :: "string \<rightharpoonup> nodeRecord"
  st_file :: "nodeRecord list option"

definition new_record :: "string \<Rightarrow> nodeRecord" where
  "new_record nodeID = \<lparr>nr_NodeID = nodeID, nr_Addr = [], nr_Name = [], nr_LastSeen = zeroTime,
     nr_LastSuccess = zeroTime, nr_FailureCount = 0\<rparr>"

definition load_nodes :: "nodeRecord list option \<Rightarrow> string \<rightharpoonup> nodeRecord" where
  "load_nodes file =
     (case file of
        None \<Rightarrow> Map.empty
      | Some recs \<Rightarrow>
          fold (\<lambda>r m. if nr_NodeID r = [] \<or> nr_Addr r = [] then m else m(nr_NodeID r \<mapsto> r))
            recs Map.empty)"

definition NewStore :: "nodeRecord list option \<Rightarrow> Store" where
  "NewStore file = \<lparr>st_nodes = load_nodes file, st_file = file\<rparr>"

text \<open>\<open>ks\<close> is the iteration order of the map, \<open>wr\<close> whether the write succeeds.\<close>

definition save :: "string list \<Rightarrow> bool \<Rightarrow> Store \<Rightarrow> Store" where
  "save ks wr s =
     (let recs = filter (\<lambda>r. nr_NodeID r \<noteq> [] \<and> nr_Addr r \<noteq> []) (List.map_filter (st_nodes s) ks);
          recs = sort_slice (\<lambda>a b. nr_NodeID a < nr_NodeID b) recs
      in if wr then s\<lparr>st_file := Some recs\<rparr> else s)"

definition note_success :: "string \<Rightarrow> string \<Rightarrow> string \<Rightarrow> gotime \<Rightarrow> Store \<Rightarrow> Store" where
  "note_success nodeID addr name now s =
     (let r = (case st_nodes s nodeID of None \<Rightarrow> new_record nodeID | Some r \<Rightarrow> r)
      in s\<lparr>st_nodes := (st_nodes s)(nodeID \<mapsto>
           r\<lparr>nr_Addr := addr, nr_Name := name, nr_LastSeen := now, nr_LastSuccess := now,
             nr_FailureCount := 0\<rparr>)\<rparr>)"

definition NoteSuccess ::
  "string list \<Rightarrow> bool \<Rightarrow> string \<Rightarrow> string \<Rightarrow> string \<Rightarrow> gotime \<Rightarrow> Store \<Rightarrow> Store" where
  "NoteSuccess ks wr nodeID addr name now s = save ks wr (note_success nodeID addr name now s)"

definition note_failure :: "string \<Rightarrow> gotime \<Rightarrow> Store \<Rightarrow> Store" where
  "note_failure nodeID now s =
     (let r = (case st_nodes s nodeID of None \<Rightarrow> new_record nodeID | Some r \<Rightarrow> r)
      in s\<lparr>st_nodes := (st_nodes s)(nodeID \<mapsto>
           r\<lparr>nr_LastSeen := now, nr_FailureCount := nr_FailureCount r + 1\<rparr>)\<rparr>)"

definition NoteFailure :: "string list \<Rightarrow> bool \<Rightarrow> string \<Rightarrow> gotime \<Rightarrow> Store \<Rightarrow> Store" where
  "NoteFailure ks wr nodeID now s = save ks wr (note_failure nodeID now s)"

text \<open>\<^verbatim>\<open>Candidates\<close>: the comparison of the sort, and the loop that drops repeated addresses.\<close>

definition cand_less :: "nodeRecord \<Rightarrow> nodeRecord \<Rightarrow> bool" where
  "cand_less a b =
     (if nr_LastSuccess a \<noteq> nr_LastSuccess b then nr_LastSuccess a > nr_LastSuccess b
      else nr_FailureCount a < nr_FailureCount b)"

fun dedupe_addrs :: "string set \<Rightarrow> string list \<Rightarrow> string list" where
  "dedupe_addrs seen [] = []"
| "dedupe_addrs seen (a # as) =
     (if a = [] \<or> a \<in> seen then dedupe_addrs seen as else a # dedupe_addrs (insert a seen) as)"

definition cand_window :: "string list \<Rightarrow> int \<Rightarrow> int \<Rightarrow> Store \<Rightarrow> nodeRecord list" where
  "cand_window ks maxFailures limit s =
     (let cs = filter (\<lambda>r. \<not> (nr_Addr r = [] \<or> nr_NodeID r = []) \<and> \<not> nr_FailureCount r > maxFailures)
                 (List.map_filter (st_nodes s) ks);
          cs = sort_slice cand_less cs
      in if limit > 0 \<and> int (length cs) > limit then take (nat limit) cs else cs)"

definition Candidates :: "string list \<Rightarrow> int \<Rightarrow> int \<Rightarrow> Store \<Rightarrow> string list" where
  "Candidates ks maxFailures limit s = dedupe_addrs {} (map nr_Addr (cand_window ks maxFailures limit s))"

subsection \<open>The peer store of the discovery package\<close>

record peerRecord =
  pr_Addr :: string
  pr_LastSeen :: gotime
  pr_LastSuccess :: gotime
  pr_FailureCount :: int

record PeerStore =
  ps_peers :: "string \<rightharpoonup> peerRecord"
  ps_file :: "peerRecord list option"

definition load_peers :: "peerRecord list option \<Rightarrow> string \<rightharpoonup> peerRecord" where
  "load_peers file =
     (case file of
        None \<Rightarrow> Map.empty
      | Some recs \<Rightarrow> fold (\<lambda>r m. m(pr_Addr r \<mapsto> r)) recs Map.empty)"

definition NewPeerStore :: "peerRecord list option \<Rightarrow> PeerStore" where
  "NewPeerStore file = \<lparr>ps_peers = load_peers file, ps_file = file\<rparr>"

definition save_peers :: "string list \<Rightarrow> bool \<Rightarrow> PeerStore \<Rightarrow> PeerStore" where
  "save_peers ks wr s = (if wr then s\<lparr>ps_file := Some (List.map_filter (ps_peers s) ks)\<rparr> else s)"

definition new_peer :: "string \<Rightarrow> peerRecord" where
  "new_peer addr = \<lparr>pr_Addr = addr, pr_LastSeen = zeroTime, pr_LastSuccess = zeroTime, pr_FailureCount = 0\<rparr>"

definition peer_success :: "string \<Rightarrow> gotime \<Rightarrow> PeerStore \<Rightarrow> PeerStore" where
  "peer_success addr now s =
     (let r = (case ps_peers s addr of None \<Rightarrow> new_peer addr | Some r \<Rightarrow> r)
      in s\<lparr>ps_peers := (ps_peers s)(addr \<mapsto>
           r\<lparr>pr_LastSeen := now, pr_LastSuccess := now, pr_FailureCount := 0\<rparr>)\<rparr>)"

definition NotePeerSuccess :: "string list \<Rightarrow> bool \<Rightarrow> string \<Rightarrow> gotime \<Rightarrow> PeerStore \<Rightarrow> PeerStore" where
  "NotePeerSuccess ks wr addr now s = save_peers ks wr (peer_success addr now s)"

definition peer_failure :: "string \<Rightarrow> gotime \<Rightarrow> PeerStore \<Rightarrow> PeerStore" where
  "peer_failure addr now s =
     (let r = (case ps_peers s addr of None \<Rightarrow> new_peer addr | Some r \<Rightarrow> r)
      in s\<lparr>ps_peers := (ps_peers s)(addr \<mapsto>
           r\<lparr>pr_LastSeen := now, pr_FailureCount := pr_FailureCount r + 1\<rparr>)\<rparr>)"

definition NotePeerFailure :: "string list \<Rightarrow> bool \<Rightarrow> string \<Rightarrow> gotime \<Rightarrow> PeerStore \<Rightarrow> PeerStore" where
  "NotePeerFailure ks wr addr now s = save_peers ks wr (peer_failure addr now s)"

definition peer_candidates :: "string list \<Rightarrow> int \<Rightarrow> PeerStore \<Rightarrow> string list" where
  "peer_candidates ks maxFailures s =
     filter (\<lambda>addr. case ps_peers s addr of
                      None \<Rightarrow> False
                    | Some r \<Rightarrow> \<not> pr_FailureCount r > maxFailures) ks"

subsection \<open>Both stores keep the contract\<close>

definition node_failures :: "Store \<Rightarrow> string \<rightharpoonup> int" where
  "node_failures s k = map_option nr_FailureCount (st_nodes s k)"

definition peer_failures :: "PeerStore \<Rightarrow> string \<rightharpoonup> int" where
  "peer_failures s k = map_option pr_FailureCount (ps_peers s k)"

lemma save_nodes [simp]: "st_nodes (save ks wr s) = st_nodes s"
  by (simp add: save_def Let_def)

lemma save_peers_peers [simp]: "ps_peers (save_peers ks wr s) = ps_peers s"
  by (simp add: save_peers_def)

text \<open>The extra arguments of an update: address, name, time, and the behaviour of the write.\<close>

type_synonym note_args = "string \<times> string \<times> gotime \<times> string list \<times> bool"

definition book_success :: "string \<Rightarrow> note_args \<Rightarrow> Store \<Rightarrow> Store" where
  "book_success k = (\<lambda>(addr, name, now, ks, wr). NoteSuccess ks wr k addr name now)"

definition book_failure :: "string \<Rightarrow> note_args \<Rightarrow> Store \<Rightarrow> Store" where
  "book_failure k = (\<lambda>(addr, name, now, ks, wr). NoteFailure ks wr k now)"

interpretation node_book: address_book node_failures book_success book_failure
  by unfold_locales
    (auto simp: node_failures_def book_success_def book_failure_def NoteSuccess_def NoteFailure_def
      note_success_def note_failure_def new_record_def Let_def fun_eq_iff split: option.splits)

definition dial_success :: "string \<Rightarrow> gotime \<times> string list \<times> bool \<Rightarrow> PeerStore \<Rightarrow> PeerStore" where
  "dial_success k = (\<lambda>(now, ks, wr). NotePeerSuccess ks wr k now)"

definition dial_failure :: "string \<Rightarrow> gotime \<times> string list \<times> bool \<Rightarrow> PeerStore \<Rightarrow> PeerStore" where
  "dial_failure k = (\<lambda>(now, ks, wr). NotePeerFailure ks wr k now)"

interpretation peer_book: address_book peer_failures dial_success dial_failure
  by unfold_locales
    (auto simp: peer_failures_def dial_success_def dial_failure_def NotePeerSuccess_def NotePeerFailure_def
      peer_success_def peer_failure_def new_peer_def Let_def fun_eq_iff split: option.splits)

subsection \<open>Candidates\<close>

lemma dedupe_addrs_set: "set (dedupe_addrs seen as) = set as - seen - {[]}"
  by (induction seen as rule: dedupe_addrs.induct) auto

lemma dedupe_addrs_distinct: "distinct (dedupe_addrs seen as)"
  by (induction seen as rule: dedupe_addrs.induct) (auto simp: dedupe_addrs_set)

lemma dedupe_addrs_length: "length (dedupe_addrs seen as) \<le> length as"
  by (induction seen as rule: dedupe_addrs.induct) auto

lemma cand_less_strict_weak: "strict_weak cand_less"
  unfolding strict_weak_def cand_less_def by (auto split: if_splits)

lemma set_map_filter_enum:
  "enumerates ks m \<Longrightarrow> set (List.map_filter m ks) = ran m"
  by (force simp: enumerates_def List.map_filter_def ran_def dom_def)

definition eligible :: "int \<Rightarrow> Store \<Rightarrow> nodeRecord \<Rightarrow> bool" where
  "eligible maxFailures s r \<longleftrightarrow> r \<in> ran (st_nodes s) \<and> nr_Addr r \<noteq> [] \<and> nr_NodeID r \<noteq> [] \<and>
     nr_FailureCount r \<le> maxFailures"

lemma cand_window_eq:
  assumes "enumerates ks (st_nodes s)"
  obtains cs where "set cs = Collect (eligible mf s)" "sorted_wrt (\<lambda>a b. \<not> cand_less b a) cs"
    "cand_window ks mf limit s = (if limit > 0 then take (nat limit) cs else cs)"
proof -
  let ?f = "filter (\<lambda>r. \<not> (nr_Addr r = [] \<or> nr_NodeID r = []) \<and> \<not> nr_FailureCount r > mf)
    (List.map_filter (st_nodes s) ks)"
  let ?cs = "sort_slice cand_less ?f"
  have "set ?cs = Collect (eligible mf s)"
    unfolding set_sort_slice set_filter set_map_filter_enum [OF assms] eligible_def by auto
  moreover have "sorted_wrt (\<lambda>a b. \<not> cand_less b a) ?cs"
    by (rule sorted_sort_slice [OF cand_less_strict_weak])
  moreover have "cand_window ks mf limit s = (if limit > 0 then take (nat limit) ?cs else ?cs)"
    by (auto simp: cand_window_def Let_def)
  ultimately show ?thesis by (rule that)
qed

subsection \<open>Reloading the file\<close>

definition keyed :: "Store \<Rightarrow> bool" where
  "keyed s \<longleftrightarrow> (\<forall>k r. st_nodes s k = Some r \<longrightarrow> nr_NodeID r = k)"

lemma fold_upd_map_of:
  "distinct (map f rs) \<Longrightarrow> fold (\<lambda>r m. m(f r \<mapsto> r)) rs m = m ++ map_of (map (\<lambda>r. (f r, r)) rs)"
proof (induction rs arbitrary: m)
  case (Cons r rs)
  have "map_of (map (\<lambda>r. (f r, r)) rs) (f r) = None"
    using Cons.prems by (simp add: map_of_eq_None_iff image_iff)
  with Cons show ?case by (auto simp: fun_eq_iff map_add_def split: option.splits)
qed simp

lemma map_of_keyed:
  assumes "\<And>r. r \<in> set rs \<longleftrightarrow> m (f r) = Some r \<and> P r" "distinct (map f rs)" "\<And>k r. m k = Some r \<Longrightarrow> f r = k"
  shows "map_of (map (\<lambda>r. (f r, r)) rs) k = (case m k of Some r \<Rightarrow> if P r then Some r else None | None \<Rightarrow> None)"
proof (cases "\<exists>r. m k = Some r \<and> P r")
  case True
  then obtain r where r: "m k = Some r" "P r" by blast
  then have "(k, r) \<in> set (map (\<lambda>r. (f r, r)) rs)" using assms(1,3) by force
  moreover have "distinct (map fst (map (\<lambda>r. (f r, r)) rs))" using assms(2) by (simp add: comp_def)
  ultimately show ?thesis using r by (simp add: map_of_eq_Some_iff)
next
  case False
  then have "k \<notin> fst ` set (map (\<lambda>r. (f r, r)) rs)"
    using assms(1) by auto
  with False show ?thesis by (auto simp: map_of_eq_None_iff split: option.splits)
qed

lemma keyed_note:
  "keyed s \<Longrightarrow> keyed (NoteSuccess ks wr k a n now s)" "keyed s \<Longrightarrow> keyed (NoteFailure ks wr k now s)"
  by (auto simp: keyed_def NoteSuccess_def NoteFailure_def note_success_def note_failure_def new_record_def
      Let_def split: option.splits)

lemma distinct_map_filter_keyed:
  assumes "keyed s" "distinct ks"
  shows "distinct (map nr_NodeID (List.map_filter (st_nodes s) ks))"
proof -
  have "nr_NodeID ` set (List.map_filter (st_nodes s) ks) \<subseteq> set ks" for ks
    using assms(1) by (auto simp: keyed_def List.map_filter_def)
  then show ?thesis
    using assms by (induction ks) (auto simp: keyed_def List.map_filter_simps split: option.splits)
qed

subsection \<open>Properties\<close>

text \<open>\<^verbatim>\<open>Candidates\<close> returns distinct, non-empty addresses of nodes with at most the permitted number
  of failures, at most \<open>limit\<close> of them when a limit is given and all of them otherwise; they are taken
  from the best-ranked nodes (most recent success first, then fewer failures): no node that is left
  out ranks before one that is used.\<close>

lemma candidates_correct:
  assumes "enumerates ks (st_nodes s)"
  shows "let out = Candidates ks mf limit s; win = cand_window ks mf limit s in
    distinct out \<and> set out = nr_Addr ` set win \<and> set win \<subseteq> Collect (eligible mf s) \<and>
    (if limit > 0 then int (length out) \<le> limit else set win = Collect (eligible mf s)) \<and>
    sorted_wrt (\<lambda>a b. \<not> cand_less b a) win \<and>
    (\<forall>r \<in> set win. \<forall>r' \<in> Collect (eligible mf s) - set win. \<not> cand_less r' r)"
proof -
  obtain cs where cs: "set cs = Collect (eligible mf s)" "sorted_wrt (\<lambda>a b. \<not> cand_less b a) cs"
    "cand_window ks mf limit s = (if limit > 0 then take (nat limit) cs else cs)"
    by (rule cand_window_eq [OF assms])
  let ?win = "cand_window ks mf limit s"
  obtain rest where split: "cs = ?win @ rest"
    using cs(3) by (metis append.right_neutral append_take_drop_id)
  have sub: "set ?win \<subseteq> Collect (eligible mf s)"
    using split cs(1) by (metis Un_upper1 set_append)
  have "set (Candidates ks mf limit s) = nr_Addr ` set ?win"
    using sub by (auto simp: Candidates_def dedupe_addrs_set eligible_def)
  moreover have "int (length (Candidates ks mf limit s)) \<le> limit" if "limit > 0"
    using dedupe_addrs_length [of "{}" "map nr_Addr ?win"] cs(3) that by (simp add: Candidates_def) linarith
  moreover have "sorted_wrt (\<lambda>a b. \<not> cand_less b a) ?win"
    "\<forall>r \<in> set ?win. \<forall>r' \<in> set rest. \<not> cand_less r' r"
    using cs(2) split by (metis sorted_wrt_append)+
  moreover have "Collect (eligible mf s) - set ?win \<subseteq> set rest"
    using split cs(1) by (metis Diff_subset_conv set_append subset_refl)
  ultimately show ?thesis
    using sub cs(1,3) unfolding Let_def by (auto simp: Candidates_def dedupe_addrs_distinct)
qed

text \<open>The DHT node store survives a restart: reading back the file that the last change wrote
  gives exactly the nodes with a known address, unchanged.\<close>

lemma store_reload:
  assumes "keyed s" "enumerates ks (st_nodes s)"
  shows "st_nodes (NewStore (st_file (save ks True s))) k =
    (case st_nodes s k of
       Some r \<Rightarrow> if nr_NodeID r \<noteq> [] \<and> nr_Addr r \<noteq> [] then Some r else None
     | None \<Rightarrow> None)"
proof -
  let ?P = "\<lambda>r. nr_NodeID r \<noteq> [] \<and> nr_Addr r \<noteq> []"
  let ?recs = "sort_slice (\<lambda>a b. nr_NodeID a < nr_NodeID b) (filter ?P (List.map_filter (st_nodes s) ks))"
  have d: "distinct (map nr_NodeID ?recs)"
    using distinct_map_filter_keyed [OF assms(1)] assms(2)
    by (simp add: enumerates_distinct distinct_map_filter)
  have mem: "r \<in> set ?recs \<longleftrightarrow> st_nodes s (nr_NodeID r) = Some r \<and> ?P r" for r
    using set_map_filter_enum [OF assms(2)] assms(1) by (auto simp: ran_def keyed_def)
  have all: "\<forall>r \<in> set ?recs. ?P r" by simp
  have "fold (\<lambda>r m. if nr_NodeID r = [] \<or> nr_Addr r = [] then m else m(nr_NodeID r \<mapsto> r)) rs m =
      fold (\<lambda>r m. m(nr_NodeID r \<mapsto> r)) rs m" if "\<forall>r \<in> set rs. ?P r" for rs m
    using that by (induction rs arbitrary: m) auto
  from this [OF all, of Map.empty]
  have "st_nodes (NewStore (st_file (save ks True s))) = map_of (map (\<lambda>r. (nr_NodeID r, r)) ?recs)"
    by (simp add: NewStore_def load_nodes_def save_def Let_def fold_upd_map_of [OF d])
  then show ?thesis
    using map_of_keyed [OF mem d, of k] assms(1) by (simp add: keyed_def)
qed

text \<open>After any history of dial attempts on a fresh peer store, the addresses offered for dialling
  are exactly those that were tried and have failed at most \<open>mf\<close> times since their last success.\<close>

lemma peer_store_backoff:
  assumes "enumerates ks (ps_peers (peer_book.replay h (NewPeerStore None)))"
  shows "set (peer_candidates ks mf (peer_book.replay h (NewPeerStore None))) =
    {k \<in> fst ` set h. int (peer_book.streak k h) \<le> mf}"
proof -
  let ?s = "peer_book.replay h (NewPeerStore None)"
  have f: "peer_failures ?s k = (if k \<in> fst ` set h then Some (int (peer_book.streak k h)) else None)" for k
    by (rule peer_book.failures_replay) (simp add: peer_failures_def NewPeerStore_def load_peers_def fun_eq_iff)
  have "k \<in> set (peer_candidates ks mf ?s) \<longleftrightarrow> (\<exists>n. peer_failures ?s k = Some n \<and> n \<le> mf)" for k
    using enumerates_set [OF assms]
    by (auto simp: peer_candidates_def peer_failures_def not_less dom_def split: option.splits)
  then show ?thesis unfolding f by (simp only: set_eq_iff mem_Collect_eq) (metis option.inject option.distinct(1))
qed

end
