(* ===== verification/Dht.thy ===== *)
theory Dht
  imports Routing Records RateLimit Rpc NodeStore
begin

text \<open>
  The DHT engine (\<^verbatim>\<open>internal/dht/dht.go\<close>) and its message handler (\<^verbatim>\<open>handler.go\<close>). The state collects
  the components: routing table, pending RPCs, node store, record store, owned records and the
  rate limiter of every peer. Metrics have no effect on the behaviour and are left out.

  A handler call reads the clock several times: \<open>clock i\<close> is the \<open>i\<close>-th reading. \<open>ping\<close> says which
  node answers an eviction ping, \<open>io\<close> the iteration order and the result of the write when the node
  store saves itself. A reply is returned instead of being sent; the code ignores send errors.
\<close>

subsection \<open>State\<close>

record DHT =
  d_selfIDHex :: string
  d_self :: NodeID
  d_rt :: RoutingTable
  d_rpc :: RpcState
  d_store :: "Store option"
  d_rs :: MemRecordStore
  d_owned :: "rkey \<rightharpoonup> gotime"
  d_rl :: "string \<rightharpoonup> tokenBucket"

record DiversityPolicy =
  dp_MaxPerSubnet :: int

datatype dht_opt = WithStore "nodeRecord list option" | WithRecordStore MemRecordStore | WithDiversityLimit int |
  WithDiversityPolicy DiversityPolicy

fun apply_opt :: "dht_opt \<Rightarrow> DHT \<Rightarrow> DHT" where
  "apply_opt (WithStore file) d = d\<lparr>d_store := Some (NewStore file)\<rparr>"
| "apply_opt (WithRecordStore rs) d = d\<lparr>d_rs := rs\<rparr>"
| "apply_opt (WithDiversityLimit n) d = d\<lparr>d_rt := SetDiversityLimit n (d_rt d)\<rparr>"
| "apply_opt (WithDiversityPolicy p) d = d\<lparr>d_rt := SetDiversityLimit (dp_MaxPerSubnet p) (d_rt d)\<rparr>"

definition New :: "crypto \<Rightarrow> string \<Rightarrow> dht_opt list \<Rightarrow> dht_error + DHT" where
  "New cr selfIDHex opts =
     (case NodeIDFromPeerID cr selfIDHex of
        Inl e \<Rightarrow> Inl e
      | Inr selfNode \<Rightarrow>
          Inr (fold apply_opt opts
            \<lparr>d_selfIDHex = selfIDHex, d_self = selfNode, d_rt = NewRoutingTable selfNode 20,
             d_rpc = newRpcState, d_store = None, d_rs = NewMemRecordStore, d_owned = Map.empty,
             d_rl = Map.empty\<rparr>))"

subsection \<open>Observing peers\<close>

type_synonym store_io = "string list \<times> bool"

definition note_store :: "store_io \<Rightarrow> string \<Rightarrow> string \<Rightarrow> string \<Rightarrow> gotime \<Rightarrow> DHT \<Rightarrow> DHT" where
  "note_store io peerID addr name now d =
     (case d_store d of
        None \<Rightarrow> d
      | Some st \<Rightarrow>
          if addr \<noteq> [] then d\<lparr>d_store := Some (NoteSuccess (fst io) (snd io) peerID addr name now st)\<rparr>
          else d)"

definition ObservePeer ::
  "crypto \<Rightarrow> (nat \<Rightarrow> gotime) \<Rightarrow> (NodeInfo \<Rightarrow> bool) \<Rightarrow> store_io \<Rightarrow> string \<Rightarrow> string \<Rightarrow> string \<Rightarrow> DHT \<Rightarrow> DHT" where
  "ObservePeer cr clock ping io peerID addr name d =
     (case NodeIDFromPeerID cr peerID of
        Inl _ \<Rightarrow> d
      | Inr nodeID \<Rightarrow>
          note_store io peerID addr name (clock 2)
            (d\<lparr>d_rt := UpsertWithEviction (d_rt d) nodeID peerID addr name (clock 1) ping\<rparr>))"

definition OnPeerSeen ::
  "crypto \<Rightarrow> (nat \<Rightarrow> gotime) \<Rightarrow> store_io \<Rightarrow> string \<Rightarrow> string \<Rightarrow> string \<Rightarrow> DHT \<Rightarrow> DHT" where
  "OnPeerSeen cr clock io peerIDHex addr name d =
     (case NodeIDFromPeerID cr peerIDHex of
        Inl _ \<Rightarrow> d
      | Inr nodeID \<Rightarrow>
          note_store io peerIDHex addr name (clock 2)
            (d\<lparr>d_rt := Upsert (d_rt d) nodeID peerIDHex addr name (clock 1)\<rparr>))"

definition BootstrapAddrs :: "string list \<Rightarrow> int \<Rightarrow> DHT \<Rightarrow> string list" where
  "BootstrapAddrs ks limit d =
     (case d_store d of None \<Rightarrow> [] | Some st \<Rightarrow> Candidates ks 5 limit st)"

subsection \<open>Requests\<close>

definition err_msg :: "dht_error \<Rightarrow> string" where
  "err_msg e =
     (case e of
        ErrBadRecord \<Rightarrow> ''dht: bad record''
      | ErrBadSignature \<Rightarrow> ''dht: bad signature''
      | ErrSeqTooLow \<Rightarrow> ''dht: seq too low''
      | ErrKeyMismatch \<Rightarrow> ''dht: key mismatch''
      | ErrRecordTooLarge \<Rightarrow> ''dht: record too large''
      | ErrInvalidRecord \<Rightarrow> ''dht: invalid record''
      | ErrTooManyPending \<Rightarrow> ''dht: too many pending rpcs''
      | ErrPeerOverloaded \<Rightarrow> ''dht: peer inflight limit reached''
      | _ \<Rightarrow> ''error'')"

definition wire_node :: "NodeInfo \<Rightarrow> DHTNode" where
  "wire_node ni = \<lparr>nd_NodeID = ni_NodeIDHex ni, nd_PeerID = ni_PeerID ni, nd_Addr = ni_Addr ni,
     nd_Name = ni_Name ni\<rparr>"

definition store_result :: "DHTWire \<Rightarrow> bool \<Rightarrow> string \<Rightarrow> DHTWire" where
  "store_result w ok msg =
     zeroWire\<lparr>w_Kind := ''STORE_RESULT'', w_RPCID := w_RPCID w, w_OK := ok, w_Error := msg\<rparr>"

definition handle_find_node :: "DHTWire \<Rightarrow> DHT \<Rightarrow> DHTWire option" where
  "handle_find_node w d =
     (case ParseNodeIDHex (w_Target w) of
        Inl _ \<Rightarrow> None
      | Inr target \<Rightarrow>
          Some (zeroWire\<lparr>w_Kind := ''NODES'', w_RPCID := w_RPCID w, w_Target := w_Target w,
                  w_Nodes := map wire_node (Closest (d_rt d) target 20)\<rparr>))"

definition handle_store :: "crypto \<Rightarrow> (nat \<Rightarrow> gotime) \<Rightarrow> DHTWire \<Rightarrow> DHT \<Rightarrow> DHT \<times> DHTWire" where
  "handle_store cr clock w d =
     (case (ParseKeyHex (w_Key w), w_Record w) of
        (Inr key, Some r) \<Rightarrow>
          (case ValidateRecordAgainstKey cr (clock 3) key (Some r) of
             Some e \<Rightarrow> (d, store_result w False (err_msg e))
           | None \<Rightarrow>
               (case Put (d_rs d) key (Some r) (clock 4) of
                  (None, rs) \<Rightarrow> (d\<lparr>d_rs := rs\<rparr>, store_result w True [])
                | (Some e, rs) \<Rightarrow> (d\<lparr>d_rs := rs\<rparr>, store_result w False (err_msg e))))
      | _ \<Rightarrow> (d, store_result w False ''bad_request''))"

definition handle_find_value :: "crypto \<Rightarrow> (nat \<Rightarrow> gotime) \<Rightarrow> DHTWire \<Rightarrow> DHT \<Rightarrow> DHTWire option" where
  "handle_find_value cr clock w d =
     (case ParseKeyHex (w_Key w) of
        Inl _ \<Rightarrow> None
      | Inr key \<Rightarrow>
          let closest = zeroWire\<lparr>w_Kind := ''VALUE'', w_RPCID := w_RPCID w, w_Key := w_Key w,
            w_Nodes := map wire_node
              (Closest (d_rt d) (case ParseNodeIDHex (w_Key w) of Inr t \<Rightarrow> t | Inl _ \<Rightarrow> replicate 32 0) 20)\<rparr>
          in case Get (d_rs d) key (clock 3) of
               None \<Rightarrow> Some closest
             | Some r \<Rightarrow>
                 if ValidateRecordAgainstKey cr (clock 4) key (Some r) = None
                 then Some (zeroWire\<lparr>w_Kind := ''VALUE'', w_RPCID := w_RPCID w, w_Key := w_Key w,
                              w_Record := Some r\<rparr>)
                 else Some closest)"

definition handle_request ::
  "crypto \<Rightarrow> (nat \<Rightarrow> gotime) \<Rightarrow> DHTWire \<Rightarrow> DHT \<Rightarrow> DHT \<times> DHTWire option" where
  "handle_request cr clock w d =
     (if w_Kind w = ''PING'' then (d, Some (zeroWire\<lparr>w_Kind := ''PONG'', w_RPCID := w_RPCID w\<rparr>))
      else if w_Kind w = ''FIND_NODE'' then (d, handle_find_node w d)
      else if w_Kind w = ''STORE'' then (case handle_store cr clock w d of (d', r) \<Rightarrow> (d', Some r))
      else if w_Kind w = ''FIND_VALUE'' then (d, handle_find_value cr clock w d)
      else (d, None))"

subsection \<open>The handler\<close>

text \<open>Lines 17 to 25: the rate limiter of the sender.\<close>

definition rate_check :: "gotime \<Rightarrow> string \<Rightarrow> DHT \<Rightarrow> bool \<times> DHT" where
  "rate_check now fromPeerID d =
     (let b = (case d_rl d fromPeerID of None \<Rightarrow> newBucket | Some b \<Rightarrow> b)
      in case allow b now 20 40 1 of (ok, b') \<Rightarrow> (ok, d\<lparr>d_rl := (d_rl d)(fromPeerID \<mapsto> b')\<rparr>))"

definition HandleDHT ::
  "crypto \<Rightarrow> (nat \<Rightarrow> gotime) \<Rightarrow> (NodeInfo \<Rightarrow> bool) \<Rightarrow> store_io \<Rightarrow> string \<Rightarrow> string \<Rightarrow> string \<Rightarrow> Envelope \<Rightarrow>
     DHT \<Rightarrow> DHT \<times> DHTWire option" where
  "HandleDHT cr clock ping io fromPeerID fromAddr fromName env d =
     (case as_dht (env_Payload env) of
        None \<Rightarrow> (d, None)
      | Some w \<Rightarrow>
          (case rate_check (clock 0) fromPeerID d of
             (False, d1) \<Rightarrow> (d1, None)
           | (True, d1) \<Rightarrow>
               let d2 = ObservePeer cr clock ping io fromPeerID fromAddr fromName d1
               in case deliver w (d_rpc d2) of
                    (True, rpc) \<Rightarrow> (d2\<lparr>d_rpc := rpc\<rparr>, None)
                  | (False, _) \<Rightarrow> handle_request cr clock w d2))"

text \<open>A run of the handler over a sequence of messages: the final state and the replies with their
  addressees.\<close>

type_synonym inbound =
  "(nat \<Rightarrow> gotime) \<times> (NodeInfo \<Rightarrow> bool) \<times> store_io \<times> string \<times> string \<times> string \<times> Envelope"

fun run_handler :: "crypto \<Rightarrow> inbound list \<Rightarrow> DHT \<Rightarrow> DHT \<times> (string \<times> DHTWire) list" where
  "run_handler cr [] d = (d, [])"
| "run_handler cr ((clock, ping, io, p, a, n, env) # ms) d =
     (case HandleDHT cr clock ping io p a n env d of (d1, reply) \<Rightarrow>
        case run_handler cr ms d1 of (d2, out) \<Rightarrow>
          (d2, (case reply of None \<Rightarrow> [] | Some r \<Rightarrow> [(p, r)]) @ out))"

subsection \<open>The engine's invariant\<close>

definition dht_inv :: "crypto \<Rightarrow> DHT \<Rightarrow> bool" where
  "dht_inv cr d \<longleftrightarrow> rt_inv (d_rt d) \<and> rt_self (d_rt d) = d_self d \<and> rt_authentic cr (d_rt d) \<and>
     memstore.serves_valid cr (d_rs d) \<and> (\<forall>st. d_store d = Some st \<longrightarrow> keyed st)"

lemma keyed_NewStore: "keyed (NewStore file)"
proof -
  let ?f = "\<lambda>r m. if nr_NodeID r = [] \<or> nr_Addr r = [] then m else m(nr_NodeID r \<mapsto> r)"
  have "fold ?f rs m k = Some r \<Longrightarrow> nr_NodeID r = k"
    if "\<And>k r. m k = Some r \<Longrightarrow> nr_NodeID r = k" for rs m k r
    using that
  proof (induction rs arbitrary: m)
    case (Cons x rs)
    show ?case
      by (rule Cons.IH [of "?f x m"]) (use Cons.prems in \<open>auto split: if_splits\<close>)
  qed simp
  from this [of Map.empty] show ?thesis
    by (auto simp: keyed_def NewStore_def load_nodes_def split: option.splits)
qed

lemma rt_inv_SetDiversityLimit [inv_intros]: "rt_inv rt \<Longrightarrow> rt_inv (SetDiversityLimit n rt)"
  by (simp add: rt_inv_def rt_wf_def rt_distinct_def bucket_ok_def entry_ok_def SetDiversityLimit_def)

lemma apply_opt_inv:
  assumes "dht_inv cr d" "\<forall>rs. opt = WithRecordStore rs \<longrightarrow> memstore.serves_valid cr rs"
  shows "dht_inv cr (apply_opt opt d)"
proof -
  have "rt_self (SetDiversityLimit n rt) = rt_self rt"
    "rt_authentic cr (SetDiversityLimit n rt) = rt_authentic cr rt" for n rt
    by (simp_all add: SetDiversityLimit_def rt_authentic_def all_nodes_def)
  with assms show ?thesis
    by (cases opt) (auto simp: dht_inv_def keyed_NewStore intro: inv_intros)
qed

lemma New_inv:
  assumes "New cr self opts = Inr d" "sha256_size cr"
    and "\<forall>rs. WithRecordStore rs \<in> set opts \<longrightarrow> memstore.serves_valid cr rs"
  shows "dht_inv cr d"
proof -
  have fold: "dht_inv cr (fold apply_opt opts d0)" if "dht_inv cr d0" for d0
    using that assms(3)
  proof (induction opts arbitrary: d0)
    case (Cons opt opts)
    then have "dht_inv cr (apply_opt opt d0)" by (intro apply_opt_inv) auto
    with Cons show ?case by simp
  qed simp
  obtain i where i: "NodeIDFromPeerID cr self = Inr i"
    using assms(1) by (auto simp: New_def split: sum.splits)
  have "memstore.serves_valid cr NewMemRecordStore"
    by (rule rs_reach_valid [OF rs_reach.init])
  moreover have "rt_self (NewRoutingTable i 20) = i" by (simp add: NewRoutingTable_def)
  ultimately have "dht_inv cr \<lparr>d_selfIDHex = self, d_self = i, d_rt = NewRoutingTable i 20,
      d_rpc = newRpcState, d_store = None, d_rs = NewMemRecordStore, d_owned = Map.empty, d_rl = Map.empty\<rparr>"
    using NewRoutingTable_inv NodeIDFromPeerID_ok [OF assms(2) i]
    by (simp add: dht_inv_def NewRoutingTable_authentic)
  from fold [OF this] show ?thesis using assms(1) i by (simp add: New_def)
qed

lemma note_store_simps [simp]:
  "d_rt (note_store io p a n t d) = d_rt d" "d_self (note_store io p a n t d) = d_self d"
  "d_rs (note_store io p a n t d) = d_rs d" "d_rl (note_store io p a n t d) = d_rl d"
  "d_rpc (note_store io p a n t d) = d_rpc d" "d_owned (note_store io p a n t d) = d_owned d"
  by (simp_all add: note_store_def split: option.splits)

lemma note_store_inv: "dht_inv cr d \<Longrightarrow> dht_inv cr (note_store io p a n t d)"
  unfolding dht_inv_def note_store_simps
  by (auto simp: note_store_def split: option.splits if_splits intro: keyed_note)

lemma upsert_dht_inv:
  assumes "dht_inv cr d" "sha256_size cr" "NodeIDFromPeerID cr p = Inr i"
  shows "dht_inv cr (note_store io p a n t (d\<lparr>d_rt := upsertLRU (d_rt d) i p a n now ping\<rparr>))"
proof (rule note_store_inv)
  have "rt_inv (upsertLRU (d_rt d) i p a n now ping)" "rt_authentic cr (upsertLRU (d_rt d) i p a n now ping)"
    using assms NodeIDFromPeerID_ok [OF assms(2,3)] by (auto simp: dht_inv_def intro: inv_intros)
  then show "dht_inv cr (d\<lparr>d_rt := upsertLRU (d_rt d) i p a n now ping\<rparr>)"
    using assms by (simp add: dht_inv_def)
qed

lemma ObservePeer_inv [inv_intros]:
  "dht_inv cr d \<Longrightarrow> sha256_size cr \<Longrightarrow> dht_inv cr (ObservePeer cr clock ping io p a n d)"
  by (simp add: ObservePeer_def UpsertWithEviction_def upsert_dht_inv split: sum.splits)

lemma OnPeerSeen_inv [inv_intros]:
  "dht_inv cr d \<Longrightarrow> sha256_size cr \<Longrightarrow> dht_inv cr (OnPeerSeen cr clock io p a n d)"
  by (simp add: OnPeerSeen_def Upsert_def upsert_dht_inv split: sum.splits)

lemma ObservePeer_simps [simp]:
  "d_rl (ObservePeer cr clock ping io p a n d) = d_rl d"
  "d_rpc (ObservePeer cr clock ping io p a n d) = d_rpc d"
  "d_rs (ObservePeer cr clock ping io p a n d) = d_rs d"
  by (simp_all add: ObservePeer_def split: sum.splits)

lemma handle_store_inv:
  assumes "dht_inv cr d"
  shows "dht_inv cr (fst (handle_store cr clock w d))"
proof -
  have "memstore.serves_valid cr (snd (Put (d_rs d) k (Some r) t))"
    if "ValidateRecordAgainstKey cr t' k (Some r) = None" for k r t t'
    using assms that memstore.serves_valid_put by (simp add: dht_inv_def)
  then show ?thesis
    using assms by (auto simp: handle_store_def dht_inv_def split: sum.splits option.splits prod.splits)
      (metis snd_conv)+
qed

lemma handle_request_inv: "dht_inv cr d \<Longrightarrow> dht_inv cr (fst (handle_request cr clock w d))"
  using handle_store_inv [of cr d clock w] by (cases "handle_store cr clock w d") (simp add: handle_request_def)

lemma rate_check_simps [simp]:
  "d_rt (snd (rate_check t p d)) = d_rt d" "d_self (snd (rate_check t p d)) = d_self d"
  "d_rs (snd (rate_check t p d)) = d_rs d" "d_store (snd (rate_check t p d)) = d_store d"
  "d_rpc (snd (rate_check t p d)) = d_rpc d"
  by (simp_all add: rate_check_def Let_def split: prod.splits)

lemma HandleDHT_inv [inv_intros]:
  assumes "dht_inv cr d" "sha256_size cr"
  shows "dht_inv cr (fst (HandleDHT cr clock ping io p a n env d))"
proof -
  have rc: "dht_inv cr (snd (rate_check t p d))" for t
    using assms(1) by (simp add: dht_inv_def)
  let ?d1 = "snd (rate_check (clock 0) p d)"
  let ?d2 = "ObservePeer cr clock ping io p a n ?d1"
  have d2: "dht_inv cr ?d2" by (rule ObservePeer_inv [OF rc assms(2)])
  then have "dht_inv cr (?d2\<lparr>d_rpc := rpc\<rparr>)" for rpc
    by (simp add: dht_inv_def)
  moreover have "fst (HandleDHT cr clock ping io p a n env d) \<in>
      {d, ?d1} \<union> range (\<lambda>rpc. ?d2\<lparr>d_rpc := rpc\<rparr>) \<union> range (\<lambda>w. fst (handle_request cr clock w ?d2))"
    by (cases "rate_check (clock 0) p d")
      (auto simp: HandleDHT_def Let_def split: option.splits prod.splits bool.splits)
  ultimately show ?thesis
    using rc [of "clock 0"] handle_request_inv [OF d2] assms(1) by auto
qed

subsection \<open>Rate limiting\<close>

definition bucket_of :: "DHT \<Rightarrow> string \<Rightarrow> tokenBucket" where
  "bucket_of d p = (case d_rl d p of None \<Rightarrow> newBucket | Some b \<Rightarrow> b)"

text \<open>The times at which the limiter of \<open>p\<close> is asked during a run.\<close>

definition asked :: "string \<Rightarrow> inbound list \<Rightarrow> gotime list" where
  "asked p ms = map (\<lambda>(clock, _). clock 0)
     (filter (\<lambda>(clock, ping, io, q, a, n, env). q = p \<and> as_dht (env_Payload env) \<noteq> None) ms)"

lemma rate_check_eq:
  "rate_check t p d = (fst (allow (bucket_of d p) t 20 40 1),
     d\<lparr>d_rl := (d_rl d)(p \<mapsto> snd (allow (bucket_of d p) t 20 40 1))\<rparr>)"
  by (simp add: rate_check_def bucket_of_def Let_def split: prod.splits)

lemma handle_request_rl [simp]: "d_rl (fst (handle_request cr clock w d)) = d_rl d"
  by (auto simp: handle_request_def handle_store_def split: prod.splits sum.splits option.splits)

lemma HandleDHT_rl:
  "d_rl (fst (HandleDHT cr clock ping io p a n env d)) =
     (if as_dht (env_Payload env) = None then d_rl d
      else (d_rl d)(p \<mapsto> snd (allow (bucket_of d p) (clock 0) 20 40 1)))"
  by (auto simp: HandleDHT_def rate_check_eq Let_def split: option.splits prod.splits bool.splits)

lemma HandleDHT_reply:
  "snd (HandleDHT cr clock ping io p a n env d) = Some r \<Longrightarrow>
     as_dht (env_Payload env) \<noteq> None \<and> fst (allow (bucket_of d p) (clock 0) 20 40 1)"
  by (auto simp: HandleDHT_def rate_check_eq split: option.splits prod.splits bool.splits)

lemma replies_granted:
  "length (filter (\<lambda>(q, _). q = p) (snd (run_handler cr ms d))) \<le>
     granted (bucket_of d p) (asked p ms) 20 40 1"
proof (induction cr ms d rule: run_handler.induct)
  case (2 cr clock ping io q a n env ms d)
  obtain d1 reply where h: "HandleDHT cr clock ping io q a n env d = (d1, reply)" by fastforce
  obtain d2 out where r: "run_handler cr ms d1 = (d2, out)" by fastforce
  have rl: "d_rl d1 = (if as_dht (env_Payload env) = None then d_rl d
      else (d_rl d)(q \<mapsto> snd (allow (bucket_of d q) (clock 0) 20 40 1)))"
    using HandleDHT_rl [of cr clock ping io q a n env d] h by simp
  have "length (filter (\<lambda>(q, _). q = p) out) \<le> granted (bucket_of d1 p) (asked p ms) 20 40 1"
    using 2 h r by auto
  moreover have "reply \<noteq> None \<Longrightarrow> as_dht (env_Payload env) \<noteq> None \<and>
      fst (allow (bucket_of d q) (clock 0) 20 40 1)"
    using HandleDHT_reply [of cr clock ping io q a n env d] h by auto
  moreover have "bucket_of d1 p =
      (if as_dht (env_Payload env) \<noteq> None \<and> q = p then snd (allow (bucket_of d p) (clock 0) 20 40 1)
       else bucket_of d p)"
    by (simp add: bucket_of_def rl)
  moreover have "snd (run_handler cr ((clock, ping, io, q, a, n, env) # ms) d) =
      (case reply of None \<Rightarrow> [] | Some r \<Rightarrow> [(q, r)]) @ out"
    by (simp add: h r)
  moreover have "asked p ((clock, ping, io, q, a, n, env) # ms) =
      (if as_dht (env_Payload env) \<noteq> None \<and> q = p then clock 0 # asked p ms else asked p ms)"
    by (auto simp: asked_def)
  ultimately show ?case
    by (cases "as_dht (env_Payload env) \<noteq> None \<and> q = p"; cases reply)
      (auto simp: case_prod_unfold)
qed (simp add: asked_def)

subsection \<open>Requests through the whole handler\<close>

abbreviation dht_env :: "DHTWire \<Rightarrow> Envelope" where
  "dht_env w \<equiv> \<lparr>env_Type = MsgDHT, env_FromID = [], env_Payload = P_dht w\<rparr>"

lemma HandleDHT_request:
  assumes "fst (rate_check (clock 0) p d)" "\<not> is_response w"
  shows "HandleDHT cr clock ping io p a n (dht_env w) d =
    handle_request cr clock w (ObservePeer cr clock ping io p a n (snd (rate_check (clock 0) p d)))"
  using assms by (cases "rate_check (clock 0) p d") (simp add: HandleDHT_def deliver_def as_dht_def)

lemma wire_kinds: "w_Kind w \<in> {''STORE'', ''FIND_VALUE'', ''FIND_NODE'', ''PING''} \<Longrightarrow> \<not> is_response w"
  by (auto simp: is_response_def)

text \<open>Handlers never touch the records other than by a validated store.\<close>

lemma handle_store_ok:
  assumes "length key = 32" "w_Key w = KeyHex key" "w_Record w = Some r"
    and "ValidateRecordAgainstKey cr (clock 3) key (Some r) = None"
    and "fst (Put (d_rs d) key (Some r) (clock 4)) = None"
  shows "handle_store cr clock w d =
    (d\<lparr>d_rs := snd (Put (d_rs d) key (Some r) (clock 4))\<rparr>, store_result w True [])"
  using assms by (cases "Put (d_rs d) key (Some r) (clock 4)") (simp add: handle_store_def)

lemma Put_then_Get:
  assumes "fst (Put m k (Some r) now) = None" "\<not> expired t r"
  shows "Get (snd (Put m k (Some r) now)) k t = Some r"
  using memstore.get_put [of m k r now "snd (Put m k (Some r) now)" k t] assms
  by (metis prod.collapse)

subsection \<open>Sample engine\<close>

definition sample_peer :: "byte \<Rightarrow> string" where
  "sample_peer b = EncodeToString (sample_id b)"

definition sample_dht :: DHT where
  "sample_dht = \<lparr>d_selfIDHex = sample_peer 0, d_self = sample_id 0, d_rt = NewRoutingTable (sample_id 0) 20,
     d_rpc = newRpcState, d_store = None, d_rs = NewMemRecordStore, d_owned = Map.empty, d_rl = Map.empty\<rparr>"

lemma sample_dht_New: "New demo_crypto (sample_peer 0) [] = Inr sample_dht"
proof -
  have "length (sample_id 0) = 32" using sample_id_ok [of 0] by (simp add: nodeid_ok_length)
  moreover from this have "pad32 (sample_id 0) = sample_id 0" by (simp add: pad32_def)
  ultimately show ?thesis
    by (simp add: New_def sample_peer_def sample_dht_def) (simp add: demo_crypto_def)
qed

lemma sample_rate_ok: "fst (rate_check 5 p sample_dht)"
  by (simp add: rate_check_eq bucket_of_def sample_dht_def allow_def newBucket_def IsZero_def)

subsection \<open>Properties\<close>

text \<open>C3: starting from \<^verbatim>\<open>New\<close>, whatever messages arrive from whomever, the engine keeps its invariant:
  the routing table is well formed and free of duplicates, every entry's node identifier is the hash of
  the peer key it is listed with, every record it can serve validates, and
  the node store is keyed by its nodes.\<close>

theorem dht_handler_invariant:
  assumes "New cr self opts = Inr d" "sha256_size cr" "\<forall>rs. WithRecordStore rs \<notin> set opts"
  shows "dht_inv cr (fst (run_handler cr ms d))"
proof -
  have "dht_inv cr d0 \<Longrightarrow> sha256_size cr \<Longrightarrow> dht_inv cr (fst (run_handler cr ms d0))" for d0
  proof (induction cr ms d0 rule: run_handler.induct)
    case (2 cr clock ping io p a n env ms d)
    have "dht_inv cr (fst (HandleDHT cr clock ping io p a n env d))"
      using 2 by (intro HandleDHT_inv)
    then show ?case
      using 2 by (cases "HandleDHT cr clock ping io p a n env d") (auto split: prod.splits)
  qed simp
  moreover have "dht_inv cr d" using New_inv [OF assms(1,2)] assms(3) by blast
  ultimately show ?thesis using assms(2) by blast
qed

theorem dht_handler_invariant_witness:
  "dht_inv demo_crypto (fst (run_handler demo_crypto
     [((\<lambda>_. 5), (\<lambda>_. True), ([], True), sample_peer 128, ''10.0.0.1:4000'', ''alice'',
       dht_env (zeroWire\<lparr>w_Kind := ''PING''\<rparr>))] sample_dht))"
  by (rule dht_handler_invariant [OF sample_dht_New]) simp_all



text \<open>A \<^verbatim>\<open>FIND_NODE\<close> request with a well-formed target is answered with the identifiers, peers and
  addresses of the at most 20 nodes of the routing table that are nearest to the target, nearest first,
  after the sender itself has been entered into the table.\<close>

lemma find_node_reply:
  assumes "w_Kind w = ''FIND_NODE''" "ParseNodeIDHex (w_Target w) = Inr target"
    and "fst (rate_check (clock 0) p d)" "NodeIDFromPeerID cr p = Inr i"
  shows "case HandleDHT cr clock ping io p a n (dht_env w) d of (d', reply) \<Rightarrow>
    d_rt d' = UpsertWithEviction (d_rt d) i p a n (clock 1) ping \<and>
    (\<exists>r. reply = Some r \<and> w_Kind r = ''NODES'' \<and> w_RPCID r = w_RPCID w \<and> length (w_Nodes r) \<le> 20 \<and>
      w_Nodes r = map wire_node
        (take 20 (sort_key (\<lambda>ni. Distance (ni_NodeID ni) target) (all_nodes (d_rt d')))))"
proof -
  have "\<not> is_response w" using assms(1) by (simp_all add: wire_kinds)
  from HandleDHT_request [of clock p d w, OF assms(3) this] show ?thesis
    using assms(1,2,4)
    by (simp add: as_dht_def handle_request_def handle_find_node_def Closest_eq ObservePeer_def)
qed

text \<open>C28: a peer cannot make the node work faster than the rate limit: however many messages arrive,
  mixed with those of other peers, the replies sent to one peer number at most 40 plus 20 per second
  of the time its messages span.\<close>

theorem replies_rate_limited:
  assumes "asked p ms = t # ts" "sorted (t # ts)" "zeroTime < t" "bucket_inv 40 t (bucket_of d p)"
  shows "of_nat (length (filter (\<lambda>(q, _). q = p) (snd (run_handler cr ms d)))) \<le>
    40 + seconds_between t (last (t # ts)) * 20"
proof -
  have "of_nat (granted (bucket_of d p) (asked p ms) 20 40 1) \<le> 40 + seconds_between t (last (t # ts)) * 20"
    using granted_window [OF assms(4) _ _ _ assms(2,3), of 20 1] assms(1) by simp
  then show ?thesis
    using replies_granted [of p cr ms d] by (meson of_nat_le_iff order_trans)
qed

theorem replies_rate_limited_witness:
  "of_nat (length (filter (\<lambda>(q, _). q = ''p'') (snd (run_handler demo_crypto
     [((\<lambda>_. 5), (\<lambda>_. True), ([], True), ''p'', [], [], dht_env (zeroWire\<lparr>w_Kind := ''PING''\<rparr>))] sample_dht)))) \<le> (40 :: rat)"
  using replies_rate_limited [where p = "''p''" and d = sample_dht and t = 5 and ts = "[]" and cr = demo_crypto
      and ms = "[((\<lambda>_. 5), (\<lambda>_. True), ([], True), ''p'', [], [], dht_env (zeroWire\<lparr>w_Kind := ''PING''\<rparr>))]"]
  by (simp add: asked_def as_dht_def zeroTime_def bucket_of_def sample_dht_def)

end
