(* ===== verification/Lookup.thy ===== *)
theory Lookup
  imports Dht
begin

text \<open>
  The iterative lookups (\<^verbatim>\<open>internal/dht/iterative.go\<close>, \<^verbatim>\<open>iterative_value.go\<close>). The candidate map \<^verbatim>\<open>seen\<close> is
  an association list with distinct keys; every \<^verbatim>\<open>sorted()\<close> ranges over it in an order of its own.
  What the lookup does not control is collected in \<open>lookup_env\<close>: iteration orders, the order in which
  the results of a round arrive, the outcome of every query (the result of \<^verbatim>\<open>QueryFindNode\<close> or
  \<^verbatim>\<open>QueryFindValue\<close>, modelled in \<open>Rpc\<close>), eviction pings, the clock and the cancellation of the context.
  The loops recurse on the remaining rounds, so both lookups are total.
\<close>

subsection \<open>Candidates\<close>

datatype qstate = stUnqueried | stQuerying | stDone | stFailed

record cand =
  c_node :: DHTNode
  c_id :: NodeID
  c_dist :: NodeID
  c_state :: qstate

record lookup_env =
  le_order :: "nat \<Rightarrow> cand list \<Rightarrow> cand list"
  le_arrive :: "nat \<Rightarrow> cand list \<Rightarrow> cand list"
  le_resp :: "nat \<Rightarrow> cand \<Rightarrow> dht_error + DHTWire"
  le_ping :: "NodeInfo \<Rightarrow> bool"
  le_clock :: "nat \<Rightarrow> gotime"
  le_cancel :: "nat \<Rightarrow> bool"

text \<open>Iteration and arrival are permutations.\<close>

definition fair_env :: "lookup_env \<Rightarrow> bool" where
  "fair_env e \<longleftrightarrow> (\<forall>i xs. mset (le_order e i xs) = mset xs \<and> mset (le_arrive e i xs) = mset xs)"

type_synonym seen_map = "(string \<times> cand) list"

abbreviation ckey :: "cand \<Rightarrow> string" where
  "ckey c \<equiv> nd_NodeID (c_node c)"

record LookupConfig =
  cfg_Alpha :: int
  cfg_K :: int
  cfg_RPCTimeout :: int
  cfg_MaxRounds :: int

definition DefaultLookupConfig :: LookupConfig where
  "DefaultLookupConfig = \<lparr>cfg_Alpha = 3, cfg_K = 20, cfg_RPCTimeout = 1200 * millisecond, cfg_MaxRounds = 32\<rparr>"

text \<open>\<^verbatim>\<open>ValueLookupConfig\<close> has the same fields.\<close>

type_synonym ValueLookupConfig = LookupConfig

definition DefaultValueLookupConfig :: ValueLookupConfig where
  "DefaultValueLookupConfig = \<lparr>cfg_Alpha = 3, cfg_K = 20, cfg_RPCTimeout = 1200 * millisecond, cfg_MaxRounds = 32\<rparr>"

definition normalise_cfg :: "LookupConfig \<Rightarrow> LookupConfig" where
  "normalise_cfg cfg =
     \<lparr>cfg_Alpha = (if cfg_Alpha cfg \<le> 0 then 3 else cfg_Alpha cfg),
      cfg_K = (if cfg_K cfg \<le> 0 then 20 else cfg_K cfg),
      cfg_RPCTimeout = (if cfg_RPCTimeout cfg \<le> 0 then 1200 * millisecond else cfg_RPCTimeout cfg),
      cfg_MaxRounds = (if cfg_MaxRounds cfg \<le> 0 then 32 else cfg_MaxRounds cfg)\<rparr>"

definition seed_cand :: "NodeID \<Rightarrow> NodeInfo \<Rightarrow> cand" where
  "seed_cand target ni =
     \<lparr>c_node = wire_node ni, c_id = ni_NodeID ni, c_dist = Distance (ni_NodeID ni) target,
      c_state = stUnqueried\<rparr>"

definition seed :: "RoutingTable \<Rightarrow> NodeID \<Rightarrow> nat \<Rightarrow> seen_map" where
  "seed rt target K =
     fold (\<lambda>ni seen. AList.update (ckey (seed_cand target ni)) (seed_cand target ni) seen)
       (Closest rt target (int K)) []"

definition sorted_cands :: "lookup_env \<Rightarrow> nat \<Rightarrow> seen_map \<Rightarrow> cand list" where
  "sorted_cands e i seen =
     sort_slice (\<lambda>a b. DistanceLess (c_dist a) (c_dist b)) (le_order e i (map snd seen))"

text \<open>The loop that picks up to \<open>alpha\<close> unqueried candidates of the window.\<close>

fun pick :: "nat \<Rightarrow> cand list \<Rightarrow> cand list" where
  "pick alpha [] = []"
| "pick alpha (c # cs) =
     (if alpha = 0 then []
      else if c_state c = stUnqueried then c # pick (alpha - 1) cs else pick alpha cs)"

text \<open>Candidates are shared by pointer: a state change is visible in the map.\<close>

definition set_state :: "qstate \<Rightarrow> cand \<Rightarrow> seen_map \<Rightarrow> seen_map" where
  "set_state st c seen =
     map (\<lambda>(k, c'). (k, if k = ckey c then c'\<lparr>c_state := st\<rparr> else c')) seen"

subsection \<open>One result\<close>

definition ingest_node ::
  "crypto \<Rightarrow> lookup_env \<Rightarrow> nat \<Rightarrow> NodeID \<Rightarrow> DHTNode \<Rightarrow> RoutingTable \<times> seen_map \<Rightarrow> RoutingTable \<times> seen_map" where
  "ingest_node cr e r target nd st =
     (case st of (rt, seen) \<Rightarrow>
        if nd_NodeID nd = [] \<or> nd_PeerID nd = [] \<or> nd_Addr nd = [] then st
        else if \<not> NodeIDMatchesPeerID cr (nd_NodeID nd) (nd_PeerID nd) then st
        else if SplitHostPort (nd_Addr nd) = None then st
        else if map_of seen (nd_NodeID nd) \<noteq> None then st
        else case ParseNodeIDHex (nd_NodeID nd) of
               Inl _ \<Rightarrow> st
             | Inr i \<Rightarrow>
                 (UpsertWithEviction rt i (nd_PeerID nd) (nd_Addr nd) (nd_Name nd) (le_clock e r) (le_ping e),
                  AList.update (nd_NodeID nd)
                    \<lparr>c_node = nd, c_id = i, c_dist = Distance i target, c_state = stUnqueried\<rparr> seen))"

definition ingest ::
  "crypto \<Rightarrow> lookup_env \<Rightarrow> nat \<Rightarrow> NodeID \<Rightarrow> nat \<Rightarrow> DHTNode list \<Rightarrow> RoutingTable \<times> seen_map \<Rightarrow>
     RoutingTable \<times> seen_map" where
  "ingest cr e r target K nds st = fold (ingest_node cr e r target) (take (K * 2) nds) st"

definition node_result ::
  "crypto \<Rightarrow> lookup_env \<Rightarrow> nat \<Rightarrow> NodeID \<Rightarrow> nat \<Rightarrow> cand \<Rightarrow> RoutingTable \<times> seen_map \<Rightarrow> RoutingTable \<times> seen_map" where
  "node_result cr e r target K c st =
     (case st of (rt, seen) \<Rightarrow>
        case le_resp e r c of
          Inl _ \<Rightarrow> (rt, set_state stFailed c seen)
        | Inr w \<Rightarrow>
            if w_Kind w \<noteq> ''NODES'' then (rt, set_state stFailed c seen)
            else ingest cr e r target K (w_Nodes w) (rt, set_state stDone c seen))"

text \<open>The bound on the candidate set at the end of a round.\<close>

definition trim :: "lookup_env \<Rightarrow> nat \<Rightarrow> nat \<Rightarrow> seen_map \<Rightarrow> seen_map" where
  "trim e i K seen =
     (let cands = sorted_cands e i seen
      in if length cands > K * 8 then map (\<lambda>c. (ckey c, c)) (take (K * 8) cands) else seen)"

subsection \<open>Finding nodes\<close>

text \<open>The rounds: arguments are the remaining rounds, the round, the queries so far, the routing table
  and the candidates. \<open>None\<close> is the early \<^verbatim>\<open>return nil, nil\<close> for an empty candidate set.\<close>

fun find_loop ::
  "crypto \<Rightarrow> lookup_env \<Rightarrow> nat \<Rightarrow> nat \<Rightarrow> NodeID \<Rightarrow> nat \<Rightarrow> nat \<Rightarrow> nat \<Rightarrow> RoutingTable \<Rightarrow> seen_map \<Rightarrow>
     RoutingTable \<times> nat \<times> seen_map option" where
  "find_loop cr e K alpha target 0 r q rt seen = (rt, q, Some seen)"
| "find_loop cr e K alpha target (Suc n) r q rt seen =
     (let cands = sorted_cands e (2 * r) seen
      in if cands = [] then (rt, q, None)
         else
           let toQuery = pick alpha (take (K * 2) cands);
               seen1 = fold (set_state stQuerying) toQuery seen
           in if toQuery = [] then
                (if \<exists>c \<in> set (take K cands). c_state c = stUnqueried
                 then find_loop cr e K alpha target n (Suc r) q rt seen1
                 else (rt, q, Some seen1))
              else
                case fold (node_result cr e r target K) (le_arrive e r toQuery) (rt, seen1) of (rt', seen2) \<Rightarrow>
                  find_loop cr e K alpha target n (Suc r) (q + length toQuery) rt'
                    (trim e (2 * r + 1) K seen2))"

definition IterativeFindNode ::
  "crypto \<Rightarrow> lookup_env \<Rightarrow> string \<Rightarrow> LookupConfig \<Rightarrow> RoutingTable \<Rightarrow>
     (dht_error + DHTNode list) \<times> nat \<times> RoutingTable" where
  "IterativeFindNode cr e targetHex cfg0 rt =
     (let cfg = normalise_cfg cfg0; K = nat (cfg_K cfg); rounds = nat (cfg_MaxRounds cfg)
      in case ParseNodeIDHex targetHex of
           Inl err \<Rightarrow> (Inl err, 0, rt)
         | Inr target \<Rightarrow>
             (case find_loop cr e K (nat (cfg_Alpha cfg)) target rounds 0 0 rt (seed rt target K) of
                (rt', q, None) \<Rightarrow> (Inr [], q, rt')
              | (rt', q, Some seen) \<Rightarrow>
                  (Inr (map c_node (take K (sorted_cands e (2 * rounds) seen))), q, rt')))"

subsection \<open>Finding a value\<close>

text \<open>The results of one round, in the order of arrival, until a valid record is found.\<close>

fun value_results ::
  "crypto \<Rightarrow> lookup_env \<Rightarrow> nat \<Rightarrow> rkey \<Rightarrow> nat \<Rightarrow> cand list \<Rightarrow> MemRecordStore \<times> RoutingTable \<times> seen_map \<Rightarrow>
     DHTRecord option \<times> MemRecordStore \<times> RoutingTable \<times> seen_map" where
  "value_results cr e r key K [] st = (None, st)"
| "value_results cr e r key K (c # cs) (rs, rt, seen) =
     (case le_resp e r c of
        Inl _ \<Rightarrow> value_results cr e r key K cs (rs, rt, set_state stFailed c seen)
      | Inr w \<Rightarrow>
          if w_Kind w \<noteq> ''VALUE'' then value_results cr e r key K cs (rs, rt, set_state stFailed c seen)
          else
            case w_Record w of
              Some rec \<Rightarrow>
                if ValidateRecordAgainstKey cr (le_clock e r) key (Some rec) = None
                then (Some rec, snd (Put rs key (Some rec) (le_clock e r)), rt, set_state stDone c seen)
                else value_results cr e r key K cs (rs, rt, set_state stFailed c seen)
            | None \<Rightarrow>
                value_results cr e r key K cs
                  (rs, ingest cr e r key K (w_Nodes w) (rt, set_state stDone c seen)))"

fun value_loop ::
  "crypto \<Rightarrow> lookup_env \<Rightarrow> nat \<Rightarrow> nat \<Rightarrow> rkey \<Rightarrow> nat \<Rightarrow> nat \<Rightarrow> nat \<Rightarrow> MemRecordStore \<Rightarrow> RoutingTable \<Rightarrow>
     seen_map \<Rightarrow> (dht_error + DHTRecord option) \<times> nat \<times> MemRecordStore \<times> RoutingTable" where
  "value_loop cr e K alpha key 0 r q rs rt seen = (Inr None, q, rs, rt)"
| "value_loop cr e K alpha key (Suc n) r q rs rt seen =
     (if le_cancel e r then (Inl ErrCanceled, q, rs, rt)
      else
        let cands = sorted_cands e (2 * r) seen
        in if cands = [] then (Inr None, q, rs, rt)
           else
             let toQuery = pick alpha (take (K * 2) cands);
                 seen1 = fold (set_state stQuerying) toQuery seen
             in if toQuery = [] then
                  (if \<exists>c \<in> set (take K cands). c_state c = stUnqueried
                   then value_loop cr e K alpha key n (Suc r) q rs rt seen1
                   else (Inr None, q, rs, rt))
                else
                  case value_results cr e r key K (le_arrive e r toQuery) (rs, rt, seen1) of
                    (Some rec, rs', rt', seen2) \<Rightarrow> (Inr (Some rec), q + length toQuery, rs', rt')
                  | (None, rs', rt', seen2) \<Rightarrow>
                      value_loop cr e K alpha key n (Suc r) (q + length toQuery) rs' rt'
                        (trim e (2 * r + 1) K seen2))"

definition IterativeFindValue ::
  "crypto \<Rightarrow> lookup_env \<Rightarrow> gotime \<Rightarrow> rkey \<Rightarrow> ValueLookupConfig \<Rightarrow> MemRecordStore \<Rightarrow> RoutingTable \<Rightarrow>
     (dht_error + DHTRecord option) \<times> nat \<times> MemRecordStore \<times> RoutingTable" where
  "IterativeFindValue cr e now key cfg0 rs rt =
     (case Get rs key now of
        Some rec \<Rightarrow> (Inr (Some rec), 0, rs, rt)
      | None \<Rightarrow>
          let cfg = normalise_cfg cfg0; K = nat (cfg_K cfg)
          in value_loop cr e K (nat (cfg_Alpha cfg)) key (nat (cfg_MaxRounds cfg)) 0 0 rs rt
               (seed rt key K))"

subsection \<open>Authentic candidates\<close>

text \<open>A candidate carries the identifier its hex form denotes, the distance of that identifier, and a
  peer key that hashes to it.\<close>

definition cand_ok :: "crypto \<Rightarrow> NodeID \<Rightarrow> cand \<Rightarrow> bool" where
  "cand_ok cr target c \<longleftrightarrow> ParseNodeIDHex (ckey c) = Inr (c_id c) \<and>
     c_dist c = Distance (c_id c) target \<and> NodeIDFromPeerID cr (nd_PeerID (c_node c)) = Inr (c_id c)"

definition seen_ok :: "crypto \<Rightarrow> NodeID \<Rightarrow> seen_map \<Rightarrow> bool" where
  "seen_ok cr target seen \<longleftrightarrow> distinct (map fst seen) \<and> (\<forall>(k, c) \<in> set seen. k = ckey c \<and> cand_ok cr target c)"

definition rt_good :: "crypto \<Rightarrow> RoutingTable \<Rightarrow> bool" where
  "rt_good cr rt \<longleftrightarrow> rt_inv rt \<and> rt_authentic cr rt"

definition lk_inv :: "crypto \<Rightarrow> NodeID \<Rightarrow> RoutingTable \<times> seen_map \<Rightarrow> bool" where
  "lk_inv cr target st \<longleftrightarrow> rt_good cr (fst st) \<and> seen_ok cr target (snd st)"

lemma alist_update_subset: "set (AList.update k v xs) \<subseteq> insert (k, v) (set xs)"
  by (induction xs) auto

lemma seen_ok_update:
  assumes "seen_ok cr target seen" "cand_ok cr target c"
  shows "seen_ok cr target (AList.update (ckey c) c seen)"
  using assms alist_update_subset [of "ckey c" c seen] by (auto simp: seen_ok_def distinct_update)

lemma set_state_ok [inv_intros]:
  assumes "seen_ok cr target seen"
  shows "seen_ok cr target (set_state st c seen)"
proof -
  have "map fst (set_state st c seen) = map fst seen"
    by (induction seen) (auto simp: set_state_def)
  moreover have "\<exists>c0. (k, c0) \<in> set seen \<and> (c' = c0 \<or> c' = c0\<lparr>c_state := st\<rparr>)"
    if "(k, c') \<in> set (set_state st c seen)" for k c'
    using that by (auto simp: set_state_def split: if_splits)
  ultimately show ?thesis
    using assms by (fastforce simp: seen_ok_def cand_ok_def)
qed

lemma fold_set_state_ok: "seen_ok cr target seen \<Longrightarrow> seen_ok cr target (fold (set_state st) cs seen)"
  by (induction cs arbitrary: seen) (auto intro: set_state_ok)

lemma ingest_node_inv:
  assumes "lk_inv cr target st" "sha256_size cr"
  shows "lk_inv cr target (ingest_node cr e r target nd st)"
proof (cases st)
  case (Pair rt seen)
  have "lk_inv cr target (UpsertWithEviction rt i (nd_PeerID nd) (nd_Addr nd) (nd_Name nd) t ping,
      AList.update (nd_NodeID nd) \<lparr>c_node = nd, c_id = i, c_dist = Distance i target, c_state = stUnqueried\<rparr> seen)"
    if "NodeIDMatchesPeerID cr (nd_NodeID nd) (nd_PeerID nd)" "ParseNodeIDHex (nd_NodeID nd) = Inr i" for i t ping
  proof -
    have p: "NodeIDFromPeerID cr (nd_PeerID nd) = Inr i" and ok: "nodeid_ok i"
      using that by (auto simp: NodeIDMatchesPeerID_iff ParseNodeIDHex_ok)
    let ?c = "\<lparr>c_node = nd, c_id = i, c_dist = Distance i target, c_state = stUnqueried\<rparr>"
    have "cand_ok cr target ?c" using p that(2) by (simp add: cand_ok_def)
    with seen_ok_update [of cr target seen ?c] show ?thesis
      using assms(1) Pair p ok
      by (auto simp: lk_inv_def rt_good_def UpsertWithEviction_def intro: inv_intros)
  qed
  then show ?thesis
    using assms(1) Pair by (auto simp: ingest_node_def split: sum.splits)
qed

lemma ingest_inv [inv_intros]:
  assumes "lk_inv cr target st" "sha256_size cr"
  shows "lk_inv cr target (ingest cr e r target K nds st)"
proof -
  have "lk_inv cr target (fold (ingest_node cr e r target) xs st)" for xs
    using assms by (induction xs arbitrary: st) (simp_all add: ingest_node_inv)
  then show ?thesis by (simp add: ingest_def)
qed

lemma lk_inv_set_state: "lk_inv cr target (rt, seen) \<Longrightarrow> lk_inv cr target (rt, set_state st c seen)"
  by (simp add: lk_inv_def set_state_ok)

lemma node_result_inv:
  assumes "lk_inv cr target st" "sha256_size cr"
  shows "lk_inv cr target (node_result cr e r target K c st)"
  using assms by (cases st)
    (auto simp: node_result_def split: sum.splits intro: lk_inv_set_state ingest_inv)

lemma fold_node_result_inv:
  assumes "lk_inv cr target st" "sha256_size cr"
  shows "lk_inv cr target (fold (node_result cr e r target K) cs st)"
  using assms by (induction cs arbitrary: st) (simp_all add: node_result_inv)

subsection \<open>The sorted candidates\<close>

lemma mset_sorted_cands: "fair_env e \<Longrightarrow> mset (sorted_cands e i seen) = mset (map snd seen)"
  by (simp add: sorted_cands_def fair_env_def)

lemma set_sorted_cands: "fair_env e \<Longrightarrow> set (sorted_cands e i seen) = snd ` set seen"
  by (metis mset_sorted_cands set_map set_mset_mset)

lemma length_sorted_cands: "fair_env e \<Longrightarrow> length (sorted_cands e i seen) = length seen"
  by (metis length_map mset_sorted_cands size_mset)

lemma sorted_sorted_cands: "sorted (map c_dist (sorted_cands e i seen))"
  by (simp add: sorted_cands_def DistanceLess_def sort_slice_key)

lemma distinct_ckeys:
  assumes "seen_ok cr target seen" "fair_env e"
  shows "distinct (map ckey (sorted_cands e i seen))"
proof -
  have "map ckey (map snd seen) = map fst seen"
    using assms(1) by (auto simp: seen_ok_def)
  then have "distinct (map ckey (map snd seen))" using assms(1) unfolding seen_ok_def by metis
  then show ?thesis
    using mset_sorted_cands [OF assms(2), of i seen] by (metis mset_eq_imp_distinct_iff mset_map)
qed

lemma trim_ok [inv_intros]:
  assumes "seen_ok cr target seen" "fair_env e"
  shows "seen_ok cr target (trim e i K seen)"
proof -
  let ?cs = "take (K * 8) (sorted_cands e i seen)"
  have "distinct (map ckey ?cs)"
    using distinct_ckeys [OF assms] by (rule distinct_map_take)
  moreover have "set ?cs \<subseteq> snd ` set seen"
    using set_take_subset set_sorted_cands [OF assms(2)] by fast
  ultimately have "seen_ok cr target (map (\<lambda>c. (ckey c, c)) ?cs)"
    using assms(1) by (fastforce simp: seen_ok_def comp_def)
  then show ?thesis using assms(1) by (simp add: trim_def Let_def)
qed

lemma length_trim: "fair_env e \<Longrightarrow> length (trim e i K seen) \<le> K * 8"
  by (simp add: trim_def Let_def length_sorted_cands)

lemma seed_cand_ok:
  assumes "rt_good cr rt" "ni \<in> set (all_nodes rt)"
  shows "cand_ok cr target (seed_cand target ni)"
proof -
  have "\<exists>i < 256. entry_ok rt i ni"
    using assms rt_wf_all_nodes by (simp add: rt_good_def rt_inv_def)
  then show ?thesis
    using assms by (auto simp: cand_ok_def seed_cand_def wire_node_def entry_ok_def rt_good_def rt_authentic_def)
qed

lemma seed_ok:
  assumes "rt_good cr rt"
  shows "seen_ok cr target (seed rt target K)"
proof -
  have "seen_ok cr target (fold (\<lambda>ni seen. AList.update (ckey (seed_cand target ni)) (seed_cand target ni) seen) ns seen)"
    if "set ns \<subseteq> set (all_nodes rt)" "seen_ok cr target seen" for ns seen
    using that by (induction ns arbitrary: seen) (auto intro!: seen_ok_update seed_cand_ok [OF assms])
  moreover have "set (Closest rt target (int K)) \<subseteq> set (all_nodes rt)"
    using set_take_subset by (fastforce simp: Closest_eq)
  moreover have "seen_ok cr target []" by (simp add: seen_ok_def)
  ultimately show ?thesis unfolding seed_def by blast
qed

subsection \<open>Picking candidates\<close>

lemma set_pick: "set (pick alpha cs) \<subseteq> {c \<in> set cs. c_state c = stUnqueried}"
  by (induction alpha cs rule: pick.induct) auto

lemma length_pick: "length (pick alpha cs) \<le> alpha"
  by (induction alpha cs rule: pick.induct) auto

lemma pick_Nil: "0 < alpha \<Longrightarrow> pick alpha cs = [] \<longleftrightarrow> (\<forall>c \<in> set cs. c_state c \<noteq> stUnqueried)"
  by (induction alpha cs rule: pick.induct) auto

lemma pick_Nil_window:
  assumes "0 < alpha" "pick alpha (take (K * 2) cs) = []"
  shows "\<not> (\<exists>c \<in> set (take K cs). c_state c = stUnqueried)"
proof -
  have "set (take K cs) \<subseteq> set (take (K * 2) cs)" by (rule set_take_subset_set_take) simp
  with assms show ?thesis by (auto simp: pick_Nil)
qed

subsection \<open>The rounds of a node lookup\<close>

text \<open>A round that queries somebody, from its start to the trimmed candidate set.\<close>

lemma round_inv:
  assumes "lk_inv cr target (rt, seen)" "fair_env e" "sha256_size cr"
    and "fold (node_result cr e r target K) cs (rt, fold (set_state stQuerying) qs seen) = (rt', seen2)"
  shows "lk_inv cr target (rt', trim e i K seen2)"
proof -
  have "lk_inv cr target (rt, fold (set_state stQuerying) qs seen)"
    using assms(1) by (simp add: lk_inv_def fold_set_state_ok)
  from fold_node_result_inv [OF this assms(3), of e r K cs] show ?thesis
    using assms(2,4) by (simp add: lk_inv_def trim_ok)
qed

lemma find_loop_inv:
  assumes "lk_inv cr target (rt, seen)" "fair_env e" "sha256_size cr"
    and "find_loop cr e K alpha target n r q rt seen = (rt', q', res)"
  shows "rt_good cr rt' \<and> q' \<le> q + n * alpha \<and> (\<forall>seen'. res = Some seen' \<longrightarrow> seen_ok cr target seen')"
  using assms
proof (induction cr e K alpha target n r q rt seen rule: find_loop.induct)
  case (1 cr e K alpha target r q rt seen)
  then show ?case by (auto simp: lk_inv_def)
next
  case (2 cr e K alpha target n r q rt seen)
  let ?cands = "sorted_cands e (2 * r) seen"
  let ?to = "pick alpha (take (K * 2) ?cands)"
  let ?seen1 = "fold (set_state stQuerying) ?to seen"
  obtain rt1 seen2 where f: "fold (node_result cr e r target K) (le_arrive e r ?to) (rt, ?seen1) = (rt1, seen2)"
    by fastforce
  note inv = round_inv [OF "2.prems"(1-3) f, of "2 * r + 1"]
  have seen1: "lk_inv cr target (rt, ?seen1)"
    using "2.prems"(1) by (simp add: lk_inv_def fold_set_state_ok)
  consider "?cands = []"
    | "?cands \<noteq> []" "?to = []" "\<exists>c \<in> set (take K ?cands). c_state c = stUnqueried"
    | "?cands \<noteq> []" "?to = []" "\<not> (\<exists>c \<in> set (take K ?cands). c_state c = stUnqueried)"
    | "?cands \<noteq> []" "?to \<noteq> []" by blast
  then show ?case
  proof cases
    case 1
    then show ?thesis using "2.prems" by (auto simp: lk_inv_def)
  next
    case 2
    then show ?thesis
      using "2.IH"(1) [OF refl _ refl refl] "2.prems" seen1 by (simp add: Let_def)
  next
    case 3
    then show ?thesis using "2.prems" seen1 by (auto simp: Let_def lk_inv_def)
  next
    case 4
    then have "rt_good cr rt' \<and> q' \<le> q + length ?to + n * alpha \<and>
        (\<forall>seen'. res = Some seen' \<longrightarrow> seen_ok cr target seen')"
      using "2.IH"(2) [OF refl _ refl refl _ f [symmetric]] "2.prems" inv f by (simp add: Let_def)
    then show ?thesis using length_pick [of alpha "take (K * 2) ?cands"] by simp
  qed
qed

text \<open>A lookup that stops before its rounds are used up has queried every candidate near the target.\<close>

lemma find_loop_converges:
  assumes "fair_env e" "0 < alpha"
    and "find_loop cr e K alpha target n r q rt seen = (rt', q', Some seen')" "q' < q + n"
  shows "\<forall>c \<in> snd ` set seen'.
    length (filter (\<lambda>c'. c_dist c' \<le> c_dist c) (map snd seen')) \<le> K * 2 \<longrightarrow> c_state c \<noteq> stUnqueried"
  using assms
proof (induction cr e K alpha target n r q rt seen rule: find_loop.induct)
  case (2 cr e K alpha target n r q rt seen)
  let ?cands = "sorted_cands e (2 * r) seen"
  let ?to = "pick alpha (take (K * 2) ?cands)"
  have ne: "?cands \<noteq> []" using "2.prems"(3) by (auto simp: Let_def)
  show ?case
  proof (cases "?to = []")
    case True
    then have s: "seen' = seen"
      using "2.prems" ne pick_Nil_window [OF "2.prems"(2) True] by (simp add: Let_def)
    show ?thesis
    proof (intro ballI impI)
      fix c assume c: "c \<in> snd ` set seen'"
        "length (filter (\<lambda>c'. c_dist c' \<le> c_dist c) (map snd seen')) \<le> K * 2"
      have "mset (filter (\<lambda>c'. c_dist c' \<le> c_dist c) ?cands) =
          mset (filter (\<lambda>c'. c_dist c' \<le> c_dist c) (map snd seen))"
        unfolding mset_filter by (simp only: mset_sorted_cands [OF "2.prems"(1)])
      then have "length (filter (\<lambda>c'. c_dist c' \<le> c_dist c) ?cands) \<le> K * 2"
        using c(2) s by (metis size_mset)
      then have "c \<in> set (take (K * 2) ?cands)"
        using c(1) s by (intro sorted_rank_take [OF sorted_sorted_cands])
          (simp_all add: set_sorted_cands [OF "2.prems"(1)])
      then show "c_state c \<noteq> stUnqueried"
        using True "2.prems"(2) by (simp add: pick_Nil)
    qed
  next
    case False
    obtain rt1 seen2 where f: "fold (node_result cr e r target K) (le_arrive e r ?to)
        (rt, fold (set_state stQuerying) ?to seen) = (rt1, seen2)" by fastforce
    have "q' < q + length ?to + n"
      using "2.prems"(4) False by (cases ?to) simp_all
    then show ?thesis
      using "2.IH"(2) [OF refl ne refl refl False f [symmetric]] "2.prems" ne False f
      by (simp add: Let_def)
  qed
qed simp

subsection \<open>The rounds of a value lookup\<close>

lemma value_results_inv:
  assumes "value_results cr e r key K cs (rs, rt, seen) = (res, rs', rt', seen')" "sha256_size cr"
    and "lk_inv cr key (rt, seen)" "memstore.serves_valid cr rs"
  shows "lk_inv cr key (rt', seen') \<and> memstore.serves_valid cr rs' \<and>
    (\<forall>rec. res = Some rec \<longrightarrow> ValidateRecordAgainstKey cr (le_clock e r) key (Some rec) = None)"
  using assms
proof (induction cs arbitrary: rs rt seen)
  case (Cons c cs)
  have st: "lk_inv cr key (rt, set_state st c seen)" for st
    using Cons.prems(3) by (rule lk_inv_set_state)
  note failed = Cons.IH [OF _ Cons.prems(2) st [of stFailed] Cons.prems(4)]
  show ?case
  proof (cases "le_resp e r c")
    case (Inl err)
    then show ?thesis using failed Cons.prems(1) by auto
  next
    case (Inr w)
    show ?thesis
    proof (cases "w_Kind w \<noteq> ''VALUE''")
      case True
      then show ?thesis using failed Cons.prems(1) Inr by auto
    next
      case kind: False
      show ?thesis
      proof (cases "w_Record w")
        case None
        obtain rt2 seen2 where i: "ingest cr e r key K (w_Nodes w) (rt, set_state stDone c seen) = (rt2, seen2)"
          by fastforce
        have "lk_inv cr key (rt2, seen2)"
          using ingest_inv [OF st Cons.prems(2), of e r K "w_Nodes w" stDone] i by simp
        then show ?thesis
          using Cons.IH [OF _ Cons.prems(2) _ Cons.prems(4)] Cons.prems(1) Inr kind None i by auto
      next
        case (Some rec)
        then show ?thesis
          using failed Cons.prems(1) Inr kind st [of stDone]
            memstore.serves_valid_put [OF Cons.prems(4)] by (auto split: if_splits)
      qed
    qed
  qed
qed simp

lemma value_loop_inv:
  assumes "value_loop cr e K alpha key n r q rs rt seen = (res, q', rs', rt')" "sha256_size cr" "fair_env e"
    and "lk_inv cr key (rt, seen)" "memstore.serves_valid cr rs"
  shows "rt_good cr rt' \<and> memstore.serves_valid cr rs' \<and> q' \<le> q + n * alpha \<and>
    (\<forall>rec. res = Inr (Some rec) \<longrightarrow> (\<exists>i. ValidateRecordAgainstKey cr (le_clock e i) key (Some rec) = None))"
  using assms
proof (induction cr e K alpha key n r q rs rt seen rule: value_loop.induct)
  case (1 cr e K alpha key r q rs rt seen)
  then show ?case by (auto simp: lk_inv_def)
next
  case (2 cr e K alpha key n r q rs rt seen)
  let ?cands = "sorted_cands e (2 * r) seen"
  let ?to = "pick alpha (take (K * 2) ?cands)"
  let ?seen1 = "fold (set_state stQuerying) ?to seen"
  have good: "rt_good cr rt" using "2.prems"(4) by (simp add: lk_inv_def)
  have seen1: "lk_inv cr key (rt, ?seen1)"
    using "2.prems"(4) by (simp add: lk_inv_def fold_set_state_ok)
  obtain out rs1 rt1 seen2 where v:
    "value_results cr e r key K (le_arrive e r ?to) (rs, rt, ?seen1) = (out, rs1, rt1, seen2)"
    by (metis prod.exhaust)
  note vr = value_results_inv [OF v "2.prems"(2) seen1 "2.prems"(5)]
  have len: "length ?to \<le> alpha" by (rule length_pick)
  consider "le_cancel e r \<or> ?cands = []"
    | "\<not> le_cancel e r" "?cands \<noteq> []" "?to = []" "\<exists>c \<in> set (take K ?cands). c_state c = stUnqueried"
    | "\<not> le_cancel e r" "?cands \<noteq> []" "?to = []" "\<not> (\<exists>c \<in> set (take K ?cands). c_state c = stUnqueried)"
    | "\<not> le_cancel e r" "?cands \<noteq> []" "?to \<noteq> []" by blast
  then show ?case
  proof cases
    case 1
    then show ?thesis using "2.prems" good by (auto split: if_splits)
  next
    case 2
    then show ?thesis
      using "2.IH"(1) [OF _ refl _ refl refl] "2.prems" seen1 by (simp add: Let_def)
  next
    case 3
    then show ?thesis using "2.prems" good by (auto simp: Let_def)
  next
    case 4
    show ?thesis
    proof (cases out)
      case None
      have "lk_inv cr key (rt1, trim e (2 * r + 1) K seen2)"
        using vr "2.prems"(3) by (simp add: lk_inv_def trim_ok)
      then have "rt_good cr rt' \<and> memstore.serves_valid cr rs' \<and> q' \<le> q + length ?to + n * alpha \<and>
        (\<forall>rec. res = Inr (Some rec) \<longrightarrow> (\<exists>i. ValidateRecordAgainstKey cr (le_clock e i) key (Some rec) = None))"
        using "2.IH"(2) [OF 4(1) refl 4(2) refl refl 4(3) v [symmetric] None refl refl] "2.prems" v vr 4 None
        by (simp add: Let_def)
      then show ?thesis using len by simp
    next
      case (Some rec)
      then show ?thesis using "2.prems" v vr 4 len by (auto simp: Let_def lk_inv_def)
    qed
  qed
qed

subsection \<open>The routing table after a lookup\<close>

lemma ingest_self: "rt_self (fst (ingest cr e r target K nds st)) = rt_self (fst st)"
proof -
  have "rt_self (fst (ingest_node cr e r target nd st)) = rt_self (fst st)" for nd st
    by (auto simp: ingest_node_def UpsertWithEviction_def split: prod.splits sum.splits)
  then have "rt_self (fst (fold (ingest_node cr e r target) xs st)) = rt_self (fst st)" for xs
    by (induction xs arbitrary: st) simp_all
  then show ?thesis by (simp add: ingest_def)
qed

lemma node_results_self: "rt_self (fst (fold (node_result cr e r target K) cs st)) = rt_self (fst st)"
proof -
  have "rt_self (fst (node_result cr e r target K c st)) = rt_self (fst st)" for c st
    using ingest_self by (auto simp: node_result_def split: prod.splits sum.splits)
  then show ?thesis by (induction cs arbitrary: st) simp_all
qed

lemma find_loop_self:
  "rt_self (fst (find_loop cr e K alpha target n r q rt seen)) = rt_self rt"
proof (induction cr e K alpha target n r q rt seen rule: find_loop.induct)
  case (2 cr e K alpha target n r q rt seen)
  let ?to = "pick alpha (take (K * 2) (sorted_cands e (2 * r) seen))"
  obtain rt1 seen2 where f: "fold (node_result cr e r target K) (le_arrive e r ?to)
      (rt, fold (set_state stQuerying) ?to seen) = (rt1, seen2)" by fastforce
  then have "rt_self rt1 = rt_self rt"
    using node_results_self [of cr e r target K "le_arrive e r ?to"] by (metis fst_conv)
  then show ?case using 2 f by (simp add: Let_def)
qed simp

lemma IterativeFindNode_good:
  assumes "rt_good cr rt" "fair_env e" "sha256_size cr" "IterativeFindNode cr e targetHex cfg rt = (res, q, rt')"
  shows "rt_good cr rt' \<and> rt_self rt' = rt_self rt"
proof (cases "ParseNodeIDHex targetHex")
  case (Inl err)
  then show ?thesis using assms(1,4) by (simp add: IterativeFindNode_def Let_def)
next
  case (Inr target)
  let ?K = "nat (cfg_K (normalise_cfg cfg))"
  obtain rt1 q1 out where l: "find_loop cr e ?K (nat (cfg_Alpha (normalise_cfg cfg))) target
      (nat (cfg_MaxRounds (normalise_cfg cfg))) 0 0 rt (seed rt target ?K) = (rt1, q1, out)"
    by (metis prod.exhaust)
  have "rt' = rt1"
    using assms(4) Inr l by (auto simp: IterativeFindNode_def Let_def split: option.splits)
  moreover have "lk_inv cr target (rt, seed rt target ?K)"
    using assms(1) seed_ok [OF assms(1)] by (simp add: lk_inv_def)
  ultimately show ?thesis
    using find_loop_inv [OF _ assms(2,3) l] find_loop_self l by (metis fst_conv)
qed

subsection \<open>Sample lookup\<close>

definition sample_env :: lookup_env where
  "sample_env = \<lparr>le_order = (\<lambda>_ cs. rev cs), le_arrive = (\<lambda>_ cs. cs), le_resp = (\<lambda>_ _. Inl DeadlineExceeded),
     le_ping = (\<lambda>_. True), le_clock = (\<lambda>_. 5), le_cancel = (\<lambda>_. False)\<rparr>"

lemma sample_env_fair: "fair_env sample_env"
  by (simp add: sample_env_def fair_env_def)

definition sample_rt :: RoutingTable where
  "sample_rt = upsertLRU (NewRoutingTable (sample_id 0) 20) (sample_id 128) (sample_peer 128)
     ''10.0.0.1:4000'' ''alice'' 5 None"

lemma NodeIDFromPeerID_sample: "NodeIDFromPeerID demo_crypto (sample_peer b) = Inr (sample_id b)"
proof -
  have "length (sample_id b) = 32" using sample_id_ok [of b] by (simp add: nodeid_ok_length)
  moreover from this have "pad32 (sample_id b) = sample_id b" by (simp add: pad32_def)
  ultimately show ?thesis by (simp add: sample_peer_def) (simp add: demo_crypto_def)
qed

lemma sample_rt_good: "rt_good demo_crypto sample_rt"
  unfolding rt_good_def sample_rt_def
  by (intro conjI inv_intros NewRoutingTable_inv NewRoutingTable_authentic)
    (simp_all add: NodeIDFromPeerID_sample)

subsection \<open>Properties\<close>

text \<open>C5: whatever the queried peers answer, a node lookup returns only authentic nodes (each node's
  identifier is the hash of its peer key), at most \<open>K\<close>, without repeated hex identifiers, nearest
  first; it sends at most \<^verbatim>\<open>Alpha * MaxRounds\<close> queries, and leaves the routing table well formed and
  authentic.\<close>

theorem find_node_authentic:
  assumes "rt_good cr rt" "fair_env e" "sha256_size cr"
    and "ParseNodeIDHex targetHex = Inr target"
  shows "case IterativeFindNode cr e targetHex cfg rt of (res, q, rt') \<Rightarrow>
    rt_good cr rt' \<and> q \<le> nat (cfg_MaxRounds (normalise_cfg cfg)) * nat (cfg_Alpha (normalise_cfg cfg)) \<and>
    (\<exists>nds. res = Inr nds \<and> length nds \<le> nat (cfg_K (normalise_cfg cfg)) \<and> distinct (map nd_NodeID nds) \<and>
      (\<forall>nd \<in> set nds. \<exists>i. ParseNodeIDHex (nd_NodeID nd) = Inr i \<and> NodeIDFromPeerID cr (nd_PeerID nd) = Inr i) \<and>
      sorted (map (\<lambda>nd. Distance (projr (ParseNodeIDHex (nd_NodeID nd))) target) nds))"
proof -
  let ?K = "nat (cfg_K (normalise_cfg cfg))" and ?A = "nat (cfg_Alpha (normalise_cfg cfg))"
    and ?R = "nat (cfg_MaxRounds (normalise_cfg cfg))"
  obtain rt' q out where l: "find_loop cr e ?K ?A target ?R 0 0 rt (seed rt target ?K) = (rt', q, out)"
    by (metis prod.exhaust)
  have "lk_inv cr target (rt, seed rt target ?K)"
    using assms(1) seed_ok [OF assms(1)] by (simp add: lk_inv_def)
  note inv = find_loop_inv [OF this assms(2,3) l]
  show ?thesis
  proof (cases out)
    case None
    then show ?thesis using inv l assms(4) by (simp add: IterativeFindNode_def Let_def)
  next
    case (Some seen)
    let ?cs = "take ?K (sorted_cands e (2 * ?R) seen)"
    have ok: "seen_ok cr target seen" using inv Some by simp
    have "distinct (map ckey ?cs)"
      using distinct_ckeys [OF ok assms(2)] by (rule distinct_map_take)
    moreover have cand: "\<forall>c \<in> set ?cs. cand_ok cr target c"
      using set_take_subset [of ?K "sorted_cands e (2 * ?R) seen"] ok
        set_sorted_cands [OF assms(2), of "2 * ?R" seen] by (fastforce simp: seen_ok_def)
    moreover have "sorted (map (\<lambda>c. Distance (projr (ParseNodeIDHex (ckey c))) target) ?cs)"
    proof -
      have "map (\<lambda>c. Distance (projr (ParseNodeIDHex (ckey c))) target) ?cs = map c_dist ?cs"
        using cand by (intro map_cong) (auto simp: cand_ok_def)
      then show ?thesis
        using sorted_sorted_cands [of e "2 * ?R" seen] by (metis sorted_wrt_take take_map)
    qed
    moreover have "IterativeFindNode cr e targetHex cfg rt = (Inr (map c_node ?cs), q, rt')"
      using l assms(4) Some by (simp add: IterativeFindNode_def Let_def)
    ultimately show ?thesis
      using inv by (simp add: comp_def cand_ok_def)
  qed
qed

theorem find_node_authentic_witness:
  "fst (snd (IterativeFindNode demo_crypto sample_env (Hex (sample_id 1)) DefaultLookupConfig sample_rt)) \<le> 96"
  using find_node_authentic [OF sample_rt_good sample_env_fair demo_crypto_ok(1), of "Hex (sample_id 1)"
      "sample_id 1" DefaultLookupConfig]
  by (auto simp: normalise_cfg_def DefaultLookupConfig_def millisecond_def split: prod.splits)


lemma sample_seed: "\<exists>c. seed sample_rt (sample_id 1) 20 = [(Hex (sample_id 128), c)] \<and> c_state c = stUnqueried \<and>
    ckey c = Hex (sample_id 128)"
proof -
  have "all_nodes sample_rt = [new_entry (sample_id 128) (sample_peer 128) ''10.0.0.1:4000'' ''alice'' 5]"
  proof -
    have "upsert_locked (NewRoutingTable (sample_id 0) 20) (sample_id 128) (sample_peer 128) ''10.0.0.1:4000''
        ''alice'' 5 False =
      (set_bucket (NewRoutingTable (sample_id 0) 20) 0 \<lparr>nodes = [new_entry (sample_id 128) (sample_peer 128)
        ''10.0.0.1:4000'' ''alice'' 5], repl = []\<rparr>, None)"
      by (subst upsert_locked_unknown [of _ _ 0])
        (simp_all add: NewRoutingTable_def subnet_full_def Let_def)
    then show ?thesis
      by (simp add: sample_rt_def upsertLRU_def all_nodes_def set_bucket_def NewRoutingTable_def replicate_Suc
          numeral_eq_Suc)
  qed
  then show ?thesis
    by (simp add: seed_def Closest_eq seed_cand_def wire_node_def)
qed


text \<open>C6: a value lookup never returns a forged or expired record: the record it returns validates
  against the key (in the local store or at the moment its answer arrived); the record store keeps
  serving valid records only, the routing table stays well formed and authentic, and at most
  \<^verbatim>\<open>Alpha * MaxRounds\<close> queries are sent.\<close>

theorem find_value_valid:
  assumes "rt_good cr rt" "memstore.serves_valid cr rs" "fair_env e" "sha256_size cr"
  shows "case IterativeFindValue cr e now key cfg rs rt of (res, q, rs', rt') \<Rightarrow>
    rt_good cr rt' \<and> memstore.serves_valid cr rs' \<and>
    q \<le> nat (cfg_MaxRounds (normalise_cfg cfg)) * nat (cfg_Alpha (normalise_cfg cfg)) \<and>
    (\<forall>rec. res = Inr (Some rec) \<longrightarrow>
      (\<exists>t \<in> insert now (range (le_clock e)). ValidateRecordAgainstKey cr t key (Some rec) = None))"
proof (cases "Get rs key now")
  case None
  let ?K = "nat (cfg_K (normalise_cfg cfg))" and ?A = "nat (cfg_Alpha (normalise_cfg cfg))"
    and ?R = "nat (cfg_MaxRounds (normalise_cfg cfg))"
  obtain res q rs' rt' where l: "value_loop cr e ?K ?A key ?R 0 0 rs rt (seed rt key ?K) = (res, q, rs', rt')"
    by (metis prod.exhaust)
  have "lk_inv cr key (rt, seed rt key ?K)"
    using assms(1) seed_ok [OF assms(1)] by (simp add: lk_inv_def)
  from value_loop_inv [OF l assms(4,3) this assms(2)] show ?thesis
    using l None by (simp add: IterativeFindValue_def Let_def)
next
  case (Some rec)
  then show ?thesis
    using assms(1,2) by (auto simp: IterativeFindValue_def memstore.serves_valid_def)
qed

theorem find_value_valid_witness:
  "memstore.serves_valid demo_crypto
     (fst (snd (snd (IterativeFindValue demo_crypto sample_env 5 (pad32 [1]) DefaultValueLookupConfig NewMemRecordStore sample_rt))))"
  using find_value_valid [OF sample_rt_good rs_reach_valid [OF rs_reach.init] sample_env_fair demo_crypto_ok(1),
      where now = 5 and key = "pad32 [1]" and cfg = DefaultValueLookupConfig]
  by (simp split: prod.splits)

end
