(* ===== verification/Publish.thy ===== *)
theory Publish
  imports Lookup
begin

text \<open>
  Publishing and maintaining records (\<^verbatim>\<open>internal/dht/records_api.go\<close>, \<^verbatim>\<open>record_maintenance.go\<close>): building
  and signing a record, storing it locally and at the nearest nodes, and republishing the owned
  records. \<open>publish_env\<close> holds what a call does not control: the readings of the clock, the lookup's
  environment, the outcome of every \<^verbatim>\<open>QueryStore\<close> and the order in which the outcomes arrive.
\<close>

subsection \<open>Operations\<close>

record publish_env =
  pe_clock :: "nat \<Rightarrow> gotime"
  pe_lookup :: lookup_env
  pe_store :: "DHTNode \<Rightarrow> dht_error + DHTWire"
  pe_arrive :: "DHTNode list \<Rightarrow> DHTNode list"

record PublishConfig =
  pc_K :: int
  pc_Alpha :: int
  pc_RPCTimeout :: int

definition DefaultPublishConfig :: PublishConfig where
  "DefaultPublishConfig = \<lparr>pc_K = 20, pc_Alpha = 3, pc_RPCTimeout = 1200 * millisecond\<rparr>"

definition normalise_publish :: "PublishConfig \<Rightarrow> PublishConfig" where
  "normalise_publish cfg =
     \<lparr>pc_K = (if pc_K cfg \<le> 0 then 20 else pc_K cfg),
      pc_Alpha = (if pc_Alpha cfg \<le> 0 then 3 else pc_Alpha cfg),
      pc_RPCTimeout = (if pc_RPCTimeout cfg \<le> 0 then 1200 * millisecond else pc_RPCTimeout cfg)\<rparr>"

text \<open>What one storing goroutine puts on the error channel.\<close>

definition store_outcome :: "dht_error + DHTWire \<Rightarrow> dht_error option" where
  "store_outcome r =
     (case r of
        Inl e \<Rightarrow> Some e
      | Inr w \<Rightarrow> if w_Kind w = ''STORE_RESULT'' \<and> \<not> w_OK w then Some ErrBadRecord else None)"

fun first_err :: "dht_error option list \<Rightarrow> dht_error option" where
  "first_err [] = None"
| "first_err (Some e # es) = Some e"
| "first_err (None # es) = first_err es"

definition republishDelay :: int where
  "republishDelay = 30 * minute"

text \<open>The result: the error, the nodes that received a \<^verbatim>\<open>STORE\<close>, the new state.\<close>

definition PublishRecord ::
  "crypto \<Rightarrow> publish_env \<Rightarrow> rkey \<Rightarrow> DHTRecord option \<Rightarrow> PublishConfig \<Rightarrow> DHT \<Rightarrow>
     dht_error option \<times> DHTNode list \<times> DHT" where
  "PublishRecord cr pe key rec cfg0 d =
     (let cfg = normalise_publish cfg0
      in case ValidateRecordAgainstKey cr (pe_clock pe 1) key rec of
           Some e \<Rightarrow> (Some e, [], d)
         | None \<Rightarrow>
             let now = pe_clock pe 2;
                 d1 = d\<lparr>d_rs := snd (Put (d_rs d) key rec now),
                        d_owned := (d_owned d)(key \<mapsto> now + republishDelay)\<rparr>;
                 lookupCfg = DefaultLookupConfig\<lparr>cfg_K := pc_K cfg, cfg_Alpha := pc_Alpha cfg,
                   cfg_RPCTimeout := pc_RPCTimeout cfg\<rparr>
             in case IterativeFindNode cr (pe_lookup pe) (Hex key) lookupCfg (d_rt d1) of
                  (Inl e, _, rt) \<Rightarrow> (Some e, [], d1\<lparr>d_rt := rt\<rparr>)
                | (Inr nds, _, rt) \<Rightarrow>
                    let targets = take (nat (pc_K cfg)) nds
                    in (first_err (map (\<lambda>nd. store_outcome (pe_store pe nd)) (pe_arrive pe targets)),
                        targets, d1\<lparr>d_rt := rt\<rparr>))"

definition immutable_record :: "gotime \<Rightarrow> bytes \<Rightarrow> int \<Rightarrow> DHTRecord" where
  "immutable_record now v ttl =
     \<lparr>rec_Type = RecordImmutable, rec_Value = v, rec_CreatedUnix = word_of_int (Unix now),
      rec_ExpiresUnix = (if ttl > 0 then word_of_int (Unix (now + ttl)) else 0),
      rec_PubKey = [], rec_Seq = 0, rec_Sig = [], rec_Name = []\<rparr>"

definition PutImmutable ::
  "crypto \<Rightarrow> publish_env \<Rightarrow> bytes \<Rightarrow> int \<Rightarrow> DHT \<Rightarrow> rkey \<times> dht_error option \<times> DHTNode list \<times> DHT" where
  "PutImmutable cr pe v ttl d =
     (let key = KeyFromImmutable cr v
      in (key, PublishRecord cr pe key (Some (immutable_record (pe_clock pe 0) v ttl)) DefaultPublishConfig d))"

definition mutable_record :: "crypto \<Rightarrow> gotime \<Rightarrow> bytes \<Rightarrow> string \<Rightarrow> bytes \<Rightarrow> uint64 \<Rightarrow> int \<Rightarrow> DHTRecord" where
  "mutable_record cr now priv name v seq ttl =
     (let pub = ed25519_public cr priv;
          key = KeyFromMutable cr pub name;
          expires = (if ttl > 0 then word_of_int (Unix (now + ttl)) else 0)
      in \<lparr>rec_Type = RecordMutable, rec_Value = v, rec_CreatedUnix = word_of_int (Unix now),
          rec_ExpiresUnix = expires, rec_PubKey = pub, rec_Seq = seq,
          rec_Sig = SignMutable cr priv key seq expires v, rec_Name = name\<rparr>)"

definition PutMutable ::
  "crypto \<Rightarrow> publish_env \<Rightarrow> bytes \<Rightarrow> string \<Rightarrow> bytes \<Rightarrow> uint64 \<Rightarrow> int \<Rightarrow> DHT \<Rightarrow>
     rkey \<times> dht_error option \<times> DHTNode list \<times> DHT" where
  "PutMutable cr pe priv name v seq ttl d =
     (let key = KeyFromMutable cr (ed25519_public cr priv) name
      in (key, PublishRecord cr pe key (Some (mutable_record cr (pe_clock pe 0) priv name v seq ttl))
            DefaultPublishConfig d))"

definition GetValue ::
  "crypto \<Rightarrow> lookup_env \<Rightarrow> gotime \<Rightarrow> rkey \<Rightarrow> DHT \<Rightarrow> (dht_error + DHTRecord option) \<times> DHT" where
  "GetValue cr e now key d =
     (case IterativeFindValue cr e now key DefaultLookupConfig (d_rs d) (d_rt d) of
        (res, _, rs, rt) \<Rightarrow> (res, d\<lparr>d_rs := rs, d_rt := rt\<rparr>))"

subsection \<open>Maintenance\<close>

text \<open>The keys due at \<open>now\<close>, in the iteration order \<open>ks\<close>.\<close>

definition due_keys :: "rkey list \<Rightarrow> gotime \<Rightarrow> DHT \<Rightarrow> rkey list" where
  "due_keys ks now d =
     filter (\<lambda>k. case d_owned d k of None \<Rightarrow> False | Some next \<Rightarrow> IsZero next \<or> \<not> now < next) ks"

definition republish_key :: "crypto \<Rightarrow> publish_env \<Rightarrow> rkey \<Rightarrow> DHT \<Rightarrow> DHT" where
  "republish_key cr pe k d =
     (case Get (d_rs d) k (pe_clock pe 0) of
        None \<Rightarrow> d\<lparr>d_owned := (d_owned d)(k := None)\<rparr>
      | Some rec \<Rightarrow>
          let d1 = snd (snd (PublishRecord cr pe k (Some rec) DefaultPublishConfig d))
          in d1\<lparr>d_owned := (d_owned d1)(k \<mapsto> pe_clock pe 3 + republishDelay)\<rparr>)"

text \<open>\<open>cancelled k\<close>: the context ends before \<open>k\<close> is handled.\<close>

fun republish_all :: "crypto \<Rightarrow> (rkey \<Rightarrow> publish_env) \<Rightarrow> (rkey \<Rightarrow> bool) \<Rightarrow> rkey list \<Rightarrow> DHT \<Rightarrow> DHT" where
  "republish_all cr pes cancelled [] d = d"
| "republish_all cr pes cancelled (k # ks) d =
     (if cancelled k then d
      else republish_all cr pes cancelled ks (republish_key cr (pes k) k d))"

definition republishOwned ::
  "crypto \<Rightarrow> (rkey \<Rightarrow> publish_env) \<Rightarrow> (rkey \<Rightarrow> bool) \<Rightarrow> rkey list \<Rightarrow> gotime \<Rightarrow> DHT \<Rightarrow> DHT" where
  "republishOwned cr pes cancelled ks now d = republish_all cr pes cancelled (due_keys ks now d) d"

record MaintenanceConfig =
  mc_SweepInterval :: int
  mc_RepublishInterval :: int

definition DefaultMaintenanceConfig :: MaintenanceConfig where
  "DefaultMaintenanceConfig = \<lparr>mc_SweepInterval = 2 * minute, mc_RepublishInterval = 30 * minute\<rparr>"

text \<open>The select loop of \<^verbatim>\<open>RunRecordMaintenance\<close>: one event is a tick of either ticker.\<close>

datatype maintenance_tick =
    SweepTick gotime "rkey list"
  | RepublishTick "rkey \<Rightarrow> publish_env" "rkey \<Rightarrow> bool" "rkey list" gotime

fun maintenance_step :: "crypto \<Rightarrow> maintenance_tick \<Rightarrow> DHT \<Rightarrow> DHT" where
  "maintenance_step cr (SweepTick now ks) d = d\<lparr>d_rs := snd (SweepExpired now ks (d_rs d) now)\<rparr>"
| "maintenance_step cr (RepublishTick pes cancelled ks now) d = republishOwned cr pes cancelled ks now d"

definition RunRecordMaintenance :: "crypto \<Rightarrow> maintenance_tick list \<Rightarrow> DHT \<Rightarrow> DHT" where
  "RunRecordMaintenance cr ticks d = fold (maintenance_step cr) ticks d"

subsection \<open>Building records\<close>

lemma sint_word_of_int: "- (2 ^ 63) \<le> x \<Longrightarrow> x < 2 ^ 63 \<Longrightarrow> sint (word_of_int x :: int64) = x"
  by (simp add: sint_sbintrunc' signed_take_bit_int_eq_self)

text \<open>A record with a positive time to live is not expired until then; without one it never is.\<close>

lemma built_not_expired:
  assumes "rec_ExpiresUnix r = (if ttl > 0 then word_of_int (Unix (now + ttl)) else 0)"
    and "Unix (now + ttl) < 2 ^ 63" "- (2 ^ 63) \<le> Unix (now + ttl)" "ttl > 0 \<longrightarrow> t \<le> now + ttl"
  shows "\<not> expired t r"
  using assms Unix_mono [of t "now + ttl"]
  by (auto simp: expired_def sint_word_of_int split: if_splits)

lemma mutable_record_well_signed:
  assumes "ed25519_correct cr" "length v \<le> maxValue"
  shows "well_signed cr (KeyFromMutable cr (ed25519_public cr priv) name)
    (mutable_record cr now priv name v seq ttl)"
  using assms
  by (simp add: well_signed_def mutable_record_def Let_def SignMutable_def VerifyMutable_def ed25519_correct_def)

lemma immutable_record_well_signed:
  "length v \<le> maxValue \<Longrightarrow> well_signed cr (KeyFromImmutable cr v) (immutable_record now v ttl)"
  by (simp add: well_signed_def immutable_record_def KeyFromImmutable_def)

subsection \<open>Publishing\<close>

lemma first_err_None: "first_err es = None \<longleftrightarrow> (\<forall>e \<in> set es. e = None)"
  by (induction es rule: first_err.induct) auto

lemma PublishRecord_invalid:
  "ValidateRecordAgainstKey cr (pe_clock pe 1) key rec = Some e \<Longrightarrow>
     PublishRecord cr pe key rec cfg d = (Some e, [], d)"
  by (simp add: PublishRecord_def)

lemma PublishRecord_state:
  assumes "ValidateRecordAgainstKey cr (pe_clock pe 1) key rec = None" "length key = 32"
  obtains nds q rt where
    "IterativeFindNode cr (pe_lookup pe) (Hex key) (DefaultLookupConfig\<lparr>cfg_K := pc_K (normalise_publish cfg),
       cfg_Alpha := pc_Alpha (normalise_publish cfg), cfg_RPCTimeout := pc_RPCTimeout (normalise_publish cfg)\<rparr>)
       (d_rt d) = (Inr nds, q, rt)"
    "PublishRecord cr pe key rec cfg d =
      (first_err (map (\<lambda>nd. store_outcome (pe_store pe nd))
         (pe_arrive pe (take (nat (pc_K (normalise_publish cfg))) nds))),
       take (nat (pc_K (normalise_publish cfg))) nds,
       d\<lparr>d_rs := snd (Put (d_rs d) key rec (pe_clock pe 2)),
         d_owned := (d_owned d)(key \<mapsto> pe_clock pe 2 + republishDelay), d_rt := rt\<rparr>)"
proof -
  let ?cfg = "DefaultLookupConfig\<lparr>cfg_K := pc_K (normalise_publish cfg),
       cfg_Alpha := pc_Alpha (normalise_publish cfg), cfg_RPCTimeout := pc_RPCTimeout (normalise_publish cfg)\<rparr>"
  obtain res q rt where l: "IterativeFindNode cr (pe_lookup pe) (Hex key) ?cfg (d_rt d) = (res, q, rt)"
    by (metis prod.exhaust)
  have "\<exists>nds. res = Inr nds"
    using l assms(2) by (auto simp: IterativeFindNode_def Let_def nodeid_ok_length split: prod.splits option.splits)
  then obtain nds where "res = Inr nds" by blast
  with l assms(1) that [of nds q rt] show ?thesis
    by (simp add: PublishRecord_def Let_def)
qed

lemma PublishRecord_inv [inv_intros]:
  assumes "dht_inv cr d" "sha256_size cr" "fair_env (pe_lookup pe)" "length key = 32"
  shows "dht_inv cr (snd (snd (PublishRecord cr pe key rec cfg d)))"
proof (cases "ValidateRecordAgainstKey cr (pe_clock pe 1) key rec")
  case (Some e)
  then show ?thesis using assms(1) by (simp add: PublishRecord_invalid)
next
  case None
  let ?cfg = "DefaultLookupConfig\<lparr>cfg_K := pc_K (normalise_publish cfg),
       cfg_Alpha := pc_Alpha (normalise_publish cfg), cfg_RPCTimeout := pc_RPCTimeout (normalise_publish cfg)\<rparr>"
  obtain nds q rt where p: "IterativeFindNode cr (pe_lookup pe) (Hex key) ?cfg (d_rt d) = (Inr nds, q, rt)"
    "snd (snd (PublishRecord cr pe key rec cfg d)) =
      d\<lparr>d_rs := snd (Put (d_rs d) key rec (pe_clock pe 2)),
        d_owned := (d_owned d)(key \<mapsto> pe_clock pe 2 + republishDelay), d_rt := rt\<rparr>"
    using PublishRecord_state [OF None assms(4), where d = d and cfg = cfg] by (metis snd_conv)
  have "rt_good cr rt \<and> rt_self rt = rt_self (d_rt d)"
    using IterativeFindNode_good [OF _ assms(3,2) p(1)] assms(1) by (simp add: rt_good_def dht_inv_def)
  moreover have "memstore.serves_valid cr (snd (Put (d_rs d) key rec (pe_clock pe 2)))"
    using memstore.serves_valid_put [OF _ None] assms(1) by (simp add: dht_inv_def)
  ultimately show ?thesis
    using assms(1) unfolding p(2) by (simp add: dht_inv_def rt_good_def)
qed

lemma PublishRecord_frame:
  assumes "k \<noteq> key"
  shows "d_owned (snd (snd (PublishRecord cr pe key rec cfg d))) k = d_owned d k"
    "Get (d_rs (snd (snd (PublishRecord cr pe key rec cfg d)))) k t = Get (d_rs d) k t"
  using assms memstore.put_other [of k key "d_rs d" rec "pe_clock pe 2" t]
  by (auto simp: PublishRecord_def Let_def split: option.splits sum.splits prod.splits)

lemma republish_key_owned:
  "d_owned (republish_key cr pe k d) k' =
     (if k' = k then if Get (d_rs d) k (pe_clock pe 0) = None then None else Some (pe_clock pe 3 + republishDelay)
      else d_owned d k')"
  by (auto simp: republish_key_def Let_def PublishRecord_frame split: option.splits)

lemma republish_key_get: "k' \<noteq> k \<Longrightarrow> Get (d_rs (republish_key cr pe k d)) k' t = Get (d_rs d) k' t"
  by (auto simp: republish_key_def Let_def PublishRecord_frame split: option.splits)

lemma republish_all_owned:
  assumes "distinct ks" "\<forall>k. \<not> cancelled k"
  shows "d_owned (republish_all cr pes cancelled ks d) k =
    (if k \<in> set ks
     then if Get (d_rs d) k (pe_clock (pes k) 0) = None then None else Some (pe_clock (pes k) 3 + republishDelay)
     else d_owned d k)"
  using assms
proof (induction ks arbitrary: d)
  case (Cons a ks)
  show ?case
  proof (cases "k = a")
    case False
    then have "Get (d_rs (republish_key cr (pes a) a d)) k t = Get (d_rs d) k t" for t
      by (rule republish_key_get)
    with False Cons show ?thesis by (simp add: republish_key_owned)
  qed (use Cons in \<open>simp add: republish_key_owned\<close>)
qed simp

subsection \<open>Sample publication\<close>

definition sample_publish :: publish_env where
  "sample_publish = \<lparr>pe_clock = (\<lambda>_. 63 * 10 ^ 18), pe_lookup = sample_env, pe_store = (\<lambda>_. Inl DeadlineExceeded),
     pe_arrive = (\<lambda>xs. xs)\<rparr>"

subsection \<open>Properties\<close>

text \<open>C26: publishing a mutable record works end to end on the publishing node: the record \<^verbatim>\<open>PutMutable\<close>
  builds and signs passes validation, so unless a newer version is stored it is stored, owned for
  republication, sent to at most 20 nodes, reported as failed exactly when a node did not take it, and
  returned unchanged by \<^verbatim>\<open>GetValue\<close> until it expires.\<close>

theorem put_mutable_get_value:
  assumes "ed25519_correct cr" "sha256_size cr" "length v \<le> maxValue" "\<forall>xs. mset (pe_arrive pe xs) = mset xs"
    and "- (2 ^ 63) \<le> Unix (pe_clock pe 0 + ttl)" "Unix (pe_clock pe 0 + ttl) < 2 ^ 63"
    and "ttl > 0 \<longrightarrow> pe_clock pe 1 \<le> pe_clock pe 0 + ttl \<and> t \<le> pe_clock pe 0 + ttl"
    and "fst (Put (d_rs d) (KeyFromMutable cr (ed25519_public cr priv) name)
      (Some (mutable_record cr (pe_clock pe 0) priv name v seq ttl)) (pe_clock pe 2)) = None"
  shows "case PutMutable cr pe priv name v seq ttl d of (key, err, targets, d') \<Rightarrow>
    fst (GetValue cr e t key d') = Inr (Some (mutable_record cr (pe_clock pe 0) priv name v seq ttl)) \<and>
    d_owned d' key = Some (pe_clock pe 2 + 30 * minute) \<and> length targets \<le> 20 \<and>
    (err = None \<longleftrightarrow> (\<forall>nd \<in> set targets. store_outcome (pe_store pe nd) = None))"
proof -
  let ?key = "KeyFromMutable cr (ed25519_public cr priv) name"
    and ?r = "mutable_record cr (pe_clock pe 0) priv name v seq ttl"
  have ex: "rec_ExpiresUnix ?r = (if ttl > 0 then word_of_int (Unix (pe_clock pe 0 + ttl)) else 0)"
    by (simp add: mutable_record_def Let_def)
  have fresh: "\<not> expired (pe_clock pe 1) ?r" "\<not> expired t ?r"
    using built_not_expired [OF ex assms(6,5)] assms(7) by blast+
  have valid: "ValidateRecordAgainstKey cr (pe_clock pe 1) ?key (Some ?r) = None"
    unfolding Validate_None_iff using fresh mutable_record_well_signed [OF assms(1,3)] by blast
  have len: "length ?key = 32" using assms(2) by (simp add: KeyFromMutable_def)
  have K: "nat (pc_K (normalise_publish DefaultPublishConfig)) = 20"
    by (simp add: normalise_publish_def DefaultPublishConfig_def)
  obtain nds q rt where p: "PublishRecord cr pe ?key (Some ?r) DefaultPublishConfig d =
      (first_err (map (\<lambda>nd. store_outcome (pe_store pe nd)) (pe_arrive pe (take 20 nds))), take 20 nds,
       d\<lparr>d_rs := snd (Put (d_rs d) ?key (Some ?r) (pe_clock pe 2)),
         d_owned := (d_owned d)(?key \<mapsto> pe_clock pe 2 + republishDelay), d_rt := rt\<rparr>)"
    using PublishRecord_state [OF valid len, where cfg = DefaultPublishConfig and d = d, unfolded K] by blast
  have get: "Get (snd (Put (d_rs d) ?key (Some ?r) (pe_clock pe 2))) ?key t = Some ?r"
    using assms(8) fresh(2) by (rule Put_then_Get)
  have "set (pe_arrive pe (take 20 nds)) = set (take 20 nds)"
    using assms(4) by (metis set_mset_mset)
  then show ?thesis
    by (simp add: PutMutable_def Let_def p GetValue_def IterativeFindValue_def get republishDelay_def first_err_None)
qed

theorem put_mutable_get_value_witness:
  "fst (GetValue demo_crypto sample_env (63 * 10 ^ 18) (KeyFromMutable demo_crypto (pad32 [7]) ''profile'')
     (snd (snd (snd (PutMutable demo_crypto sample_publish [7] ''profile'' [9] 1 second sample_dht))))) =
   Inr (Some (mutable_record demo_crypto (63 * 10 ^ 18) [7] ''profile'' [9] 1 second))"
proof -
  have pub: "ed25519_public demo_crypto [7] = pad32 [7]" by (simp add: demo_crypto_def)
  have "case PutMutable demo_crypto sample_publish [7] ''profile'' [9] 1 second sample_dht of
    (key, err, targets, d') \<Rightarrow>
    fst (GetValue demo_crypto sample_env (63 * 10 ^ 18) key d') =
      Inr (Some (mutable_record demo_crypto (pe_clock sample_publish 0) [7] ''profile'' [9] 1 second)) \<and>
    d_owned d' key = Some (pe_clock sample_publish 2 + 30 * minute) \<and> length targets \<le> 20 \<and>
    (err = None \<longleftrightarrow> (\<forall>nd \<in> set targets. store_outcome (pe_store sample_publish nd) = None))"
    by (rule put_mutable_get_value)
      (simp_all add: sample_publish_def maxValue_def Unix_def second_def Put_cases sample_dht_def NewMemRecordStore_def)
  then show ?thesis
    by (simp add: PutMutable_def Let_def pub sample_publish_def split: prod.splits)
qed

text \<open>A republication round handles every owned record once: a record that is due and still live is
  rescheduled 30 minutes after its publication, a due record that has expired or was deleted is
  forgotten, and a record that is not due keeps its date.\<close>

lemma republish_owned_schedule:
  assumes "enumerates ks (d_owned d)" "\<forall>k. \<not> cancelled k"
  shows "d_owned (republishOwned cr pes cancelled ks now d) k =
    (case d_owned d k of
       None \<Rightarrow> None
     | Some next \<Rightarrow>
         if IsZero next \<or> next \<le> now
         then if Get (d_rs d) k (pe_clock (pes k) 0) = None then None
              else Some (pe_clock (pes k) 3 + 30 * minute)
         else Some next)"
proof -
  have "distinct (due_keys ks now d)"
    using assms(1) by (simp add: due_keys_def enumerates_distinct)
  moreover have "k \<in> set (due_keys ks now d) \<longleftrightarrow> (\<exists>next. d_owned d k = Some next \<and> (IsZero next \<or> next \<le> now))"
    using enumerates_set [OF assms(1)] by (auto simp: due_keys_def not_less split: option.splits)
  ultimately show ?thesis
    using assms(2) by (auto simp: republishOwned_def republish_all_owned republishDelay_def split: option.splits)
qed

end
