(* ===== verification/Json.thy ===== *)
theory Json
  imports GoLib
begin

text \<open>
  The part of \<^verbatim>\<open>encoding/json\<close> the program uses, on strings of bytes: the text \<^verbatim>\<open>json.Marshal\<close> writes for a value, and the scanner of
  \<^verbatim>\<open>json.Unmarshal\<close> and \<^verbatim>\<open>json.Decoder\<close> with its states and its stack. The scanner of the library only classifies bytes
  and the decoder builds the value while it follows; here the stack carries the value built so far, so that scanning and parsing
  are one function.
\<close>

subsection \<open>Values\<close>

text \<open>A number is kept as its literal, as the library does until the type of the field is known.\<close>

datatype json_value =
    JNull
  | JBool bool
  | JNumber string
  | JString string
  | JArray "json_value list"
  | JObject "(string \<times> json_value) list"

subsection \<open>UTF-8\<close>

abbreviation code :: "char \<Rightarrow> nat" where
  "code c \<equiv> of_char c"

text \<open>\<open>n\<close> continuation bytes, the first one between \<open>lo\<close> and \<open>hi\<close>.\<close>

definition continued :: "nat \<Rightarrow> nat \<Rightarrow> nat \<Rightarrow> string \<Rightarrow> bool" where
  "continued lo hi n t \<longleftrightarrow>
     n \<le> length t \<and> lo \<le> code (t ! 0) \<and> code (t ! 0) \<le> hi \<and> (\<forall>c \<in> set (take n t). 128 \<le> code c \<and> code c < 192)"

text \<open>The length of the character at the front of a string, 0 if it is not valid UTF-8 (\<^verbatim>\<open>utf8.DecodeRuneInString\<close>).\<close>

definition utf8_size :: "string \<Rightarrow> nat" where
  "utf8_size s =
     (case s of
        [] \<Rightarrow> 0
      | c # t \<Rightarrow>
          let b = code c
          in if b < 128 then 1
             else if 194 \<le> b \<and> b \<le> 223 \<and> continued 128 191 1 t then 2
             else if 224 \<le> b \<and> b \<le> 239 \<and> continued (if b = 224 then 160 else 128) (if b = 237 then 159 else 191) 2 t then 3
             else if 240 \<le> b \<and> b \<le> 244 \<and> continued (if b = 240 then 144 else 128) (if b = 244 then 143 else 191) 3 t then 4
             else 0)"

fun utf8_valid :: "string \<Rightarrow> bool" where
  "utf8_valid [] \<longleftrightarrow> True"
| "utf8_valid (c # s) \<longleftrightarrow> utf8_size (c # s) \<noteq> 0 \<and> utf8_valid (drop (utf8_size (c # s) - 1) s)"

lemma utf8_size_le: "utf8_size s \<le> length s"
  by (auto simp: utf8_size_def continued_def Let_def split: list.splits)

lemma utf8_size_ascii [simp]: "code c < 128 \<Longrightarrow> utf8_size (c # s) = 1"
  by (simp add: utf8_size_def)

lemma utf8_valid_ascii: "\<forall>c \<in> set s. code c < 128 \<Longrightarrow> utf8_valid s"
  by (induction s) auto

text \<open>\<^verbatim>\<open>utf8.EncodeRune\<close>; surrogates and numbers out of range become the replacement character.\<close>

definition replacement :: string where
  "replacement = map char_of [239 :: nat, 191, 189]"

text \<open>\<^verbatim>\<open>strings.ToValidUTF8\<close> byte by byte: what is left of a string that is written and read.\<close>

fun sanitize :: "string \<Rightarrow> string" where
  "sanitize [] = []"
| "sanitize (c # s) =
     (let n = utf8_size (c # s) in if n = 0 then replacement @ sanitize s else take n (c # s) @ sanitize (drop (n - 1) s))"

declare sanitize.simps(2) [simp del]

lemma sanitize_Nil [simp]: "sanitize s = [] \<longleftrightarrow> s = []"
  by (cases s) (auto simp: sanitize.simps(2) Let_def replacement_def)

lemma take_drop_char: "0 < n \<Longrightarrow> take n (c # s) @ drop (n - Suc 0) s = c # s"
  by (cases n) simp_all

lemma sanitize_valid: "utf8_valid s \<Longrightarrow> sanitize s = s"
  by (induction s rule: sanitize.induct) (simp_all add: sanitize.simps(2) Let_def take_drop_char)

definition EncodeRune :: "nat \<Rightarrow> string" where
  "EncodeRune r =
     (if r < 128 then [char_of r]
      else if r < 2048 then map char_of [192 + r div 64, 128 + r mod 64]
      else if 55296 \<le> r \<and> r < 57344 \<or> 1114111 < r then replacement
      else if r < 65536 then map char_of [224 + r div 4096, 128 + r div 64 mod 64, 128 + r mod 64]
      else map char_of [240 + r div 262144, 128 + r div 4096 mod 64, 128 + r div 64 mod 64, 128 + r mod 64])"

subsection \<open>Strings\<close>

definition hex_escape :: "nat \<Rightarrow> string" where
  "hex_escape n =
     [CHR 0x5C, CHR ''u''] @ [hexDigit (n div 4096 mod 16), hexDigit (n div 256 mod 16), hexDigit (n div 16 mod 16), hexDigit (n mod 16)]"

text \<open>An ASCII byte; \<^verbatim>\<open><\<close>, \<^verbatim>\<open>>\<close> and \<^verbatim>\<open>&\<close> are escaped by default.\<close>

definition escape_char :: "char \<Rightarrow> string" where
  "escape_char c =
     (if c = CHR 0x22 \<or> c = CHR 0x5C then [CHR 0x5C, c]
      else if c = CHR 0x08 then [CHR 0x5C, CHR ''b'']
      else if c = CHR 0x0C then [CHR 0x5C, CHR ''f'']
      else if c = CHR 0x0A then [CHR 0x5C, CHR ''n'']
      else if c = CHR 0x0D then [CHR 0x5C, CHR ''r'']
      else if c = CHR 0x09 then [CHR 0x5C, CHR ''t'']
      else if code c < 32 \<or> c = CHR ''<'' \<or> c = CHR ''>'' \<or> c = CHR ''&'' then hex_escape (code c)
      else [c])"

text \<open>U+2028 and U+2029.\<close>

definition line_separator :: "string \<Rightarrow> nat option" where
  "line_separator s =
     (if s = map char_of [226 :: nat, 128, 168] then Some 8232
      else if s = map char_of [226 :: nat, 128, 169] then Some 8233 else None)"

fun escape :: "string \<Rightarrow> string" where
  "escape [] = []"
| "escape (c # s) =
     (let n = utf8_size (c # s); rest = drop (n - 1) s
      in if code c < 128 then escape_char c @ escape s
         else if n = 0 then hex_escape 65533 @ escape s
         else (case line_separator (take n (c # s)) of
                 Some r \<Rightarrow> hex_escape r
               | None \<Rightarrow> take n (c # s)) @ escape rest)"

definition quote :: "string \<Rightarrow> string" where
  "quote s = CHR 0x22 # escape s @ [CHR 0x22]"

text \<open>Text that is written as it is.\<close>

definition plain_char :: "char \<Rightarrow> bool" where
  "plain_char c \<longleftrightarrow> code c < 128 \<and> escape_char c = [c]"

abbreviation plain :: "string \<Rightarrow> bool" where
  "plain s \<equiv> \<forall>c \<in> set s. plain_char c"

lemma escape_plain: "plain s \<Longrightarrow> escape s = s"
  by (induction s) (simp_all add: plain_char_def)

lemma utf8_plain: "plain s \<Longrightarrow> utf8_valid s"
  by (rule utf8_valid_ascii) (simp add: plain_char_def)

lemma hexDigit_plain: "n < 16 \<Longrightarrow> plain_char (hexDigit n)"
proof -
  have "\<forall>m \<in> set [0 ..< 16]. plain_char (hexDigit m)"
    by code_simp
  moreover assume "n < 16"
  ultimately show ?thesis by simp
qed

lemma hex_plain: "plain (EncodeToString bs)"
proof (induction bs)
  case (Cons b bs)
  have "unat b div 16 < 16"
    using unat_byte_less [of b] by (simp add: less_mult_imp_div_less)
  then show ?case
    using Cons by (simp add: hexDigit_plain)
qed simp

lemma b64_char_plain: "n < 64 \<Longrightarrow> plain_char (b64_char n)"
proof -
  assume n: "n < 64"
  have "b64_val c = None" if "c \<in> {CHR 0x22, CHR 0x5C, CHR 0x08, CHR 0x0C, CHR 0x0A, CHR 0x0D, CHR 0x09, CHR ''<'', CHR ''>'', CHR ''&''}" for c
    using that by (auto simp: b64_val_def)
  then have "b64_char n \<notin> {CHR 0x22, CHR 0x5C, CHR 0x08, CHR 0x0C, CHR 0x0A, CHR 0x0D, CHR 0x09, CHR ''<'', CHR ''>'', CHR ''&''}"
    using b64_val_char [OF n] by fastforce
  then show ?thesis
    using b64_char_range [OF n] by (simp add: plain_char_def escape_char_def)
qed

lemma b64_plain: "plain (EncodeBase64 bs)"
proof -
  have "plain_char CHR ''=''" by (simp add: plain_char_def escape_char_def)
  then show ?thesis
    by (induction bs rule: EncodeBase64.induct) (simp_all add: b64_char_plain)
qed

text \<open>Reading the inside of a string literal (\<^verbatim>\<open>unquote\<close>, \<^verbatim>\<open>getu4\<close>). A surrogate without its partner becomes the
  replacement character.\<close>

definition getu4 :: "string \<Rightarrow> nat option" where
  "getu4 s =
     (if length s < 6 \<or> s ! 0 \<noteq> CHR 0x5C \<or> s ! 1 \<noteq> CHR ''u'' then None
      else case (fromHexChar (s ! 2), fromHexChar (s ! 3), fromHexChar (s ! 4), fromHexChar (s ! 5)) of
        (Some w, Some x, Some y, Some z) \<Rightarrow> Some (4096 * w + 256 * x + 16 * y + z)
      | _ \<Rightarrow> None)"

definition surrogate_pair :: "nat \<Rightarrow> nat \<Rightarrow> nat option" where
  "surrogate_pair r r2 =
     (if 55296 \<le> r \<and> r < 56320 \<and> 56320 \<le> r2 \<and> r2 < 57344 then Some ((r - 55296) * 1024 + (r2 - 56320) + 65536) else None)"

definition unescape_char :: "char \<Rightarrow> char option" where
  "unescape_char c =
     (if c \<in> {CHR 0x22, CHR 0x5C, CHR ''/'', CHR 0x27} then Some c
      else if c = CHR ''b'' then Some CHR 0x08
      else if c = CHR ''f'' then Some CHR 0x0C
      else if c = CHR ''n'' then Some CHR 0x0A
      else if c = CHR ''r'' then Some CHR 0x0D
      else if c = CHR ''t'' then Some CHR 0x09
      else None)"

definition prepend :: "string \<Rightarrow> string option \<Rightarrow> string option" where
  "prepend s = map_option ((@) s)"

function unquote :: "string \<Rightarrow> string option" where
  "unquote [] = Some []"
| "unquote (c # s) =
     (if c = CHR 0x5C then
        (case s of
           [] \<Rightarrow> None
         | d # t \<Rightarrow>
             if d = CHR ''u'' then
               (case getu4 (c # s) of
                  None \<Rightarrow> None
                | Some r \<Rightarrow>
                    (case getu4 (drop 5 s) of
                       Some r2 \<Rightarrow>
                         (case surrogate_pair r r2 of
                            Some q \<Rightarrow> prepend (EncodeRune q) (unquote (drop 11 s))
                          | None \<Rightarrow> prepend (EncodeRune r) (unquote (drop 5 s)))
                     | None \<Rightarrow> prepend (EncodeRune r) (unquote (drop 5 s))))
             else
               (case unescape_char d of
                  None \<Rightarrow> None
                | Some e \<Rightarrow> prepend [e] (unquote t)))
      else if c = CHR 0x22 \<or> code c < 32 then None
      else if code c < 128 then prepend [c] (unquote s)
      else let n = utf8_size (c # s)
           in if n = 0 then prepend replacement (unquote s) else prepend (take n (c # s)) (unquote (drop (n - 1) s)))"
  by pat_completeness auto
termination
  by (relation "measure length") auto

declare unquote.simps(2) [simp del] escape.simps(2) [simp del]

lemma getu4_hex_escape [simp]: "n < 65536 \<Longrightarrow> getu4 (hex_escape n @ x) = Some n"
proof -
  assume "n < 65536"
  then have m: "n div 4096 < 16"
    by (simp add: less_mult_imp_div_less)
  then have "n div 4096 mod 16 = n div 4096"
    by simp
  moreover have "n div 16 div 16 = n div 256" "n div 256 div 16 = n div 4096"
    by (simp_all add: div_mult2_eq [symmetric])
  ultimately have "4096 * (n div 4096 mod 16) + 256 * (n div 256 mod 16) + 16 * (n div 16 mod 16) + n mod 16 = n"
    using div_mult_mod_eq [of n 16] div_mult_mod_eq [of "n div 16" 16] div_mult_mod_eq [of "n div 256" 16] by linarith
  then show ?thesis
    using m by (simp add: getu4_def hex_escape_def)
qed

lemma unquote_hex_escape:
  assumes "n < 65536" "n < 55296 \<or> 57344 \<le> n"
  shows "unquote (hex_escape n @ x) = prepend (EncodeRune n) (unquote x)"
proof -
  obtain t where t: "hex_escape n @ x = CHR 0x5C # CHR ''u'' # t" "drop 4 t = x"
    by (simp add: hex_escape_def)
  moreover have "surrogate_pair n r = None" for r
    using assms(2) by (auto simp: surrogate_pair_def)
  ultimately show ?thesis
    using getu4_hex_escape [OF assms(1), of x] by (auto simp: unquote.simps(2) split: option.splits)
qed

lemma unquote_escape_char: "code c < 128 \<Longrightarrow> unquote (escape_char c @ x) = prepend [c] (unquote x)"
  using unquote_hex_escape [of "code c" x]
  by (auto simp: escape_char_def unquote.simps(2) [of "CHR 0x5C"] unquote.simps(2) [of c] unescape_char_def EncodeRune_def)

lemma continued_take: "0 < n \<Longrightarrow> n \<le> m \<Longrightarrow> m \<le> length t \<Longrightarrow> continued lo hi n (take m t @ x) \<longleftrightarrow> continued lo hi n t"
  by (auto simp: continued_def nth_append min_def)

lemma utf8_size_take: "utf8_size (c # s) = n \<Longrightarrow> n \<noteq> 0 \<Longrightarrow> utf8_size (take n (c # s) @ x) = n"
  using utf8_size_le [of "c # s"]
  by (auto simp: utf8_size_def Let_def continued_take take_Cons' split: if_splits)

lemma unquote_utf8:
  assumes "utf8_size (c # s) = n" "n \<noteq> 0" "128 \<le> code c"
  shows "unquote (take n (c # s) @ x) = prepend (take n (c # s)) (unquote x)"
proof -
  obtain k where k: "n = Suc k" "k \<le> length s"
    using assms(1,2) utf8_size_le [of "c # s"] by (cases n) auto
  have "utf8_size (c # take k s @ x) = n"
    using utf8_size_take [OF assms(1,2), of x] k by simp
  moreover have "c \<noteq> CHR 0x5C" "c \<noteq> CHR 0x22"
    using assms(3) by auto
  ultimately show ?thesis
    using k assms(3) by (simp add: unquote.simps(2))
qed

lemma line_separator_Some:
  assumes "line_separator s = Some r"
  shows "(r = 8232 \<or> r = 8233) \<and> EncodeRune r = s"
  using assms by (auto simp: line_separator_def EncodeRune_def split: if_splits)

lemma unquote_escape: "unquote (escape s) = Some (sanitize s)"
proof (induction s rule: escape.induct)
  case (2 c s)
  let ?n = "utf8_size (c # s)"
  show ?case
  proof (cases "code c < 128")
    case True
    then show ?thesis
      using 2 by (simp add: escape.simps(2) sanitize.simps(2) unquote_escape_char prepend_def)
  next
    case False
    show ?thesis
    proof (cases "?n = 0")
      case True
      then show ?thesis
        using 2 False unquote_hex_escape [of 65533]
        by (simp add: escape.simps(2) sanitize.simps(2) Let_def prepend_def EncodeRune_def replacement_def)
    next
      case n: False
      have ih: "unquote (escape (drop (?n - 1) s)) = Some (sanitize (drop (?n - 1) s))"
        using 2 False n by simp
      show ?thesis
      proof (cases "line_separator (take ?n (c # s))")
        case None
        then show ?thesis
          using False n ih unquote_utf8 [of c s ?n] by (simp add: escape.simps(2) sanitize.simps(2) Let_def prepend_def)
      next
        case (Some r)
        then show ?thesis
          using False n ih line_separator_Some [OF Some] unquote_hex_escape [of r]
          by (auto simp: escape.simps(2) sanitize.simps(2) Let_def prepend_def)
      qed
    qed
  qed
qed simp

subsection \<open>Printing\<close>

fun print_json :: "json_value \<Rightarrow> string"
  and print_elems :: "json_value list \<Rightarrow> string"
  and print_members :: "(string \<times> json_value) list \<Rightarrow> string" where
  "print_json JNull = ''null''"
| "print_json (JBool b) = (if b then ''true'' else ''false'')"
| "print_json (JNumber n) = n"
| "print_json (JString s) = quote s"
| "print_json (JArray vs) = CHR ''['' # print_elems vs"
| "print_json (JObject ms) = CHR ''{'' # print_members ms"
| "print_elems [] = '']''"
| "print_elems (v # vs) = print_json v @ (if vs = [] then '']'' else CHR '','' # print_elems vs)"
| "print_members [] = ''}''"
| "print_members ((k, v) # ms) = quote k @ CHR '':'' # print_json v @ (if ms = [] then ''}'' else CHR '','' # print_members ms)"

subsection \<open>Scanning\<close>

text \<open>The states of the library's scanner. \<open>Lit rest v\<close> stands for the states inside \<^verbatim>\<open>true\<close>, \<^verbatim>\<open>false\<close> and \<^verbatim>\<open>null\<close>,
  \<open>InStringEscU n\<close> for the ones with \<open>n\<close> hex digits to come.\<close>

datatype scan_step =
    BeginValue | BeginValueOrEmpty | BeginString | BeginStringOrEmpty | EndValue | EndTop
  | InString | InStringEsc | InStringEscU nat | Neg | N0 | N1 | Dot | Dot0 | Exp | ExpSign | Exp0
  | Lit string json_value

text \<open>The parse stack: an array with its elements so far, an object before a key, after a key, before a value and after
  a value, with the members so far (latest first).\<close>

datatype frame =
    FArr "json_value list"
  | FKey "(string \<times> json_value) list"
  | FColon "(string \<times> json_value) list" string
  | FVal "(string \<times> json_value) list" string
  | FComma "(string \<times> json_value) list"

datatype scan_code = ScanContinue | ScanEndComposite | ScanEnd | ScanError

record scanner =
  jp_step :: scan_step
  jp_frames :: "frame list"
  jp_lit :: string
  jp_value :: "json_value option"

definition scan_init :: scanner where
  "scan_init = \<lparr>jp_step = BeginValue, jp_frames = [], jp_lit = [], jp_value = None\<rparr>"

definition maxNestingDepth :: nat where
  "maxNestingDepth = 10000"

definition json_blank :: "char \<Rightarrow> bool" where
  "json_blank c \<longleftrightarrow> c \<in> {CHR '' '', CHR 0x09, CHR 0x0D, CHR 0x0A}"

text \<open>A complete value goes to the frame on top, or is the result.\<close>

definition complete :: "json_value \<Rightarrow> scanner \<Rightarrow> scanner" where
  "complete v st =
     (case jp_frames st of
        [] \<Rightarrow> st\<lparr>jp_step := EndValue, jp_lit := [], jp_value := Some v\<rparr>
      | f # fs \<Rightarrow>
          st\<lparr>jp_step := EndValue, jp_lit := [],
             jp_frames :=
               (case f of
                  FArr vs \<Rightarrow> FArr (v # vs)
                | FKey ms \<Rightarrow> (case v of JString k \<Rightarrow> FColon ms k | _ \<Rightarrow> f)
                | FVal ms k \<Rightarrow> FComma ((k, v) # ms)
                | _ \<Rightarrow> f) # fs\<rparr>)"

text \<open>\<^verbatim>\<open>popParseState\<close>, with the value of the popped frame.\<close>

definition pop :: "json_value \<Rightarrow> scanner \<Rightarrow> scan_code \<times> scanner" where
  "pop v st =
     (case complete v (st\<lparr>jp_frames := tl (jp_frames st)\<rparr>) of
        st' \<Rightarrow> (ScanEndComposite, if jp_frames st' = [] then st'\<lparr>jp_step := EndTop\<rparr> else st'))"

definition push :: "frame \<Rightarrow> scan_step \<Rightarrow> scanner \<Rightarrow> scan_code \<times> scanner" where
  "push f next st =
     (if length (jp_frames st) < maxNestingDepth
      then (ScanContinue, st\<lparr>jp_step := next, jp_frames := f # jp_frames st\<rparr>) else (ScanError, st))"

abbreviation goes :: "scan_step \<Rightarrow> scanner \<Rightarrow> scan_code \<times> scanner" where
  "goes s st \<equiv> (ScanContinue, st\<lparr>jp_step := s\<rparr>)"

abbreviation keeps :: "char \<Rightarrow> scan_step \<Rightarrow> scanner \<Rightarrow> scan_code \<times> scanner" where
  "keeps c s st \<equiv> (ScanContinue, st\<lparr>jp_step := s, jp_lit := c # jp_lit st\<rparr>)"

definition end_top :: "char \<Rightarrow> scanner \<Rightarrow> scan_code \<times> scanner" where
  "end_top c st = (if json_blank c then (ScanEnd, st\<lparr>jp_step := EndTop\<rparr>) else (ScanError, st))"

definition end_value :: "char \<Rightarrow> scanner \<Rightarrow> scan_code \<times> scanner" where
  "end_value c st =
     (case jp_frames st of
        [] \<Rightarrow> end_top c st
      | f # fs \<Rightarrow>
          if json_blank c then goes EndValue st
          else (case f of
                  FColon ms k \<Rightarrow>
                    if c = CHR '':'' then (ScanContinue, st\<lparr>jp_step := BeginValue, jp_frames := FVal ms k # fs\<rparr>) else (ScanError, st)
                | FComma ms \<Rightarrow>
                    if c = CHR '','' then (ScanContinue, st\<lparr>jp_step := BeginString, jp_frames := FKey ms # fs\<rparr>)
                    else if c = CHR ''}'' then pop (JObject (rev ms)) st else (ScanError, st)
                | FArr vs \<Rightarrow>
                    if c = CHR '','' then goes BeginValue st
                    else if c = CHR '']'' then pop (JArray (rev vs)) st else (ScanError, st)
                | _ \<Rightarrow> (ScanError, st)))"

definition begin_value :: "char \<Rightarrow> scanner \<Rightarrow> scan_code \<times> scanner" where
  "begin_value c st =
     (if json_blank c then goes BeginValue st
      else if c = CHR ''{'' then push (FKey []) BeginStringOrEmpty st
      else if c = CHR ''['' then push (FArr []) BeginValueOrEmpty st
      else if c = CHR 0x22 then goes InString st
      else if c = CHR ''-'' then keeps c Neg st
      else if c = CHR ''0'' then keeps c N0 st
      else if c = CHR ''t'' then goes (Lit ''rue'' (JBool True)) st
      else if c = CHR ''f'' then goes (Lit ''alse'' (JBool False)) st
      else if c = CHR ''n'' then goes (Lit ''ull'' JNull) st
      else if is_digit c then keeps c N1 st
      else (ScanError, st))"

definition begin_string :: "char \<Rightarrow> scanner \<Rightarrow> scan_code \<times> scanner" where
  "begin_string c st =
     (if json_blank c then (ScanContinue, st)
      else if c = CHR 0x22 then goes InString st
      else (ScanError, st))"

text \<open>A string literal ends: its inside is unquoted.\<close>

definition end_string :: "scanner \<Rightarrow> scan_code \<times> scanner" where
  "end_string st =
     (case unquote (rev (jp_lit st)) of
        Some s \<Rightarrow> (ScanContinue, complete (JString s) st)
      | None \<Rightarrow> (ScanError, st))"

text \<open>A number ends with the byte after it.\<close>

definition end_number :: "char \<Rightarrow> scanner \<Rightarrow> scan_code \<times> scanner" where
  "end_number c st = end_value c (complete (JNumber (rev (jp_lit st))) st)"

definition after_int :: "char \<Rightarrow> scanner \<Rightarrow> scan_code \<times> scanner" where
  "after_int c st =
     (if c = CHR ''.'' then keeps c Dot st
      else if c = CHR ''e'' \<or> c = CHR ''E'' then keeps c Exp st
      else end_number c st)"

definition scan_char :: "char \<Rightarrow> scanner \<Rightarrow> scan_code \<times> scanner" where
  "scan_char c st =
     (case jp_step st of
        BeginValue \<Rightarrow> begin_value c st
      | BeginValueOrEmpty \<Rightarrow>
          if json_blank c then (ScanContinue, st) else if c = CHR '']'' then pop (JArray []) st else begin_value c st
      | BeginString \<Rightarrow> begin_string c st
      | BeginStringOrEmpty \<Rightarrow>
          if json_blank c then (ScanContinue, st) else if c = CHR ''}'' then pop (JObject []) st else begin_string c st
      | EndValue \<Rightarrow> end_value c st
      | EndTop \<Rightarrow> end_top c st
      | InString \<Rightarrow>
          if c = CHR 0x22 then end_string st
          else if c = CHR 0x5C then keeps c InStringEsc st
          else if code c < 32 then (ScanError, st)
          else keeps c InString st
      | InStringEsc \<Rightarrow>
          if c = CHR ''u'' then keeps c (InStringEscU 4) st
          else if c \<in> set ''bfnrt/'' \<or> c = CHR 0x5C \<or> c = CHR 0x22 then keeps c InString st
          else (ScanError, st)
      | InStringEscU n \<Rightarrow>
          if fromHexChar c = None then (ScanError, st) else keeps c (if n \<le> 1 then InString else InStringEscU (n - 1)) st
      | Neg \<Rightarrow> if c = CHR ''0'' then keeps c N0 st else if is_digit c then keeps c N1 st else (ScanError, st)
      | N1 \<Rightarrow> if is_digit c then keeps c N1 st else after_int c st
      | N0 \<Rightarrow> after_int c st
      | Dot \<Rightarrow> if is_digit c then keeps c Dot0 st else (ScanError, st)
      | Dot0 \<Rightarrow>
          if is_digit c then keeps c Dot0 st else if c = CHR ''e'' \<or> c = CHR ''E'' then keeps c Exp st else end_number c st
      | Exp \<Rightarrow>
          if c = CHR ''+'' \<or> c = CHR ''-'' then keeps c ExpSign st else if is_digit c then keeps c Exp0 st else (ScanError, st)
      | ExpSign \<Rightarrow> if is_digit c then keeps c Exp0 st else (ScanError, st)
      | Exp0 \<Rightarrow> if is_digit c then keeps c Exp0 st else end_number c st
      | Lit rest v \<Rightarrow>
          (case rest of
             d # ds \<Rightarrow> if c \<noteq> d then (ScanError, st) else if ds = [] then (ScanContinue, complete v st) else goes (Lit ds v) st
           | [] \<Rightarrow> (ScanError, st)))"

text \<open>\<^verbatim>\<open>json.Decoder\<close> looks for the first value in what it has read so far: the index of its last byte, or that more is needed,
  or a syntax error. An object or array ends with its closing bracket, another value with the byte after it.\<close>

datatype scan_result = ValueEnds nat | Incomplete | Malformed

fun scan_from :: "nat \<Rightarrow> scanner \<Rightarrow> string \<Rightarrow> scan_result" where
  "scan_from n st [] = Incomplete"
| "scan_from n st (c # s) =
     (case scan_char c st of
        (ScanEnd, _) \<Rightarrow> ValueEnds (n - 1)
      | (ScanEndComposite, st') \<Rightarrow> if jp_frames st' = [] then ValueEnds n else scan_from (Suc n) st' s
      | (ScanContinue, st') \<Rightarrow> scan_from (Suc n) st' s
      | (ScanError, _) \<Rightarrow> Malformed)"

text \<open>\<^verbatim>\<open>json.Unmarshal\<close>: every byte is scanned, then the end of the input acts like a space.\<close>

fun scan_all :: "scanner \<Rightarrow> string \<Rightarrow> scanner option" where
  "scan_all st [] = Some st"
| "scan_all st (c # s) =
     (case scan_char c st of (cd, st') \<Rightarrow> if cd = ScanError then None else scan_all st' s)"

definition parse_json :: "string \<Rightarrow> json_value option" where
  "parse_json s =
     (case scan_all scan_init s of
        None \<Rightarrow> None
      | Some st \<Rightarrow>
          if jp_step st = EndTop then jp_value st
          else (case scan_char (CHR '' '') st of
                  (ScanEnd, st') \<Rightarrow> jp_value st'
                | _ \<Rightarrow> None))"

subsection \<open>Scanning what was printed\<close>

text \<open>The printed integers: no leading zero, no fraction.\<close>

definition int_literal :: "string \<Rightarrow> bool" where
  "int_literal n \<longleftrightarrow>
     (let ds = (case n of c # cs \<Rightarrow> if c = CHR ''-'' then cs else n | [] \<Rightarrow> [])
      in ds \<noteq> [] \<and> (\<forall>c \<in> set ds. is_digit c) \<and> (hd ds = CHR ''0'' \<longrightarrow> ds = ''0''))"

fun json_wf :: "json_value \<Rightarrow> bool"
  and wf_elems :: "json_value list \<Rightarrow> bool"
  and wf_members :: "(string \<times> json_value) list \<Rightarrow> bool" where
  "json_wf JNull \<longleftrightarrow> True"
| "json_wf (JBool b) \<longleftrightarrow> True"
| "json_wf (JNumber n) \<longleftrightarrow> int_literal n"
| "json_wf (JString s) \<longleftrightarrow> True"
| "json_wf (JArray vs) \<longleftrightarrow> wf_elems vs"
| "json_wf (JObject ms) \<longleftrightarrow> wf_members ms"
| "wf_elems [] \<longleftrightarrow> True"
| "wf_elems (v # vs) \<longleftrightarrow> json_wf v \<and> wf_elems vs"
| "wf_members [] \<longleftrightarrow> True"
| "wf_members ((k, v) # ms) \<longleftrightarrow> json_wf v \<and> wf_members ms"

text \<open>What is left of a value: its strings are made valid.\<close>

fun clean :: "json_value \<Rightarrow> json_value"
  and clean_elems :: "json_value list \<Rightarrow> json_value list"
  and clean_members :: "(string \<times> json_value) list \<Rightarrow> (string \<times> json_value) list" where
  "clean JNull = JNull"
| "clean (JBool b) = JBool b"
| "clean (JNumber n) = JNumber n"
| "clean (JString s) = JString (sanitize s)"
| "clean (JArray vs) = JArray (clean_elems vs)"
| "clean (JObject ms) = JObject (clean_members ms)"
| "clean_elems [] = []"
| "clean_elems (v # vs) = clean v # clean_elems vs"
| "clean_members [] = []"
| "clean_members ((k, v) # ms) = (sanitize k, clean v) # clean_members ms"

fun json_text :: "json_value \<Rightarrow> bool"
  and text_elems :: "json_value list \<Rightarrow> bool"
  and text_members :: "(string \<times> json_value) list \<Rightarrow> bool" where
  "json_text JNull \<longleftrightarrow> True"
| "json_text (JBool b) \<longleftrightarrow> True"
| "json_text (JNumber n) \<longleftrightarrow> True"
| "json_text (JString s) \<longleftrightarrow> utf8_valid s"
| "json_text (JArray vs) \<longleftrightarrow> text_elems vs"
| "json_text (JObject ms) \<longleftrightarrow> text_members ms"
| "text_elems [] \<longleftrightarrow> True"
| "text_elems (v # vs) \<longleftrightarrow> json_text v \<and> text_elems vs"
| "text_members [] \<longleftrightarrow> True"
| "text_members ((k, v) # ms) \<longleftrightarrow> utf8_valid k \<and> json_text v \<and> text_members ms"

lemma clean_text:
  "json_text v \<Longrightarrow> clean v = v" "text_elems vs \<Longrightarrow> clean_elems vs = vs" "text_members ms \<Longrightarrow> clean_members ms = ms"
  by (induction v and vs and ms rule: clean_clean_elems_clean_members.induct) (simp_all add: sanitize_valid)

fun depth :: "json_value \<Rightarrow> nat"
  and depth_elems :: "json_value list \<Rightarrow> nat"
  and depth_members :: "(string \<times> json_value) list \<Rightarrow> nat" where
  "depth (JArray vs) = Suc (depth_elems vs)"
| "depth (JObject ms) = Suc (depth_members ms)"
| "depth JNull = 0"
| "depth (JBool b) = 0"
| "depth (JNumber n) = 0"
| "depth (JString s) = 0"
| "depth_elems [] = 0"
| "depth_elems (v # vs) = max (depth v) (depth_elems vs)"
| "depth_members [] = 0"
| "depth_members ((k, v) # ms) = max (depth v) (depth_members ms)"

text \<open>Scanning without reaching the end of the outermost value.\<close>

fun quiet :: "scanner \<Rightarrow> string \<Rightarrow> scanner option" where
  "quiet st [] = Some st"
| "quiet st (c # s) =
     (case scan_char c st of
        (cd, st') \<Rightarrow>
          if cd = ScanContinue \<or> cd = ScanEndComposite \<and> jp_frames st' \<noteq> [] then quiet st' s else None)"

lemma quiet_append: "quiet st (xs @ ys) = Option.bind (quiet st xs) (\<lambda>st'. quiet st' ys)"
  by (induction xs arbitrary: st) (auto split: prod.splits)

lemma quiet_snoc: "quiet st xs = Some st' \<Longrightarrow> scan_char c st' = (ScanContinue, st'') \<Longrightarrow> quiet st (xs @ [c]) = Some st''"
  by (simp add: quiet_append)

lemma complete_upd [simp]:
  "complete v (st\<lparr>jp_step := s\<rparr>) = complete v st" "complete v (st\<lparr>jp_lit := l\<rparr>) = complete v st"
  by (simp_all add: complete_def split: list.splits)

lemma pop_upd [simp]:
  "pop v (st\<lparr>jp_step := s\<rparr>) = pop v st" "pop v (st\<lparr>jp_lit := l\<rparr>) = pop v st"
  "pop v (st\<lparr>jp_frames := f # tl (jp_frames st)\<rparr>) = pop v st"
  by (simp_all add: pop_def complete_def split: list.splits)

lemma scan_in_string:
  "jp_step st = InString \<Longrightarrow> scan_char c st =
     (if c = CHR 0x22 then end_string st
      else if c = CHR 0x5C then keeps c InStringEsc st
      else if code c < 32 then (ScanError, st)
      else keeps c InString st)"
  "jp_step st = InStringEsc \<Longrightarrow> scan_char c st =
     (if c = CHR ''u'' then keeps c (InStringEscU 4) st
      else if c \<in> set ''bfnrt/'' \<or> c = CHR 0x5C \<or> c = CHR 0x22 then keeps c InString st
      else (ScanError, st))"
  "jp_step st = InStringEscU n \<Longrightarrow> fromHexChar c \<noteq> None \<Longrightarrow>
     scan_char c st = keeps c (if n \<le> 1 then InString else InStringEscU (n - 1)) st"
  by (simp_all only: scan_char_def scan_step.case if_False)

lemma scan_in_number:
  "jp_step st = Neg \<Longrightarrow> scan_char c st = (if c = CHR ''0'' then keeps c N0 st else if is_digit c then keeps c N1 st else (ScanError, st))"
  "jp_step st = N1 \<Longrightarrow> scan_char c st = (if is_digit c then keeps c N1 st else after_int c st)"
  "jp_step st = N0 \<Longrightarrow> scan_char c st = after_int c st"
  by (simp_all only: scan_char_def scan_step.case)

lemma scan_between:
  "jp_step st = BeginValue \<Longrightarrow> scan_char c st = begin_value c st"
  "jp_step st = BeginValueOrEmpty \<Longrightarrow> scan_char c st =
     (if json_blank c then (ScanContinue, st) else if c = CHR '']'' then pop (JArray []) st else begin_value c st)"
  "jp_step st = BeginString \<Longrightarrow> scan_char c st = begin_string c st"
  "jp_step st = BeginStringOrEmpty \<Longrightarrow> scan_char c st =
     (if json_blank c then (ScanContinue, st) else if c = CHR ''}'' then pop (JObject []) st else begin_string c st)"
  "jp_step st = EndValue \<Longrightarrow> scan_char c st = end_value c st"
  "jp_step st = EndTop \<Longrightarrow> scan_char c st = end_top c st"
  "jp_step st = Lit (d # ds) v \<Longrightarrow> scan_char c st =
     (if c \<noteq> d then (ScanError, st) else if ds = [] then (ScanContinue, complete v st) else goes (Lit ds v) st)"
  by (simp_all only: scan_char_def scan_step.case list.case)

text \<open>A piece of a string literal leaves the scanner inside the literal.\<close>

definition stays :: "string \<Rightarrow> bool" where
  "stays x \<longleftrightarrow> (\<forall>st. jp_step st = InString \<longrightarrow> quiet st x = Some (st\<lparr>jp_lit := rev x @ jp_lit st\<rparr>))"

lemma stays_simps [simp]: "stays []" "stays x \<Longrightarrow> stays y \<Longrightarrow> stays (x @ y)"
  by (simp_all add: stays_def quiet_append)

lemma stays_char [simp]: "32 \<le> code c \<Longrightarrow> c \<noteq> CHR 0x22 \<Longrightarrow> c \<noteq> CHR 0x5C \<Longrightarrow> stays [c]"
  by (simp add: stays_def scan_in_string)

lemma stays_high: "\<forall>c \<in> set x. 128 \<le> code c \<Longrightarrow> stays x"
proof (induction x)
  case (Cons c x)
  then have "c \<noteq> CHR 0x22" "c \<noteq> CHR 0x5C"
    by auto
  then have "stays [c]" "stays x"
    using Cons by auto
  then show ?case
    using stays_simps(2) [of "[c]" x] by simp
qed simp

lemma stays_hex_escape [simp]: "stays (hex_escape n)"
  by (simp add: stays_def hex_escape_def scan_in_string)

lemma stays_esc:
  "stays [CHR 0x5C, CHR 0x22]" "stays [CHR 0x5C, CHR 0x5C]" "stays [CHR 0x5C, CHR ''b'']" "stays [CHR 0x5C, CHR ''f'']"
  "stays [CHR 0x5C, CHR ''n'']" "stays [CHR 0x5C, CHR ''r'']" "stays [CHR 0x5C, CHR ''t'']"
  by (simp_all add: stays_def scan_in_string)

lemma stays_if: "(P \<Longrightarrow> stays x) \<Longrightarrow> (\<not> P \<Longrightarrow> stays y) \<Longrightarrow> stays (if P then x else y)"
  by simp

lemma stays_escape_char [simp]: "code c < 128 \<Longrightarrow> stays (escape_char c)"
  unfolding escape_char_def by (intro stays_if stays_esc stays_hex_escape stays_char) (auto simp only: stays_esc not_less de_Morgan_disj)

lemma utf8_size_continued: "128 \<le> code c \<Longrightarrow> utf8_size (c # s) = 0 \<or> (\<exists>lo hi. continued lo hi (utf8_size (c # s) - 1) s)"
  by (simp add: utf8_size_def Let_def) blast

lemma utf8_size_high: "128 \<le> code c \<Longrightarrow> \<forall>d \<in> set (take (utf8_size (c # s)) (c # s)). 128 \<le> code d"
  using utf8_size_continued [of c s] by (auto simp: continued_def take_Cons')

lemma stays_escape: "stays (escape s)"
proof (induction s rule: escape.induct)
  case (2 c s)
  have "stays (case line_separator (take (utf8_size (c # s)) (c # s)) of Some r \<Rightarrow> hex_escape r | None \<Rightarrow> take (utf8_size (c # s)) (c # s))"
    if "\<not> code c < 128"
    using stays_high utf8_size_high [of c s] that by (auto split: option.split)
  then show ?case
    using 2 by (auto simp: escape.simps(2) Let_def)
qed simp

text \<open>The bytes that can follow a value.\<close>

definition terminator :: "char \<Rightarrow> bool" where
  "terminator c \<longleftrightarrow> json_blank c \<or> c \<in> set '',]}''"

definition ends_as :: "scanner \<Rightarrow> scanner \<Rightarrow> bool" where
  "ends_as st' st \<longleftrightarrow> (\<forall>c. terminator c \<longrightarrow> scan_char c st' = scan_char c st)"

text \<open>\<open>xs\<close> is the rest of an array or object whose frame is on top of the stack and whose value is \<open>v\<close>.\<close>

definition closes :: "scanner \<Rightarrow> string \<Rightarrow> json_value \<Rightarrow> bool" where
  "closes st xs v \<longleftrightarrow>
     (\<exists>body c st1. xs = body @ [c] \<and> quiet st body = Some st1 \<and> scan_char c st1 = pop v st)"

lemma complete_frames [simp]: "jp_frames (complete v st) = [] \<longleftrightarrow> jp_frames st = []"
  by (simp add: complete_def split: list.splits)

lemma closes_quiet:
  assumes "closes st xs v" "tl (jp_frames st) \<noteq> []"
  shows "quiet st xs = Some (complete v (st\<lparr>jp_frames := tl (jp_frames st)\<rparr>))"
  using assms by (auto simp: closes_def quiet_append pop_def)

lemma closes_step:
  assumes "quiet st xs = Some st'" "closes st' ys v" "pop v st' = pop v st"
  shows "closes st (xs @ ys) v"
proof -
  obtain body c st1 where "ys = body @ [c]" "quiet st' body = Some st1" "scan_char c st1 = pop v st"
    using assms(2,3) by (auto simp: closes_def)
  then show ?thesis
    using assms(1) unfolding closes_def
    by (intro exI [of _ "xs @ body"] exI [of _ c] exI [of _ st1]) (simp add: quiet_append)
qed

lemma quote_scanned:
  assumes "jp_lit st = []" "jp_step st \<in> {BeginValue, BeginValueOrEmpty, BeginString, BeginStringOrEmpty}"
  shows "quiet st (quote s) = Some (complete (JString (sanitize s)) st)"
proof -
  have "scan_char (CHR 0x22) st = goes InString st"
    using assms(2) by (auto simp: scan_between begin_value_def begin_string_def json_blank_def)
  moreover have "quiet (st\<lparr>jp_step := InString\<rparr>) (escape s) = Some (st\<lparr>jp_step := InString, jp_lit := rev (escape s)\<rparr>)"
    using stays_escape [of s] assms(1) by (simp add: stays_def)
  ultimately show ?thesis
    using unquote_escape [of s] by (simp add: quote_def quiet_append scan_in_string end_string_def)
qed

lemma digits_scanned:
  assumes "\<forall>c \<in> set ds. is_digit c" "jp_step st = N1"
  shows "quiet st ds = Some (st\<lparr>jp_lit := rev ds @ jp_lit st\<rparr>)"
  using assms by (induction ds arbitrary: st) (simp_all add: scan_in_number)

lemma terminator_not_digit: "terminator c \<Longrightarrow> \<not> is_digit c \<and> c \<noteq> CHR ''.'' \<and> c \<noteq> CHR ''e'' \<and> c \<noteq> CHR ''E''"
  by (auto simp: terminator_def json_blank_def is_digit_code)

lemma digit_neq: "is_digit c \<Longrightarrow> \<not> json_blank c \<and> c \<noteq> CHR ''{'' \<and> c \<noteq> CHR ''['' \<and> c \<noteq> CHR 0x22 \<and> c \<noteq> CHR ''-'' \<and>
    c \<noteq> CHR ''t'' \<and> c \<noteq> CHR ''f'' \<and> c \<noteq> CHR ''n'' \<and> c \<noteq> CHR '']''"
  by (auto simp: json_blank_def is_digit_code)

lemma number_ends:
  assumes "jp_step st \<in> {N0, N1}"
  shows "ends_as st (complete (JNumber (rev (jp_lit st))) st)"
proof -
  have "scan_char c st = end_number c st" if "terminator c" for c
    using terminator_not_digit [OF that] assms by (auto simp: scan_in_number after_int_def)
  moreover have "jp_step (complete v st) = EndValue" for v
    by (simp add: complete_def split: list.splits)
  ultimately show ?thesis
    by (simp add: ends_as_def end_number_def scan_between)
qed

lemma first_digit:
  assumes "is_digit c" "jp_step st \<in> {BeginValue, BeginValueOrEmpty, Neg}"
  shows "scan_char c st = keeps c (if c = CHR ''0'' then N0 else N1) st"
proof -
  have "begin_value c st = keeps c (if c = CHR ''0'' then N0 else N1) st"
    unfolding begin_value_def using digit_neq [OF assms(1)] assms(1) by (simp only: if_True if_False refl if_distrib) simp
  then show ?thesis
    using assms digit_neq [OF assms(1)] by (elim insertE emptyE) (simp_all only: scan_between scan_in_number if_True if_False, auto)
qed

lemma number_scanned:
  assumes "int_literal n" "jp_lit st = []" "jp_step st \<in> {BeginValue, BeginValueOrEmpty}"
  shows "\<exists>st'. quiet st n = Some st' \<and> ends_as st' (complete (JNumber n) st)"
proof -
  have run: "\<exists>st'. quiet st ds = Some st' \<and> ends_as st' (complete (JNumber (rev (jp_lit st) @ ds)) st)"
    if prem: "ds \<noteq> []" "\<forall>c \<in> set ds. is_digit c" "hd ds = CHR ''0'' \<longrightarrow> ds = ''0''" "jp_step st \<in> {BeginValue, BeginValueOrEmpty, Neg}" for ds st
  proof -
    obtain c cs where c: "ds = c # cs" "is_digit c" "\<forall>c \<in> set cs. is_digit c"
      using prem(1,2) by (cases ds) auto
    let ?st = "st\<lparr>jp_step := if c = CHR ''0'' then N0 else N1, jp_lit := rev cs @ c # jp_lit st\<rparr>"
    have "quiet st ds = Some ?st"
      using first_digit [OF c(2) prem(4)] digits_scanned [OF c(3)] prem(3) c(1) by auto
    then show ?thesis
      using number_ends [of ?st] c(1) by auto
  qed
  show ?thesis
  proof (cases "\<exists>cs. n = CHR ''-'' # cs")
    case True
    then obtain cs where n: "n = CHR ''-'' # cs"
      by blast
    have "scan_char (CHR ''-'') st = keeps (CHR ''-'') Neg st"
      using assms(3) by (auto simp: scan_between begin_value_def json_blank_def)
    then show ?thesis
      using run [of cs "st\<lparr>jp_step := Neg, jp_lit := ''-''\<rparr>"] assms(1,2) n by (simp add: int_literal_def)
  next
    case False
    then show ?thesis
      using run [of n st] assms by (auto simp: int_literal_def split: list.splits if_splits)
  qed
qed

lemma complete_arr: "jp_frames st = FArr us # fs \<Longrightarrow>
    complete v st = st\<lparr>jp_step := EndValue, jp_lit := [], jp_frames := FArr (v # us) # fs\<rparr>"
  by (simp add: complete_def)

lemma complete_key: "jp_frames st = FKey ms # fs \<Longrightarrow>
    complete (JString k) st = st\<lparr>jp_step := EndValue, jp_lit := [], jp_frames := FColon ms k # fs\<rparr>"
  by (simp add: complete_def)

lemma complete_val: "jp_frames st = FVal ms k # fs \<Longrightarrow>
    complete v st = st\<lparr>jp_step := EndValue, jp_lit := [], jp_frames := FComma ((k, v) # ms) # fs\<rparr>"
  by (simp add: complete_def)

lemma separators:
  "\<not> json_blank CHR '',''" "\<not> json_blank CHR '':''" "\<not> json_blank CHR '']''" "\<not> json_blank CHR ''}''" "\<not> json_blank CHR ''[''" "\<not> json_blank CHR ''{''"
  "terminator CHR '',''" "terminator CHR '']''" "terminator CHR ''}''" "terminator CHR '' ''"
  by (simp_all add: json_blank_def terminator_def)

lemma end_value_steps:
  "jp_step st = EndValue \<Longrightarrow> jp_frames st = FArr us # fs \<Longrightarrow> scan_char CHR '','' st = goes BeginValue st"
  "jp_step st = EndValue \<Longrightarrow> jp_frames st = FArr us # fs \<Longrightarrow> scan_char CHR '']'' st = pop (JArray (rev us)) st"
  "jp_step st = EndValue \<Longrightarrow> jp_frames st = FColon ms k # fs \<Longrightarrow>
     scan_char CHR '':'' st = (ScanContinue, st\<lparr>jp_step := BeginValue, jp_frames := FVal ms k # fs\<rparr>)"
  "jp_step st = EndValue \<Longrightarrow> jp_frames st = FComma ms # fs \<Longrightarrow>
     scan_char CHR '','' st = (ScanContinue, st\<lparr>jp_step := BeginString, jp_frames := FKey ms # fs\<rparr>)"
  "jp_step st = EndValue \<Longrightarrow> jp_frames st = FComma ms # fs \<Longrightarrow> scan_char CHR ''}'' st = pop (JObject (rev ms)) st"
  by (simp_all add: scan_between end_value_def separators)

lemma begin_composite:
  assumes "jp_step st \<in> {BeginValue, BeginValueOrEmpty}" "length (jp_frames st) < maxNestingDepth"
  shows "scan_char CHR ''['' st = (ScanContinue, st\<lparr>jp_step := BeginValueOrEmpty, jp_frames := FArr [] # jp_frames st\<rparr>)"
    and "scan_char CHR ''{'' st = (ScanContinue, st\<lparr>jp_step := BeginStringOrEmpty, jp_frames := FKey [] # jp_frames st\<rparr>)"
  using assms by (auto simp: scan_between begin_value_def push_def separators)

lemma literals_scanned:
  assumes "jp_step st \<in> {BeginValue, BeginValueOrEmpty}"
  shows "quiet st ''null'' = Some (complete JNull st)" "quiet st ''true'' = Some (complete (JBool True) st)"
    "quiet st ''false'' = Some (complete (JBool False) st)"
proof -
  have "scan_char CHR ''n'' st = goes (Lit ''ull'' JNull) st" "scan_char CHR ''t'' st = goes (Lit ''rue'' (JBool True)) st"
    "scan_char CHR ''f'' st = goes (Lit ''alse'' (JBool False)) st"
    using assms by (auto simp: scan_between begin_value_def json_blank_def)
  then show "quiet st ''null'' = Some (complete JNull st)" "quiet st ''true'' = Some (complete (JBool True) st)"
    "quiet st ''false'' = Some (complete (JBool False) st)"
    by (simp_all add: scan_between)
qed

text \<open>The three statements of the induction: a value, the rest of an array, the rest of an object.\<close>

definition value_scans :: "json_value \<Rightarrow> bool" where
  "value_scans v \<longleftrightarrow>
     (\<forall>st. json_wf v \<longrightarrow> length (jp_frames st) + depth v \<le> maxNestingDepth \<longrightarrow> jp_frames st \<noteq> [] \<longrightarrow> jp_lit st = [] \<longrightarrow>
        jp_step st \<in> {BeginValue, BeginValueOrEmpty} \<longrightarrow>
        (\<exists>st'. quiet st (print_json v) = Some st' \<and> ends_as st' (complete (clean v) st)))"

definition elems_scan :: "json_value list \<Rightarrow> bool" where
  "elems_scan vs \<longleftrightarrow>
     (\<forall>st us fs. wf_elems vs \<longrightarrow> length (jp_frames st) + depth_elems vs \<le> maxNestingDepth \<longrightarrow> jp_frames st = FArr us # fs \<longrightarrow>
        jp_lit st = [] \<longrightarrow> (if vs = [] then us = [] \<and> jp_step st = BeginValueOrEmpty else jp_step st \<in> {BeginValue, BeginValueOrEmpty}) \<longrightarrow>
        closes st (print_elems vs) (JArray (rev us @ clean_elems vs)))"

definition members_scan :: "(string \<times> json_value) list \<Rightarrow> bool" where
  "members_scan ms \<longleftrightarrow>
     (\<forall>st us fs. wf_members ms \<longrightarrow> length (jp_frames st) + depth_members ms \<le> maxNestingDepth \<longrightarrow> jp_frames st = FKey us # fs \<longrightarrow>
        jp_lit st = [] \<longrightarrow> (if ms = [] then us = [] \<and> jp_step st = BeginStringOrEmpty else jp_step st \<in> {BeginString, BeginStringOrEmpty}) \<longrightarrow>
        closes st (print_members ms) (JObject (rev us @ clean_members ms)))"

lemma value_scansD:
  assumes "value_scans v" "json_wf v" "length (jp_frames st) + depth v \<le> maxNestingDepth" "jp_frames st \<noteq> []" "jp_lit st = []"
    "jp_step st \<in> {BeginValue, BeginValueOrEmpty}"
  obtains st' where "quiet st (print_json v) = Some st'" "ends_as st' (complete (clean v) st)"
  using assms unfolding value_scans_def by blast

lemma ends_as_refl [simp]: "ends_as st st"
  by (simp add: ends_as_def)

lemma pop_frames:
  assumes "jp_frames st = f # fs" "jp_value st' = jp_value st" "tl (jp_frames st') = fs"
  shows "pop v st' = pop v st"
proof -
  have "st'\<lparr>jp_frames := fs, jp_step := EndValue, jp_lit := []\<rparr> = st\<lparr>jp_frames := fs, jp_step := EndValue, jp_lit := []\<rparr>"
    using assms(2) by (cases st; cases st') simp
  then have "complete v (st'\<lparr>jp_frames := fs\<rparr>) = complete v (st\<lparr>jp_frames := fs\<rparr>)"
    by (metis complete_upd)
  then show ?thesis
    using assms unfolding pop_def by (simp only: list.sel)
qed

lemma elems_scan_Cons:
  assumes "value_scans v" "vs \<noteq> [] \<Longrightarrow> elems_scan vs"
  shows "elems_scan (v # vs)"
  unfolding elems_scan_def
proof (intro allI impI)
  fix st :: scanner and us fs
  assume wf: "wf_elems (v # vs)" and d: "length (jp_frames st) + depth_elems (v # vs) \<le> maxNestingDepth"
    and fs: "jp_frames st = FArr us # fs" and l: "jp_lit st = []"
    and b: "if v # vs = [] then us = [] \<and> jp_step st = BeginValueOrEmpty else jp_step st \<in> {BeginValue, BeginValueOrEmpty}"
  obtain st' where st': "quiet st (print_json v) = Some st'" "ends_as st' (complete (clean v) st)"
    by (rule value_scansD [OF assms(1), of st]) (use wf d fs l b in auto)
  note e = complete_arr [OF fs, of "clean v"]
  have p: "pop w (complete (clean v) st) = pop w st" for w
    by (rule pop_frames [OF fs]) (simp_all add: e)
  show "closes st (print_elems (v # vs)) (JArray (rev us @ clean_elems (v # vs)))"
  proof (cases "vs = []")
    case True
    have "scan_char CHR '']'' st' = pop (JArray (rev us @ [clean v])) st"
      using st'(2) end_value_steps(2) [of "complete (clean v) st" "clean v # us" fs] p separators by (simp add: ends_as_def e)
    then show ?thesis
      using True st'(1) by (auto simp: closes_def)
  next
    case False
    let ?st = "(complete (clean v) st)\<lparr>jp_step := BeginValue\<rparr>"
    have "scan_char CHR '','' st' = (ScanContinue, ?st)"
      using st'(2) end_value_steps(1) [of "complete (clean v) st" "clean v # us" fs] separators by (simp add: ends_as_def e)
    then have q: "quiet st (print_json v @ '','') = Some ?st"
      using st'(1) by (simp add: quiet_append)
    have "closes ?st (print_elems vs) (JArray (rev us @ clean v # clean_elems vs))"
      using assms(2) [OF False] wf d False fs unfolding elems_scan_def
      by (elim allE [of _ ?st] allE [of _ "clean v # us"] allE [of _ fs]) (simp add: e)
    then show ?thesis
      using closes_step [OF q] p False by simp
  qed
qed

lemma members_scan_Cons:
  assumes "value_scans v" "ms \<noteq> [] \<Longrightarrow> members_scan ms"
  shows "members_scan ((k, v) # ms)"
  unfolding members_scan_def
proof (intro allI impI)
  fix st :: scanner and us fs
  assume wf: "wf_members ((k, v) # ms)" and d: "length (jp_frames st) + depth_members ((k, v) # ms) \<le> maxNestingDepth"
    and fs: "jp_frames st = FKey us # fs" and l: "jp_lit st = []"
    and b: "if (k, v) # ms = [] then us = [] \<and> jp_step st = BeginStringOrEmpty else jp_step st \<in> {BeginString, BeginStringOrEmpty}"
  let ?st1 = "st\<lparr>jp_step := BeginValue, jp_lit := [], jp_frames := FVal us (sanitize k) # fs\<rparr>"
  have "quiet st (quote k) = Some (complete (JString (sanitize k)) st)"
    using quote_scanned [of st k] l b by auto
  then have q1: "quiet st (quote k @ '':'') = Some ?st1"
    using end_value_steps(3) [of "complete (JString (sanitize k)) st" us "sanitize k" fs] by (simp add: quiet_append complete_key [OF fs])
  obtain st' where st': "quiet ?st1 (print_json v) = Some st'" "ends_as st' (complete (clean v) ?st1)"
    by (rule value_scansD [OF assms(1), of ?st1]) (use wf d fs in auto)
  have e: "complete (clean v) ?st1 = ?st1\<lparr>jp_step := EndValue, jp_frames := FComma ((sanitize k, clean v) # us) # fs\<rparr>"
    by (simp add: complete_def)
  have p: "pop w (complete (clean v) ?st1) = pop w st" for w
    by (rule pop_frames [OF fs]) (simp_all add: e)
  have q2: "quiet st ((quote k @ '':'') @ print_json v) = Some st'"
    by (simp only: quiet_append [of st "quote k @ '':''"] q1 st'(1) Option.bind.simps)
  show "closes st (print_members ((k, v) # ms)) (JObject (rev us @ clean_members ((k, v) # ms)))"
  proof (cases "ms = []")
    case True
    have "scan_char CHR ''}'' st' = pop (JObject (rev us @ [(sanitize k, clean v)])) st"
      using st'(2) end_value_steps(5) [of "complete (clean v) ?st1" "(sanitize k, clean v) # us" fs] p separators by (simp add: ends_as_def e)
    then show ?thesis
      using True q2 unfolding closes_def by (intro exI [of _ "(quote k @ '':'') @ print_json v"] exI [of _ "CHR ''}''"] exI [of _ st']) simp
  next
    case False
    let ?st = "(complete (clean v) ?st1)\<lparr>jp_step := BeginString, jp_frames := FKey ((sanitize k, clean v) # us) # fs\<rparr>"
    have "scan_char CHR '','' st' = (ScanContinue, ?st)"
      using st'(2) end_value_steps(4) [of "complete (clean v) ?st1" "(sanitize k, clean v) # us" fs] separators by (simp add: ends_as_def e)
    then have q: "quiet st (((quote k @ '':'') @ print_json v) @ '','') = Some ?st"
      by (rule quiet_snoc [OF q2])
    have "closes ?st (print_members ms) (JObject (rev us @ (sanitize k, clean v) # clean_members ms))"
      using assms(2) [OF False] wf d False fs unfolding members_scan_def
      by (elim allE [of _ ?st] allE [of _ "(sanitize k, clean v) # us"] allE [of _ fs]) (simp add: e)
    moreover have "pop w ?st = pop w st" for w
      by (rule pop_frames [OF fs]) (simp_all add: e)
    ultimately show ?thesis
      using closes_step [OF q] False by simp
  qed
qed

lemma composite_scans:
  assumes "jp_step st \<in> {BeginValue, BeginValueOrEmpty}" "length (jp_frames st) < maxNestingDepth"
  shows "closes (st\<lparr>jp_step := BeginValueOrEmpty, jp_frames := FArr [] # jp_frames st\<rparr>) (print_elems vs) (JArray ws) \<Longrightarrow>
      jp_frames st \<noteq> [] \<Longrightarrow> quiet st (print_json (JArray vs)) = Some (complete (JArray ws) st)"
    and "closes (st\<lparr>jp_step := BeginStringOrEmpty, jp_frames := FKey [] # jp_frames st\<rparr>) (print_members ms) (JObject ns) \<Longrightarrow>
      jp_frames st \<noteq> [] \<Longrightarrow> quiet st (print_json (JObject ms)) = Some (complete (JObject ns) st)"
  using begin_composite [OF assms] by (auto dest!: closes_quiet)

lemma print_scans: "value_scans v" "elems_scan vs" "members_scan ms"
proof (induction v and vs and ms rule: print_json_print_elems_print_members.induct)
  case (3 n)
  then show ?case
    by (auto simp: value_scans_def intro!: number_scanned)
next
  case (4 s)
  then show ?case
    using quote_scanned [of _ s] by (fastforce simp: value_scans_def)
next
  case (5 vs)
  have "quiet st (print_json (JArray vs)) = Some (complete (clean (JArray vs)) st)"
    if "json_wf (JArray vs)" "length (jp_frames st) + depth (JArray vs) \<le> maxNestingDepth" "jp_frames st \<noteq> []" "jp_lit st = []"
      "jp_step st \<in> {BeginValue, BeginValueOrEmpty}" for st :: scanner
    using 5 that unfolding elems_scan_def clean.simps
    by (intro composite_scans(1)) (auto elim!: allE [of _ "st\<lparr>jp_step := BeginValueOrEmpty, jp_frames := FArr [] # jp_frames st\<rparr>"])
  then show ?case
    by (fastforce simp: value_scans_def)
next
  case (6 ms)
  have "quiet st (print_json (JObject ms)) = Some (complete (clean (JObject ms)) st)"
    if "json_wf (JObject ms)" "length (jp_frames st) + depth (JObject ms) \<le> maxNestingDepth" "jp_frames st \<noteq> []" "jp_lit st = []"
      "jp_step st \<in> {BeginValue, BeginValueOrEmpty}" for st :: scanner
    using 6 that unfolding members_scan_def clean.simps
    by (intro composite_scans(2)) (auto elim!: allE [of _ "st\<lparr>jp_step := BeginStringOrEmpty, jp_frames := FKey [] # jp_frames st\<rparr>"])
  then show ?case
    by (fastforce simp: value_scans_def)
next
  case 7
  show ?case
    by (auto simp: elems_scan_def closes_def scan_between separators intro!: exI [of _ "[]"])
next
  case (8 v vs)
  then show ?case
    by (intro elems_scan_Cons)
next
  case 9
  show ?case
    by (auto simp: members_scan_def closes_def scan_between separators intro!: exI [of _ "[]"])
next
  case (10 k v ms)
  then show ?case
    by (intro members_scan_Cons)
qed (use literals_scanned in \<open>fastforce simp: value_scans_def\<close>)+

subsection \<open>Round trip\<close>

lemma quiet_scan_all: "quiet st xs = Some st' \<Longrightarrow> scan_all st (xs @ ys) = scan_all st' ys"
  by (induction xs arbitrary: st) (auto split: prod.splits if_splits)

lemma quiet_scan_from: "quiet st xs = Some st' \<Longrightarrow> scan_from n st (xs @ ys) = scan_from (n + length xs) st' ys"
  by (induction xs arbitrary: n st) (auto split: prod.splits scan_code.splits if_splits)

lemma spaces_quiet: "\<forall>c \<in> set ws. json_blank c \<Longrightarrow> quiet scan_init ws = Some scan_init"
  by (induction ws) (auto simp: scan_init_def scan_between begin_value_def)

lemma object_scanned:
  assumes "json_wf (JObject ms)" "depth (JObject ms) \<le> maxNestingDepth"
  obtains body c st st' where "print_json (JObject ms) = body @ [c]" "quiet scan_init body = Some st"
    "scan_char c st = (ScanEndComposite, st')" "jp_step st' = EndTop" "jp_frames st' = []" "jp_value st' = Some (clean (JObject ms))"
proof -
  let ?st = "scan_init\<lparr>jp_step := BeginStringOrEmpty, jp_frames := [FKey []]\<rparr>"
  have "closes ?st (print_members ms) (clean (JObject ms))"
    using print_scans(3) [of ms] assms unfolding members_scan_def
    by (elim allE [of _ ?st] allE [of _ "[]"]) (auto simp: scan_init_def)
  then obtain body c st1 where b: "print_members ms = body @ [c]" "quiet ?st body = Some st1" "scan_char c st1 = pop (clean (JObject ms)) ?st"
    unfolding closes_def by blast
  moreover have "scan_char CHR ''{'' scan_init = (ScanContinue, ?st)"
    using begin_composite(2) [of scan_init] by (simp add: scan_init_def maxNestingDepth_def)
  ultimately show thesis
    by (intro that [of "CHR ''{'' # body" c st1 "snd (pop (clean (JObject ms)) ?st)"]) (simp_all add: pop_def complete_def)
qed

lemma parse_print:
  assumes "json_wf (JObject ms)" "depth (JObject ms) \<le> maxNestingDepth" "\<forall>c \<in> set ws. json_blank c"
  shows "parse_json (ws @ print_json (JObject ms)) = Some (clean (JObject ms))"
proof (rule object_scanned [OF assms(1,2)])
  fix body c st st'
  assume o: "print_json (JObject ms) = body @ [c]" "quiet scan_init body = Some st" "scan_char c st = (ScanEndComposite, st')"
    "jp_step st' = EndTop" "jp_frames st' = []" "jp_value st' = Some (clean (JObject ms))"
  have "quiet scan_init (ws @ body) = Some st"
    using spaces_quiet [OF assms(3)] o(2) by (simp add: quiet_append)
  then have "scan_all scan_init ((ws @ body) @ [c]) = Some st'"
    using quiet_scan_all [of scan_init "ws @ body"] o(3) by simp
  then show ?thesis
    using o(1,4,6) by (simp add: parse_json_def)
qed

lemma scan_print:
  assumes "json_wf (JObject ms)" "depth (JObject ms) \<le> maxNestingDepth" "\<forall>c \<in> set ws. json_blank c"
  shows "scan_from 0 scan_init (ws @ print_json (JObject ms) @ y) = ValueEnds (length ws + length (print_json (JObject ms)) - 1)"
proof (rule object_scanned [OF assms(1,2)])
  fix body c st st'
  assume o: "print_json (JObject ms) = body @ [c]" "quiet scan_init body = Some st" "scan_char c st = (ScanEndComposite, st')"
    "jp_step st' = EndTop" "jp_frames st' = []"
  have "quiet scan_init (ws @ body) = Some st"
    using spaces_quiet [OF assms(3)] o(2) by (simp add: quiet_append)
  then show ?thesis
    using quiet_scan_from [of scan_init "ws @ body" st 0 "c # y"] o(1,3,5) by simp
qed

lemma scan_from_prefix: "scan_from n st pre \<noteq> Incomplete \<Longrightarrow> scan_from n st (pre @ suf) = scan_from n st pre"
  by (induction pre arbitrary: n st) (auto split: prod.splits scan_code.splits if_splits)

lemma scan_from_bound: "scan_from n st pre = ValueEnds m \<Longrightarrow> 0 < n \<or> jp_step st = BeginValue \<Longrightarrow> m < n + length pre"
proof (induction pre arbitrary: n st)
  case (Cons c pre)
  then show ?case
    by (fastforce split: prod.splits scan_code.splits if_splits)
qed simp

lemma scan_proper_prefix:
  assumes "json_wf (JObject ms)" "depth (JObject ms) \<le> maxNestingDepth" "\<forall>c \<in> set ws. json_blank c"
    and "ws @ print_json (JObject ms) = pre @ suf" "suf \<noteq> []"
  shows "scan_from 0 scan_init pre = Incomplete"
proof (rule ccontr)
  assume n: "scan_from 0 scan_init pre \<noteq> Incomplete"
  then have "scan_from 0 scan_init pre = ValueEnds (length ws + length (print_json (JObject ms)) - 1)"
    using scan_from_prefix [OF n, of suf] scan_print [OF assms(1-3), of "[]"] assms(4) by simp
  then have "length ws + length (print_json (JObject ms)) - 1 < length pre"
    using scan_from_bound [of 0 scan_init pre] by (simp add: scan_init_def)
  moreover have "length ws + length (print_json (JObject ms)) = length pre + length suf"
    using arg_cong [OF assms(4), of length] by simp
  ultimately show False
    using assms(5) by (cases suf) simp_all
qed

lemma scan_spaces: "\<forall>c \<in> set ws. json_blank c \<Longrightarrow> scan_from n scan_init ws = Incomplete"
  using quiet_scan_from [OF spaces_quiet, of ws n "[]"] by simp

subsection \<open>What is read is text\<close>

text \<open>Every string of a decoded value is valid UTF-8, whatever the bytes were.\<close>

lemma rune_size: "utf8_size (EncodeRune r @ t) = length (EncodeRune r) \<and> EncodeRune r \<noteq> []"
proof -
  consider "r < 128" | "128 \<le> r" "r < 2048" | "55296 \<le> r \<and> r < 57344 \<or> 1114111 < r"
    | "2048 \<le> r" "r < 65536" "\<not> (55296 \<le> r \<and> r < 57344)" | "65536 \<le> r" "r \<le> 1114111"
    by linarith
  then show ?thesis
  proof cases
    case 1
    then show ?thesis by (simp add: EncodeRune_def)
  next
    case 2
    then have "2 \<le> r div 64" "r div 64 < 32"
      by (simp_all add: less_mult_imp_div_less)
    moreover have "r mod 64 \<le> 63"
      using mod_less_divisor [of 64 r] by linarith
    ultimately show ?thesis
      using 2 by (simp add: EncodeRune_def utf8_size_def continued_def Let_def)
  next
    case 3
    then show ?thesis
      by (auto simp: EncodeRune_def replacement_def utf8_size_def continued_def)
  next
    case 4
    define q where "q = r div 64"
    have q: "r div 4096 = q div 64" "32 \<le> q" "q < 1024" "\<not> (864 \<le> q \<and> q < 896)"
      using 4 by (simp_all add: q_def div_mult2_eq less_eq_div_iff_mult_less_eq div_less_iff_less_mult)
    have "q = 64 * (q div 64) + q mod 64" "q mod 64 < 64"
      by simp_all
    then have "r div 4096 < 16" "r div 4096 = 0 \<longrightarrow> 32 \<le> r div 64 mod 64" "r div 4096 = 13 \<longrightarrow> r div 64 mod 64 < 32" "r div 64 mod 64 < 64"
      using q unfolding q_def [symmetric] by linarith+
    then show ?thesis
      using 4 by (auto simp: EncodeRune_def utf8_size_def continued_def Let_def)
  next
    case 5
    define q where "q = r div 4096"
    have q: "r div 262144 = q div 64" "16 \<le> q" "q < 272"
      using 5 by (simp_all add: q_def div_mult2_eq less_eq_div_iff_mult_less_eq div_less_iff_less_mult)
    have "q = 64 * (q div 64) + q mod 64" "q mod 64 < 64"
      by simp_all
    then have "r div 262144 < 5" "r div 262144 = 0 \<longrightarrow> 16 \<le> r div 4096 mod 64" "r div 262144 = 4 \<longrightarrow> r div 4096 mod 64 < 16"
      "r div 4096 mod 64 < 64"
      using q unfolding q_def [symmetric] by linarith+
    then show ?thesis
      using 5 by (auto simp: EncodeRune_def utf8_size_def continued_def Let_def)
  qed
qed

lemma utf8_valid_append:
  assumes "utf8_size (x @ t) = length x" "x \<noteq> []" "utf8_valid t"
  shows "utf8_valid (x @ t)"
  using assms by (cases x) simp_all

lemma unquote_valid: "unquote s = Some t \<Longrightarrow> utf8_valid t"
proof (induction "length s" arbitrary: s t rule: less_induct)
  case less
  show ?case
  proof (cases s)
    case Nil
    then show ?thesis using less.prems by simp
  next
    case (Cons c s')
    have ih: "utf8_valid u" if "unquote x = Some u" "length x \<le> length s'" for x u
      using less.hyps [of x u] that Cons by simp
    have rune: "utf8_valid (EncodeRune r @ u)" if "utf8_valid u" for r u
      using that rune_size [of r u] by (intro utf8_valid_append) auto
    have rep: "utf8_valid (replacement @ u)" if "utf8_valid u" for u
      using rune [OF that, of 65533] by (simp add: EncodeRune_def replacement_def)
    have ascii: "utf8_valid ([d] @ u)" if "code d < 128" "utf8_valid u" for d u
      using that by simp
    have esc: "utf8_valid ([e] @ u)" if "unescape_char d = Some e" "utf8_valid u" for d e u
      using that by (auto simp: unescape_char_def split: if_splits)
    have multi: "utf8_valid (take (utf8_size (c # s')) (c # s') @ u)" if "utf8_size (c # s') \<noteq> 0" "utf8_valid u" for u
      using that utf8_size_take [OF refl that(1), of u] utf8_size_le [of "c # s'"] by (intro utf8_valid_append) auto
    show ?thesis
      using less.prems unfolding Cons unquote.simps(2) prepend_def Let_def map_option_case
      by (auto split: if_splits option.splits list.splits intro!: rune rep multi intro: ascii elim!: esc elim: ih simp del: append_Cons take_Suc_Cons)
  qed
qed

lemma text_set: "text_elems vs \<longleftrightarrow> (\<forall>v \<in> set vs. json_text v)" "text_members ms \<longleftrightarrow> (\<forall>(k, v) \<in> set ms. utf8_valid k \<and> json_text v)"
proof -
  show "text_elems vs \<longleftrightarrow> (\<forall>v \<in> set vs. json_text v)"
    by (induction vs) auto
  show "text_members ms \<longleftrightarrow> (\<forall>(k, v) \<in> set ms. utf8_valid k \<and> json_text v)"
    by (induction ms) auto
qed

fun frame_text :: "frame \<Rightarrow> bool" where
  "frame_text (FArr vs) \<longleftrightarrow> text_elems vs"
| "frame_text (FKey ms) \<longleftrightarrow> text_members ms"
| "frame_text (FColon ms k) \<longleftrightarrow> text_members ms \<and> utf8_valid k"
| "frame_text (FVal ms k) \<longleftrightarrow> text_members ms \<and> utf8_valid k"
| "frame_text (FComma ms) \<longleftrightarrow> text_members ms"

fun step_text :: "scan_step \<Rightarrow> bool" where
  "step_text (Lit r v) \<longleftrightarrow> json_text v"
| "step_text _ \<longleftrightarrow> True"

definition scan_text :: "scanner \<Rightarrow> bool" where
  "scan_text st \<longleftrightarrow> (\<forall>f \<in> set (jp_frames st). frame_text f) \<and> (\<forall>v. jp_value st = Some v \<longrightarrow> json_text v) \<and> step_text (jp_step st)"

lemma scan_text_goes:
  "scan_text st \<Longrightarrow> step_text s \<Longrightarrow> scan_text (st\<lparr>jp_step := s\<rparr>)" "scan_text (st\<lparr>jp_lit := l\<rparr>) = scan_text st"
  by (simp_all add: scan_text_def)

lemma complete_scan_text: "scan_text st \<Longrightarrow> json_text v \<Longrightarrow> scan_text (complete v st)"
  by (auto simp: scan_text_def complete_def split: list.splits frame.splits json_value.splits)

lemma pop_scan_text: "scan_text st \<Longrightarrow> json_text v \<Longrightarrow> scan_text (snd (pop v st))"
proof -
  assume st: "scan_text st" and v: "json_text v"
  have "scan_text (st\<lparr>jp_frames := tl (jp_frames st)\<rparr>)"
    using st by (cases "jp_frames st") (auto simp: scan_text_def)
  then show ?thesis
    using complete_scan_text [OF _ v] by (simp add: pop_def scan_text_goes(1) del: complete_frames)
qed

lemma end_value_text: "scan_text st \<Longrightarrow> scan_text (snd (end_value c st))"
proof -
  assume st: "scan_text st"
  show ?thesis
  proof (cases "jp_frames st")
    case Nil
    then show ?thesis
      using st by (simp add: end_value_def end_top_def scan_text_def)
  next
    case (Cons f fs)
    have f: "frame_text f" "\<forall>f \<in> set fs. frame_text f"
      using st Cons by (simp_all add: scan_text_def)
    have fr: "scan_text (st\<lparr>jp_step := s, jp_frames := f' # fs\<rparr>)" if "frame_text f'" "step_text s" for s f'
      using st f that by (simp add: scan_text_def)
    have ms: "text_members ms \<Longrightarrow> json_text (JObject (rev ms))" "text_elems vs \<Longrightarrow> json_text (JArray (rev vs))" for ms vs
      by (simp_all add: text_set)
    show ?thesis
      using st f(1) by (cases f) (simp_all add: end_value_def Cons fr scan_text_goes(1) pop_scan_text ms del: json_text.simps)
  qed
qed

lemma begin_value_text: "scan_text st \<Longrightarrow> scan_text (snd (begin_value c st))" "scan_text st \<Longrightarrow> scan_text (snd (begin_string c st))"
  by (simp_all add: begin_value_def begin_string_def push_def scan_text_def)

lemma end_string_text: "scan_text st \<Longrightarrow> scan_text (snd (end_string st))"
  by (auto simp: end_string_def unquote_valid complete_scan_text split: option.splits)

lemma end_number_text: "scan_text st \<Longrightarrow> scan_text (snd (end_number c st))"
  by (simp add: end_number_def end_value_text complete_scan_text)

lemma scan_char_text: "scan_text st \<Longrightarrow> scan_text (snd (scan_char c st))"
proof -
  assume st: "scan_text st"
  have lit: "json_text v" if "jp_step st = Lit r v" for r v
    using st that by (simp add: scan_text_def)
  note facts = pop_scan_text end_value_text begin_value_text end_string_text end_number_text complete_scan_text scan_text_goes
  show ?thesis
    using st lit by (cases "jp_step st") (simp_all add: scan_char_def after_int_def end_top_def facts split: list.split)
qed

lemma scan_all_text: "scan_all st s = Some st' \<Longrightarrow> scan_text st \<Longrightarrow> scan_text st'"
proof (induction s arbitrary: st)
  case (Cons c s)
  then show ?case
    using scan_char_text [of st c] by (auto split: prod.splits if_splits)
qed simp

lemma parse_json_text: "parse_json s = Some v \<Longrightarrow> json_text v"
proof -
  assume p: "parse_json s = Some v"
  then obtain st where st: "scan_all scan_init s = Some st"
    by (auto simp: parse_json_def split: option.splits)
  then have "scan_text st"
    by (rule scan_all_text) (simp add: scan_init_def scan_text_def)
  then show ?thesis
    using p st scan_char_text [of st "CHR '' ''"]
    by (auto simp: parse_json_def scan_text_def split: if_splits prod.splits scan_code.splits)
qed

end
