(* ===== verification/Codec.thy ===== *)
theory Codec
  imports Messages Json
begin

text \<open>
  How \<^verbatim>\<open>encoding/json\<close> maps the wire types of \<^verbatim>\<open>internal/proto\<close> to JSON and back: the field names of the struct tags, \<^verbatim>\<open>omitempty\<close>,
  base64 for \<^verbatim>\<open>[]byte\<close>, pointers as \<^verbatim>\<open>null\<close>. Decoding follows the library: it stores into an existing value, skips unknown
  members, falls back to a field whose name differs only in (ASCII) case, leaves a field alone on \<^verbatim>\<open>null\<close>, and fails on a value of
  another type or a number out of range. A \<^verbatim>\<open>json.RawMessage\<close> is the value it contains. A nil slice is encoded like an empty
  one (the library writes \<^verbatim>\<open>null\<close> for the former); both are read back as the empty list.
\<close>

subsection \<open>Fields\<close>

type_synonym 'a decoder = "json_value \<Rightarrow> 'a \<Rightarrow> 'a option"

definition dec_string :: "string decoder" where
  "dec_string j old = (case j of JString s \<Rightarrow> Some s | JNull \<Rightarrow> Some old | _ \<Rightarrow> None)"

definition dec_bool :: "bool decoder" where
  "dec_bool j old = (case j of JBool b \<Rightarrow> Some b | JNull \<Rightarrow> Some old | _ \<Rightarrow> None)"

definition dec_int64 :: "int64 decoder" where
  "dec_int64 j old = (case j of JNumber n \<Rightarrow> ParseInt64 n | JNull \<Rightarrow> Some old | _ \<Rightarrow> None)"

definition dec_uint64 :: "uint64 decoder" where
  "dec_uint64 j old = (case j of JNumber n \<Rightarrow> ParseUint64 n | JNull \<Rightarrow> Some old | _ \<Rightarrow> None)"

definition dec_int :: "int decoder" where
  "dec_int j old = (case j of JNumber n \<Rightarrow> map_option sint (ParseInt64 n) | JNull \<Rightarrow> Some old | _ \<Rightarrow> None)"

definition dec_byte :: "byte decoder" where
  "dec_byte j old =
     (case j of
        JNumber n \<Rightarrow> Option.bind (ParseUint64 n) (\<lambda>w. if w < 256 then Some (ucast w) else None)
      | JNull \<Rightarrow> Some old
      | _ \<Rightarrow> None)"

text \<open>The elements of an array are stored into the elements the slice already has.\<close>

fun dec_elems :: "'a \<Rightarrow> 'a decoder \<Rightarrow> json_value list \<Rightarrow> 'a list decoder" where
  "dec_elems z d [] j old = Some []"
| "dec_elems z d (v # vs) j old =
     (case d v (case old of [] \<Rightarrow> z | x # _ \<Rightarrow> x) of
        None \<Rightarrow> None
      | Some x \<Rightarrow> map_option ((#) x) (dec_elems z d vs j (tl old)))"

definition dec_list :: "'a \<Rightarrow> 'a decoder \<Rightarrow> 'a list decoder" where
  "dec_list z d j old = (case j of JArray vs \<Rightarrow> dec_elems z d vs j old | JNull \<Rightarrow> Some [] | _ \<Rightarrow> None)"

definition dec_bytes :: "bytes decoder" where
  "dec_bytes j old = (case j of JString s \<Rightarrow> DecodeBase64 s | _ \<Rightarrow> dec_list 0 dec_byte j old)"

definition dec_ptr :: "'a \<Rightarrow> 'a decoder \<Rightarrow> 'a option decoder" where
  "dec_ptr z d j old =
     (if j = JNull then Some None else map_option Some (d j (case old of None \<Rightarrow> z | Some x \<Rightarrow> x)))"

definition dec_raw :: "json_value option decoder" where
  "dec_raw j old = Some (Some j)"

definition enc_bytes :: "bytes \<Rightarrow> json_value" where
  "enc_bytes bs = (if bs = [] then JNull else JString (EncodeBase64 bs))"

definition enc_int64 :: "int64 \<Rightarrow> json_value" where
  "enc_int64 v = JNumber (FormatInt (sint v))"

definition enc_uint64 :: "uint64 \<Rightarrow> json_value" where
  "enc_uint64 v = JNumber (FormatUint (unat v))"

definition enc_int :: "int \<Rightarrow> json_value" where
  "enc_int i = JNumber (FormatInt i)"

definition enc_list :: "('a \<Rightarrow> json_value) \<Rightarrow> 'a list \<Rightarrow> json_value" where
  "enc_list e xs = JArray (map e xs)"

definition enc_ptr :: "('a \<Rightarrow> json_value) \<Rightarrow> 'a option \<Rightarrow> json_value" where
  "enc_ptr e x = (case x of None \<Rightarrow> JNull | Some y \<Rightarrow> e y)"

subsection \<open>Structs\<close>

text \<open>A field of a struct: its JSON name and how a value is stored into it.\<close>

type_synonym 'r field = "string \<times> 'r decoder"

definition fld :: "('r \<Rightarrow> 'a) \<Rightarrow> (('a \<Rightarrow> 'a) \<Rightarrow> 'r \<Rightarrow> 'r) \<Rightarrow> 'a decoder \<Rightarrow> 'r decoder" where
  "fld get upd d = (\<lambda>j r. map_option (\<lambda>x. upd (\<lambda>_. x) r) (d j (get r)))"

definition fold_char :: "char \<Rightarrow> char" where
  "fold_char c = (if 97 \<le> code c \<and> code c \<le> 122 then char_of (code c - 32) else c)"

definition find_field :: "'r field list \<Rightarrow> string \<Rightarrow> 'r decoder option" where
  "find_field fs k =
     (case map_of fs k of
        Some d \<Rightarrow> Some d
      | None \<Rightarrow> map_of (map (\<lambda>(n, d). (map fold_char n, d)) fs) (map fold_char k))"

fun dec_members :: "'r field list \<Rightarrow> (string \<times> json_value) list \<Rightarrow> 'r \<Rightarrow> 'r option" where
  "dec_members fs [] r = Some r"
| "dec_members fs ((k, v) # ms) r =
     (case find_field fs k of
        None \<Rightarrow> dec_members fs ms r
      | Some d \<Rightarrow> (case d v r of None \<Rightarrow> None | Some r' \<Rightarrow> dec_members fs ms r'))"

definition dec_struct :: "'r field list \<Rightarrow> 'r decoder" where
  "dec_struct fs j r = (case j of JObject ms \<Rightarrow> dec_members fs ms r | JNull \<Rightarrow> Some r | _ \<Rightarrow> None)"

definition omit :: "bool \<Rightarrow> string \<Rightarrow> json_value \<Rightarrow> (string \<times> json_value) list" where
  "omit c k v = (if c then [] else [(k, v)])"

subsection \<open>Laws\<close>

named_theorems field_laws \<open>round trips of single fields\<close>

lemma field_laws_basic [field_laws]:
  "dec_string (JString s) old = Some s" "dec_bool (JBool b) old' = Some b"
  "dec_int64 (enc_int64 v) old'' = Some v" "dec_uint64 (enc_uint64 u) old'' = Some u"
  by (simp_all add: dec_string_def dec_bool_def dec_int64_def dec_uint64_def enc_int64_def enc_uint64_def)

lemma dec_bytes_enc [field_laws]: "dec_bytes (enc_bytes bs) old = Some bs"
  by (simp add: dec_bytes_def enc_bytes_def dec_list_def)

lemma dec_int_enc: "- (2 ^ 63) \<le> i \<Longrightarrow> i < 2 ^ 63 \<Longrightarrow> dec_int (enc_int i) old = Some i"
proof -
  assume "- (2 ^ 63) \<le> i" "i < 2 ^ 63"
  then have "sint (word_of_int i :: int64) = i"
    by (simp add: sint_sbintrunc' signed_take_bit_int_eq_self)
  then show ?thesis
    using ParseInt64_FormatInt [of "word_of_int i"] by (simp add: dec_int_def enc_int_def)
qed

lemma dec_elems_enc: "(\<And>x. x \<in> set xs \<Longrightarrow> d (e x) z = Some x) \<Longrightarrow> dec_elems z d (map e xs) j [] = Some xs"
  by (induction xs) auto

lemma dec_list_enc: "(\<And>x. x \<in> set xs \<Longrightarrow> d (e x) z = Some x) \<Longrightarrow> dec_list z d (enc_list e xs) [] = Some xs"
  by (simp add: dec_list_def enc_list_def dec_elems_enc)

lemma dec_ptr_enc: "(\<And>y. x = Some y \<Longrightarrow> d (e y) z = Some y \<and> e y \<noteq> JNull) \<Longrightarrow> dec_ptr z d (enc_ptr e x) None = Some x"
  by (auto simp: dec_ptr_def enc_ptr_def split: option.splits)

lemma dec_field:
  assumes "find_field fs k = Some (fld get upd d)" "d v (get r) = Some x"
  shows "dec_members fs ((k, v) # ms) r = dec_members fs ms (upd (\<lambda>_. x) r)"
  using assms by (simp add: fld_def)

lemma dec_omit:
  assumes "find_field fs k = Some (fld get upd d)" "get r = z" "upd (\<lambda>_. z) r = r" "d v z = Some x"
  shows "dec_members fs (omit (x = z) k v @ ms) r = dec_members fs ms (upd (\<lambda>_. x) r)"
    and "dec_members fs (omit (x = z) k v) r = Some (upd (\<lambda>_. x) r)"
  using assms by (cases "x = z"; simp add: fld_def omit_def)+

lemmas dec_omit_bool = dec_omit [where z = False, simplified]

lemmas struct_laws = find_field_def dec_struct_def dec_field dec_omit dec_omit_bool

declare dec_members.simps(2) [simp del]

lemma int_literal_FormatUint: "int_literal (FormatUint n)"
proof -
  have "hd (FormatUint n) = CHR ''0'' \<longrightarrow> FormatUint n = ''0''"
    using FormatUint_hd [of n] by (simp add: FormatUint.simps [of 0] char_of_eq_iff take_bit_nat_eq_self)
  moreover obtain c cs where "FormatUint n = c # cs" "c \<noteq> CHR ''-''"
    using FormatUint_digits [of n] digit_neq by (cases "FormatUint n") auto
  ultimately show ?thesis
    using FormatUint_digits [of n] by (simp add: int_literal_def)
qed

lemma int_literal_FormatInt: "int_literal (FormatInt i)"
proof (cases "i < 0")
  case True
  then have "int_literal (FormatUint (nat (- i)))"
    by (intro int_literal_FormatUint)
  moreover obtain c cs where "FormatUint (nat (- i)) = c # cs" "c \<noteq> CHR ''-''"
    using FormatUint_digits [of "nat (- i)"] by (cases "FormatUint (nat (- i))") (auto dest: digit_neq)
  ultimately show ?thesis
    using True by (simp add: FormatInt_def int_literal_def)
qed (simp add: FormatInt_def int_literal_FormatUint)

lemma wf_fields [simp]: "json_wf (enc_int64 v)" "json_wf (enc_uint64 u)" "json_wf (enc_int i)" "json_wf (enc_bytes bs)"
  by (simp_all add: enc_int64_def enc_uint64_def enc_int_def enc_bytes_def int_literal_FormatInt int_literal_FormatUint)

lemma text_fields [simp]: "json_text (enc_int64 v)" "json_text (enc_uint64 u)" "json_text (enc_int i)" "json_text (enc_bytes bs)"
  using utf8_valid_ascii [of "EncodeBase64 bs"] EncodeBase64_ascii [of bs]
  by (simp_all add: enc_int64_def enc_uint64_def enc_int_def enc_bytes_def)

lemma wf_elems_map [simp]: "wf_elems (map e xs) \<longleftrightarrow> (\<forall>x \<in> set xs. json_wf (e x))"
  by (induction xs) auto

lemma text_elems_map [simp]: "text_elems (map e xs) \<longleftrightarrow> (\<forall>x \<in> set xs. json_text (e x))"
  by (induction xs) auto

lemma wf_members_append [simp]: "wf_members (xs @ ys) \<longleftrightarrow> wf_members xs \<and> wf_members ys"
  by (induction xs) auto

lemma text_members_append [simp]: "text_members (xs @ ys) \<longleftrightarrow> text_members xs \<and> text_members ys"
  by (induction xs) auto

lemma omit_members [simp]: "wf_members (omit c k v) \<longleftrightarrow> c \<or> json_wf v" "text_members (omit c k v) \<longleftrightarrow> c \<or> utf8_valid k \<and> json_text v"
  by (simp_all add: omit_def)

lemma depth_fields [simp]: "depth (enc_int64 v) = 0" "depth (enc_uint64 u) = 0" "depth (enc_int i) = 0" "depth (enc_bytes bs) = 0"
  by (simp_all add: enc_int64_def enc_uint64_def enc_int_def enc_bytes_def)

lemma depth_members_append [simp]: "depth_members (xs @ ys) = max (depth_members xs) (depth_members ys)"
  by (induction xs) auto

lemma depth_elems_map: "(\<And>x. x \<in> set xs \<Longrightarrow> depth (e x) \<le> n) \<Longrightarrow> depth_elems (map e xs) \<le> n"
  by (induction xs) auto

lemma depth_omit: "depth v \<le> n \<Longrightarrow> depth_members (omit c k v) \<le> n"
  by (simp add: omit_def)

subsection \<open>Messages\<close>

definition zero_node :: DHTNode where
  "zero_node = \<lparr>nd_NodeID = [], nd_PeerID = [], nd_Addr = [], nd_Name = []\<rparr>"

definition enc_node :: "DHTNode \<Rightarrow> json_value" where
  "enc_node x =
     JObject
       ([(''node_id'', JString (nd_NodeID x)), (''peer_id'', JString (nd_PeerID x)), (''addr'', JString (nd_Addr x))] @
        omit (nd_Name x = []) ''name'' (JString (nd_Name x)) @
        [])"

definition node_fields :: "DHTNode field list" where
  "node_fields =
     [(''node_id'', fld nd_NodeID (nd_NodeID_update) dec_string),
      (''peer_id'', fld nd_PeerID (nd_PeerID_update) dec_string),
      (''addr'', fld nd_Addr (nd_Addr_update) dec_string),
      (''name'', fld nd_Name (nd_Name_update) dec_string)]"

definition dec_node :: "DHTNode decoder" where
  "dec_node = dec_struct node_fields"

lemma dec_node_enc [field_laws]: "dec_node (enc_node x) zero_node = Some x"
  by (cases x) (simp add: dec_node_def enc_node_def node_fields_def zero_node_def struct_laws field_laws dec_list_enc dec_ptr_enc)

lemma enc_node_not_null [simp]: "enc_node x \<noteq> JNull"
  by (simp add: enc_node_def)

definition zero_record :: DHTRecord where
  "zero_record = \<lparr>rec_Type = [], rec_Value = [], rec_CreatedUnix = 0, rec_ExpiresUnix = 0, rec_PubKey = [], rec_Seq = 0, rec_Sig = [], rec_Name = []\<rparr>"

definition enc_record :: "DHTRecord \<Rightarrow> json_value" where
  "enc_record x =
     JObject
       ([(''type'', JString (rec_Type x))] @
        omit (rec_Value x = []) ''value'' (enc_bytes (rec_Value x)) @
        omit (rec_CreatedUnix x = 0) ''created_unix'' (enc_int64 (rec_CreatedUnix x)) @
        omit (rec_ExpiresUnix x = 0) ''expires_unix'' (enc_int64 (rec_ExpiresUnix x)) @
        omit (rec_PubKey x = []) ''pubkey'' (enc_bytes (rec_PubKey x)) @
        omit (rec_Seq x = 0) ''seq'' (enc_uint64 (rec_Seq x)) @
        omit (rec_Sig x = []) ''sig'' (enc_bytes (rec_Sig x)) @
        omit (rec_Name x = []) ''name'' (JString (rec_Name x)) @
        [])"

definition record_fields :: "DHTRecord field list" where
  "record_fields =
     [(''type'', fld rec_Type (rec_Type_update) dec_string),
      (''value'', fld rec_Value (rec_Value_update) dec_bytes),
      (''created_unix'', fld rec_CreatedUnix (rec_CreatedUnix_update) dec_int64),
      (''expires_unix'', fld rec_ExpiresUnix (rec_ExpiresUnix_update) dec_int64),
      (''pubkey'', fld rec_PubKey (rec_PubKey_update) dec_bytes),
      (''seq'', fld rec_Seq (rec_Seq_update) dec_uint64),
      (''sig'', fld rec_Sig (rec_Sig_update) dec_bytes),
      (''name'', fld rec_Name (rec_Name_update) dec_string)]"

definition dec_record :: "DHTRecord decoder" where
  "dec_record = dec_struct record_fields"

lemma dec_record_enc [field_laws]: "dec_record (enc_record x) zero_record = Some x"
  by (cases x) (simp add: dec_record_def enc_record_def record_fields_def zero_record_def struct_laws field_laws dec_list_enc dec_ptr_enc)

lemma enc_record_not_null [simp]: "enc_record x \<noteq> JNull"
  by (simp add: enc_record_def)

definition enc_wire :: "DHTWire \<Rightarrow> json_value" where
  "enc_wire x =
     JObject
       ([(''kind'', JString (w_Kind x))] @
        omit (w_RPCID x = []) ''rpc_id'' (JString (w_RPCID x)) @
        omit (w_Target x = []) ''target'' (JString (w_Target x)) @
        omit (w_Nodes x = []) ''nodes'' ((enc_list enc_node) (w_Nodes x)) @
        omit (w_Key x = []) ''key'' (JString (w_Key x)) @
        omit (w_Record x = None) ''record'' ((enc_ptr enc_record) (w_Record x)) @
        omit (w_OK x = False) ''ok'' (JBool (w_OK x)) @
        omit (w_Error x = []) ''error'' (JString (w_Error x)) @
        [])"

definition wire_fields :: "DHTWire field list" where
  "wire_fields =
     [(''kind'', fld w_Kind (w_Kind_update) dec_string),
      (''rpc_id'', fld w_RPCID (w_RPCID_update) dec_string),
      (''target'', fld w_Target (w_Target_update) dec_string),
      (''nodes'', fld w_Nodes (w_Nodes_update) (dec_list zero_node dec_node)),
      (''key'', fld w_Key (w_Key_update) dec_string),
      (''record'', fld w_Record (w_Record_update) (dec_ptr zero_record dec_record)),
      (''ok'', fld w_OK (w_OK_update) dec_bool),
      (''error'', fld w_Error (w_Error_update) dec_string)]"

definition dec_wire :: "DHTWire decoder" where
  "dec_wire = dec_struct wire_fields"

lemma dec_wire_enc [field_laws]: "dec_wire (enc_wire x) zeroWire = Some x"
  by (cases x) (simp add: dec_wire_def enc_wire_def wire_fields_def zeroWire_def struct_laws field_laws dec_list_enc dec_ptr_enc)

lemma enc_wire_not_null [simp]: "enc_wire x \<noteq> JNull"
  by (simp add: enc_wire_def)

definition zero_quizopen :: QuizOpen where
  "zero_quizopen = \<lparr>qo_QuizID = [], qo_CreatorID = [], qo_Question = [], qo_Points = 0, qo_Created = 0, qo_Expires = 0\<rparr>"

definition enc_quizopen :: "QuizOpen \<Rightarrow> json_value" where
  "enc_quizopen x =
     JObject
       ([(''quiz_id'', JString (qo_QuizID x)), (''creator_id'', JString (qo_CreatorID x)), (''question'', JString (qo_Question x)), (''points'', enc_int64 (qo_Points x)), (''created'', enc_int64 (qo_Created x)), (''expires'', enc_int64 (qo_Expires x))])"

definition quizopen_fields :: "QuizOpen field list" where
  "quizopen_fields =
     [(''quiz_id'', fld qo_QuizID (qo_QuizID_update) dec_string),
      (''creator_id'', fld qo_CreatorID (qo_CreatorID_update) dec_string),
      (''question'', fld qo_Question (qo_Question_update) dec_string),
      (''points'', fld qo_Points (qo_Points_update) dec_int64),
      (''created'', fld qo_Created (qo_Created_update) dec_int64),
      (''expires'', fld qo_Expires (qo_Expires_update) dec_int64)]"

definition dec_quizopen :: "QuizOpen decoder" where
  "dec_quizopen = dec_struct quizopen_fields"

lemma dec_quizopen_enc [field_laws]: "dec_quizopen (enc_quizopen x) zero_quizopen = Some x"
  by (cases x) (simp add: dec_quizopen_def enc_quizopen_def quizopen_fields_def zero_quizopen_def struct_laws field_laws dec_list_enc dec_ptr_enc)

lemma enc_quizopen_not_null [simp]: "enc_quizopen x \<noteq> JNull"
  by (simp add: enc_quizopen_def)

definition zero_quizsigned :: QuizOpenSigned where
  "zero_quizsigned = \<lparr>qs_Open = zero_quizopen, qs_Signature = []\<rparr>"

definition enc_quizsigned :: "QuizOpenSigned \<Rightarrow> json_value" where
  "enc_quizsigned x =
     JObject
       ([(''open'', enc_quizopen (qs_Open x)), (''sig'', enc_bytes (qs_Signature x))])"

definition quizsigned_fields :: "QuizOpenSigned field list" where
  "quizsigned_fields =
     [(''open'', fld qs_Open (qs_Open_update) dec_quizopen),
      (''sig'', fld qs_Signature (qs_Signature_update) dec_bytes)]"

definition dec_quizsigned :: "QuizOpenSigned decoder" where
  "dec_quizsigned = dec_struct quizsigned_fields"

lemma dec_quizsigned_enc [field_laws]: "dec_quizsigned (enc_quizsigned x) zero_quizsigned = Some x"
  by (cases x) (simp add: dec_quizsigned_def enc_quizsigned_def quizsigned_fields_def zero_quizsigned_def struct_laws field_laws dec_list_enc dec_ptr_enc)

lemma enc_quizsigned_not_null [simp]: "enc_quizsigned x \<noteq> JNull"
  by (simp add: enc_quizsigned_def)

definition zero_quizanswer :: QuizAnswer where
  "zero_quizanswer = \<lparr>qa_QuizID = [], qa_Answer = [], qa_Timestamp = 0\<rparr>"

definition enc_quizanswer :: "QuizAnswer \<Rightarrow> json_value" where
  "enc_quizanswer x =
     JObject
       ([(''quiz_id'', JString (qa_QuizID x)), (''answer'', JString (qa_Answer x)), (''ts'', enc_int64 (qa_Timestamp x))])"

definition quizanswer_fields :: "QuizAnswer field list" where
  "quizanswer_fields =
     [(''quiz_id'', fld qa_QuizID (qa_QuizID_update) dec_string),
      (''answer'', fld qa_Answer (qa_Answer_update) dec_string),
      (''ts'', fld qa_Timestamp (qa_Timestamp_update) dec_int64)]"

definition dec_quizanswer :: "QuizAnswer decoder" where
  "dec_quizanswer = dec_struct quizanswer_fields"

lemma dec_quizanswer_enc [field_laws]: "dec_quizanswer (enc_quizanswer x) zero_quizanswer = Some x"
  by (cases x) (simp add: dec_quizanswer_def enc_quizanswer_def quizanswer_fields_def zero_quizanswer_def struct_laws field_laws dec_list_enc dec_ptr_enc)

lemma enc_quizanswer_not_null [simp]: "enc_quizanswer x \<noteq> JNull"
  by (simp add: enc_quizanswer_def)

definition zero_grant :: QuizGrant where
  "zero_grant = \<lparr>g_GrantID = [], g_QuizID = [], g_GrantorID = [], g_RecipientID = [], g_Points = 0, g_Timestamp = 0, g_Signature = []\<rparr>"

definition enc_grant :: "QuizGrant \<Rightarrow> json_value" where
  "enc_grant x =
     JObject
       ([(''grant_id'', JString (g_GrantID x)), (''quiz_id'', JString (g_QuizID x)), (''grantor_id'', JString (g_GrantorID x)), (''recipient_id'', JString (g_RecipientID x)), (''points'', enc_int64 (g_Points x)), (''ts'', enc_int64 (g_Timestamp x)), (''sig'', enc_bytes (g_Signature x))])"

definition grant_fields :: "QuizGrant field list" where
  "grant_fields =
     [(''grant_id'', fld g_GrantID (g_GrantID_update) dec_string),
      (''quiz_id'', fld g_QuizID (g_QuizID_update) dec_string),
      (''grantor_id'', fld g_GrantorID (g_GrantorID_update) dec_string),
      (''recipient_id'', fld g_RecipientID (g_RecipientID_update) dec_string),
      (''points'', fld g_Points (g_Points_update) dec_int64),
      (''ts'', fld g_Timestamp (g_Timestamp_update) dec_int64),
      (''sig'', fld g_Signature (g_Signature_update) dec_bytes)]"

definition dec_grant :: "QuizGrant decoder" where
  "dec_grant = dec_struct grant_fields"

lemma dec_grant_enc [field_laws]: "dec_grant (enc_grant x) zero_grant = Some x"
  by (cases x) (simp add: dec_grant_def enc_grant_def grant_fields_def zero_grant_def struct_laws field_laws dec_list_enc dec_ptr_enc)

lemma enc_grant_not_null [simp]: "enc_grant x \<noteq> JNull"
  by (simp add: enc_grant_def)

definition zero_quizresult :: QuizResult where
  "zero_quizresult = \<lparr>qr_QuizID = [], qr_PlayerID = [], qr_Correct = False, qr_Delta = 0\<rparr>"

definition enc_quizresult :: "QuizResult \<Rightarrow> json_value" where
  "enc_quizresult x =
     JObject
       ([(''quiz_id'', JString (qr_QuizID x)), (''player_id'', JString (qr_PlayerID x)), (''correct'', JBool (qr_Correct x)), (''delta'', enc_int64 (qr_Delta x))])"

definition quizresult_fields :: "QuizResult field list" where
  "quizresult_fields =
     [(''quiz_id'', fld qr_QuizID (qr_QuizID_update) dec_string),
      (''player_id'', fld qr_PlayerID (qr_PlayerID_update) dec_string),
      (''correct'', fld qr_Correct (qr_Correct_update) dec_bool),
      (''delta'', fld qr_Delta (qr_Delta_update) dec_int64)]"

definition dec_quizresult :: "QuizResult decoder" where
  "dec_quizresult = dec_struct quizresult_fields"

lemma dec_quizresult_enc [field_laws]: "dec_quizresult (enc_quizresult x) zero_quizresult = Some x"
  by (cases x) (simp add: dec_quizresult_def enc_quizresult_def quizresult_fields_def zero_quizresult_def struct_laws field_laws dec_list_enc dec_ptr_enc)

lemma enc_quizresult_not_null [simp]: "enc_quizresult x \<noteq> JNull"
  by (simp add: enc_quizresult_def)

definition zero_quiz :: QuizWire where
  "zero_quiz = \<lparr>qw_Kind = [], qw_Open = None, qw_Answer = None, qw_Grant = None, qw_Result = None\<rparr>"

definition enc_quiz :: "QuizWire \<Rightarrow> json_value" where
  "enc_quiz x =
     JObject
       ([(''kind'', JString (qw_Kind x))] @
        omit (qw_Open x = None) ''open'' ((enc_ptr enc_quizsigned) (qw_Open x)) @
        omit (qw_Answer x = None) ''answer'' ((enc_ptr enc_quizanswer) (qw_Answer x)) @
        omit (qw_Grant x = None) ''grant'' ((enc_ptr enc_grant) (qw_Grant x)) @
        omit (qw_Result x = None) ''result'' ((enc_ptr enc_quizresult) (qw_Result x)) @
        [])"

definition quiz_fields :: "QuizWire field list" where
  "quiz_fields =
     [(''kind'', fld qw_Kind (qw_Kind_update) dec_string),
      (''open'', fld qw_Open (qw_Open_update) (dec_ptr zero_quizsigned dec_quizsigned)),
      (''answer'', fld qw_Answer (qw_Answer_update) (dec_ptr zero_quizanswer dec_quizanswer)),
      (''grant'', fld qw_Grant (qw_Grant_update) (dec_ptr zero_grant dec_grant)),
      (''result'', fld qw_Result (qw_Result_update) (dec_ptr zero_quizresult dec_quizresult))]"

definition dec_quiz :: "QuizWire decoder" where
  "dec_quiz = dec_struct quiz_fields"

lemma dec_quiz_enc [field_laws]: "dec_quiz (enc_quiz x) zero_quiz = Some x"
  by (cases x) (simp add: dec_quiz_def enc_quiz_def quiz_fields_def zero_quiz_def struct_laws field_laws dec_list_enc dec_ptr_enc)

lemma enc_quiz_not_null [simp]: "enc_quiz x \<noteq> JNull"
  by (simp add: enc_quiz_def)

definition zero_snapshot :: PointsSnapshot where
  "zero_snapshot = \<lparr>ps_PlayerID = [], ps_Name = [], ps_Points = 0, ps_Version = 0\<rparr>"

definition enc_snapshot :: "PointsSnapshot \<Rightarrow> json_value" where
  "enc_snapshot x =
     JObject
       ([(''player_id'', JString (ps_PlayerID x)), (''name'', JString (ps_Name x)), (''points'', enc_int64 (ps_Points x)), (''version'', enc_uint64 (ps_Version x))])"

definition snapshot_fields :: "PointsSnapshot field list" where
  "snapshot_fields =
     [(''player_id'', fld ps_PlayerID (ps_PlayerID_update) dec_string),
      (''name'', fld ps_Name (ps_Name_update) dec_string),
      (''points'', fld ps_Points (ps_Points_update) dec_int64),
      (''version'', fld ps_Version (ps_Version_update) dec_uint64)]"

definition dec_snapshot :: "PointsSnapshot decoder" where
  "dec_snapshot = dec_struct snapshot_fields"

lemma dec_snapshot_enc [field_laws]: "dec_snapshot (enc_snapshot x) zero_snapshot = Some x"
  by (cases x) (simp add: dec_snapshot_def enc_snapshot_def snapshot_fields_def zero_snapshot_def struct_laws field_laws dec_list_enc dec_ptr_enc)

lemma enc_snapshot_not_null [simp]: "enc_snapshot x \<noteq> JNull"
  by (simp add: enc_snapshot_def)

definition zero_points :: SignedPointsSnapshot where
  "zero_points = \<lparr>sp_Snapshot = zero_snapshot, sp_PubKey = [], sp_Signature = []\<rparr>"

definition enc_points :: "SignedPointsSnapshot \<Rightarrow> json_value" where
  "enc_points x =
     JObject
       ([(''snapshot'', enc_snapshot (sp_Snapshot x)), (''pub_key'', enc_bytes (sp_PubKey x)), (''sig'', enc_bytes (sp_Signature x))])"

definition points_fields :: "SignedPointsSnapshot field list" where
  "points_fields =
     [(''snapshot'', fld sp_Snapshot (sp_Snapshot_update) dec_snapshot),
      (''pub_key'', fld sp_PubKey (sp_PubKey_update) dec_bytes),
      (''sig'', fld sp_Signature (sp_Signature_update) dec_bytes)]"

definition dec_points :: "SignedPointsSnapshot decoder" where
  "dec_points = dec_struct points_fields"

lemma dec_points_enc [field_laws]: "dec_points (enc_points x) zero_points = Some x"
  by (cases x) (simp add: dec_points_def enc_points_def points_fields_def zero_points_def struct_laws field_laws dec_list_enc dec_ptr_enc)

lemma enc_points_not_null [simp]: "enc_points x \<noteq> JNull"
  by (simp add: enc_points_def)

definition zero_summary :: GrantSyncSummary where
  "zero_summary = \<lparr>gs_MaxTimestamp = 0, gs_RecentGrantIDs = []\<rparr>"

definition enc_summary :: "GrantSyncSummary \<Rightarrow> json_value" where
  "enc_summary x =
     JObject
       ([(''max_ts'', enc_int64 (gs_MaxTimestamp x))] @
        omit (gs_RecentGrantIDs x = []) ''recent_ids'' ((enc_list JString) (gs_RecentGrantIDs x)) @
        [])"

definition summary_fields :: "GrantSyncSummary field list" where
  "summary_fields =
     [(''max_ts'', fld gs_MaxTimestamp (gs_MaxTimestamp_update) dec_int64),
      (''recent_ids'', fld gs_RecentGrantIDs (gs_RecentGrantIDs_update) (dec_list [] dec_string))]"

definition dec_summary :: "GrantSyncSummary decoder" where
  "dec_summary = dec_struct summary_fields"

lemma dec_summary_enc [field_laws]: "dec_summary (enc_summary x) zero_summary = Some x"
  by (cases x) (simp add: dec_summary_def enc_summary_def summary_fields_def zero_summary_def struct_laws field_laws dec_list_enc dec_ptr_enc)

lemma enc_summary_not_null [simp]: "enc_summary x \<noteq> JNull"
  by (simp add: enc_summary_def)

definition zero_request :: GrantSyncRequest where
  "zero_request = \<lparr>gr_SinceTimestamp = 0, gr_Limit = 0\<rparr>"

definition enc_request :: "GrantSyncRequest \<Rightarrow> json_value" where
  "enc_request x =
     JObject
       ([(''since_ts'', enc_int64 (gr_SinceTimestamp x)), (''limit'', enc_int (gr_Limit x))])"

definition request_fields :: "GrantSyncRequest field list" where
  "request_fields =
     [(''since_ts'', fld gr_SinceTimestamp (gr_SinceTimestamp_update) dec_int64),
      (''limit'', fld gr_Limit (gr_Limit_update) dec_int)]"

definition dec_request :: "GrantSyncRequest decoder" where
  "dec_request = dec_struct request_fields"

lemma enc_request_not_null [simp]: "enc_request x \<noteq> JNull"
  by (simp add: enc_request_def)

definition zero_peerinfo :: PeerInfo where
  "zero_peerinfo = \<lparr>pi_ID = [], pi_Name = [], pi_Addr = [], pi_PublicAddr = []\<rparr>"

definition enc_peerinfo :: "PeerInfo \<Rightarrow> json_value" where
  "enc_peerinfo x =
     JObject
       ([(''id'', JString (pi_ID x)), (''name'', JString (pi_Name x)), (''addr'', JString (pi_Addr x)), (''public_addr'', JString (pi_PublicAddr x))])"

definition peerinfo_fields :: "PeerInfo field list" where
  "peerinfo_fields =
     [(''id'', fld pi_ID (pi_ID_update) dec_string),
      (''name'', fld pi_Name (pi_Name_update) dec_string),
      (''addr'', fld pi_Addr (pi_Addr_update) dec_string),
      (''public_addr'', fld pi_PublicAddr (pi_PublicAddr_update) dec_string)]"

definition dec_peerinfo :: "PeerInfo decoder" where
  "dec_peerinfo = dec_struct peerinfo_fields"

lemma dec_peerinfo_enc [field_laws]: "dec_peerinfo (enc_peerinfo x) zero_peerinfo = Some x"
  by (cases x) (simp add: dec_peerinfo_def enc_peerinfo_def peerinfo_fields_def zero_peerinfo_def struct_laws field_laws dec_list_enc dec_ptr_enc)

lemma enc_peerinfo_not_null [simp]: "enc_peerinfo x \<noteq> JNull"
  by (simp add: enc_peerinfo_def)

definition zero_hello :: Hello where
  "zero_hello = \<lparr>h_Name = [], h_Listen = [], h_Protocol = []\<rparr>"

definition enc_hello :: "Hello \<Rightarrow> json_value" where
  "enc_hello x =
     JObject
       ([(''name'', JString (h_Name x)), (''listen'', JString (h_Listen x)), (''procol'', JString (h_Protocol x))])"

definition hello_fields :: "Hello field list" where
  "hello_fields =
     [(''name'', fld h_Name (h_Name_update) dec_string),
      (''listen'', fld h_Listen (h_Listen_update) dec_string),
      (''procol'', fld h_Protocol (h_Protocol_update) dec_string)]"

definition dec_hello :: "Hello decoder" where
  "dec_hello = dec_struct hello_fields"

lemma dec_hello_enc [field_laws]: "dec_hello (enc_hello x) zero_hello = Some x"
  by (cases x) (simp add: dec_hello_def enc_hello_def hello_fields_def zero_hello_def struct_laws field_laws dec_list_enc dec_ptr_enc)

lemma enc_hello_not_null [simp]: "enc_hello x \<noteq> JNull"
  by (simp add: enc_hello_def)

definition zero_identify :: Identify where
  "zero_identify = \<lparr>id_Name = [], id_UserPub = []\<rparr>"

definition enc_identify :: "Identify \<Rightarrow> json_value" where
  "enc_identify x =
     JObject
       ([(''name'', JString (id_Name x)), (''user_pub'', enc_bytes (id_UserPub x))])"

definition identify_fields :: "Identify field list" where
  "identify_fields =
     [(''name'', fld id_Name (id_Name_update) dec_string),
      (''user_pub'', fld id_UserPub (id_UserPub_update) dec_bytes)]"

definition dec_identify :: "Identify decoder" where
  "dec_identify = dec_struct identify_fields"

lemma dec_identify_enc [field_laws]: "dec_identify (enc_identify x) zero_identify = Some x"
  by (cases x) (simp add: dec_identify_def enc_identify_def identify_fields_def zero_identify_def struct_laws field_laws dec_list_enc dec_ptr_enc)

lemma enc_identify_not_null [simp]: "enc_identify x \<noteq> JNull"
  by (simp add: enc_identify_def)

definition zero_natregister :: NatRegister where
  "zero_natregister = \<lparr>nr_UserID = [], NatRegister.nr_Name = []\<rparr>"

definition enc_natregister :: "NatRegister \<Rightarrow> json_value" where
  "enc_natregister x =
     JObject
       ([(''user_id'', JString (nr_UserID x)), (''name'', JString (NatRegister.nr_Name x))])"

definition natregister_fields :: "NatRegister field list" where
  "natregister_fields =
     [(''user_id'', fld nr_UserID (nr_UserID_update) dec_string),
      (''name'', fld NatRegister.nr_Name (NatRegister.nr_Name_update) dec_string)]"

definition dec_natregister :: "NatRegister decoder" where
  "dec_natregister = dec_struct natregister_fields"

lemma dec_natregister_enc [field_laws]: "dec_natregister (enc_natregister x) zero_natregister = Some x"
  by (cases x) (simp add: dec_natregister_def enc_natregister_def natregister_fields_def zero_natregister_def struct_laws field_laws dec_list_enc dec_ptr_enc)

lemma enc_natregister_not_null [simp]: "enc_natregister x \<noteq> JNull"
  by (simp add: enc_natregister_def)

definition zero_chat :: ChatMessage where
  "zero_chat = \<lparr>cm_Text = [], cm_From = [], cm_Timestamp = 0\<rparr>"

definition enc_chat :: "ChatMessage \<Rightarrow> json_value" where
  "enc_chat x =
     JObject
       ([(''text'', JString (cm_Text x)), (''from'', JString (cm_From x)), (''timestamp'', enc_int64 (cm_Timestamp x))])"

definition chat_fields :: "ChatMessage field list" where
  "chat_fields =
     [(''text'', fld cm_Text (cm_Text_update) dec_string),
      (''from'', fld cm_From (cm_From_update) dec_string),
      (''timestamp'', fld cm_Timestamp (cm_Timestamp_update) dec_int64)]"

definition dec_chat :: "ChatMessage decoder" where
  "dec_chat = dec_struct chat_fields"

lemma dec_chat_enc [field_laws]: "dec_chat (enc_chat x) zero_chat = Some x"
  by (cases x) (simp add: dec_chat_def enc_chat_def chat_fields_def zero_chat_def struct_laws field_laws dec_list_enc dec_ptr_enc)

lemma enc_chat_not_null [simp]: "enc_chat x \<noteq> JNull"
  by (simp add: enc_chat_def)

definition zero_encrypted :: EncryptedMessage where
  "zero_encrypted = \<lparr>em_Nonce = [], em_Ciphertext = []\<rparr>"

definition enc_encrypted :: "EncryptedMessage \<Rightarrow> json_value" where
  "enc_encrypted x =
     JObject
       ([(''nonce'', enc_bytes (em_Nonce x)), (''ciphertext'', enc_bytes (em_Ciphertext x))])"

definition encrypted_fields :: "EncryptedMessage field list" where
  "encrypted_fields =
     [(''nonce'', fld em_Nonce (em_Nonce_update) dec_bytes),
      (''ciphertext'', fld em_Ciphertext (em_Ciphertext_update) dec_bytes)]"

definition dec_encrypted :: "EncryptedMessage decoder" where
  "dec_encrypted = dec_struct encrypted_fields"

lemma dec_encrypted_enc [field_laws]: "dec_encrypted (enc_encrypted x) zero_encrypted = Some x"
  by (cases x) (simp add: dec_encrypted_def enc_encrypted_def encrypted_fields_def zero_encrypted_def struct_laws field_laws dec_list_enc dec_ptr_enc)

lemma enc_encrypted_not_null [simp]: "enc_encrypted x \<noteq> JNull"
  by (simp add: enc_encrypted_def)

text \<open>\<^verbatim>\<open>int\<close> has 64 bits.\<close>

definition int_range :: "int \<Rightarrow> bool" where
  "int_range i \<longleftrightarrow> - (2 ^ 63) \<le> i \<and> i < 2 ^ 63"

lemma dec_request_enc [field_laws]: "int_range (gr_Limit x) \<Longrightarrow> dec_request (enc_request x) zero_request = Some x"
  by (cases x) (simp add: int_range_def dec_request_def enc_request_def request_fields_def zero_request_def struct_laws field_laws dec_int_enc)

subsection \<open>Payloads and envelopes\<close>

text \<open>The structs with raw fields, as they are decoded first.\<close>

record RawGossip =
  rg_ID :: string
  rg_Channel :: string
  rg_Body :: "json_value option"

record RawRelay =
  rr_ToUserID :: string
  rr_Payload :: "json_value option"

record RawEnvelope =
  re_Type :: string
  re_FromID :: string
  re_Payload :: "json_value option"

definition zero_gossip :: RawGossip where "zero_gossip = \<lparr>rg_ID = [], rg_Channel = [], rg_Body = None\<rparr>"
definition zero_relay :: RawRelay where "zero_relay = \<lparr>rr_ToUserID = [], rr_Payload = None\<rparr>"
definition zero_envelope :: RawEnvelope where "zero_envelope = \<lparr>re_Type = [], re_FromID = [], re_Payload = None\<rparr>"

definition gossip_fields :: "RawGossip field list" where
  "gossip_fields =
     [(''id'', fld rg_ID rg_ID_update dec_string), (''channel'', fld rg_Channel rg_Channel_update dec_string),
      (''body'', fld rg_Body rg_Body_update dec_raw)]"

definition relay_fields :: "RawRelay field list" where
  "relay_fields = [(''to_user_id'', fld rr_ToUserID rr_ToUserID_update dec_string), (''payload'', fld rr_Payload rr_Payload_update dec_raw)]"

definition envelope_fields :: "RawEnvelope field list" where
  "envelope_fields =
     [(''type'', fld re_Type re_Type_update dec_string), (''from_id'', fld re_FromID re_FromID_update dec_string),
      (''payload'', fld re_Payload re_Payload_update dec_raw)]"

definition peerlist_fields :: "PeerInfo list field list" where
  "peerlist_fields = [(''peers'', fld (\<lambda>r. r) (\<lambda>f. f) (dec_list zero_peerinfo dec_peerinfo))]"

definition response_fields :: "QuizGrant list field list" where
  "response_fields = [(''grants'', fld (\<lambda>r. r) (\<lambda>f. f) (dec_list zero_grant dec_grant))]"

text \<open>\<^verbatim>\<open>MustMarshal\<close> of each payload; a raw message that was never set is \<^verbatim>\<open>null\<close>.\<close>

primrec enc_payload :: "payload \<Rightarrow> json_value" where
  "enc_payload P_bad = JNull"
| "enc_payload (P_hello x) = enc_hello x"
| "enc_payload (P_peers ps) = JObject [(''peers'', enc_list enc_peerinfo ps)]"
| "enc_payload (P_identify x) = enc_identify x"
| "enc_payload (P_gossip i ch b) = JObject [(''id'', JString i), (''channel'', JString ch), (''body'', enc_payload b)]"
| "enc_payload (P_chat x) = enc_chat x"
| "enc_payload (P_dht x) = enc_wire x"
| "enc_payload (P_quiz x) = enc_quiz x"
| "enc_payload (P_points x) = enc_points x"
| "enc_payload (P_encrypted x) = enc_encrypted x"
| "enc_payload (P_natRegister x) = enc_natregister x"
| "enc_payload (P_natRelay u b) = JObject [(''to_user_id'', JString u), (''payload'', enc_payload b)]"
| "enc_payload (P_syncSummary x) = enc_summary x"
| "enc_payload (P_syncRequest x) = enc_request x"
| "enc_payload (P_syncResponse gs) = JObject [(''grants'', enc_list enc_grant gs)]"

definition enc_envelope :: "Envelope \<Rightarrow> json_value" where
  "enc_envelope env =
     JObject [(''type'', JString (env_Type env)), (''from_id'', JString (env_FromID env)), (''payload'', enc_payload (env_Payload env))]"

text \<open>\<^verbatim>\<open>json.Unmarshal\<close> of a raw message into a fresh value; the empty message is an error.\<close>

definition unmarshal_as :: "('a \<Rightarrow> payload) \<Rightarrow> 'a decoder \<Rightarrow> 'a \<Rightarrow> json_value option \<Rightarrow> payload" where
  "unmarshal_as con d z raw = (case Option.bind raw (\<lambda>j. d j z) of None \<Rightarrow> P_bad | Some x \<Rightarrow> con x)"

text \<open>The body of a gossip message is decoded by its channel, a payload by the type of its envelope. Bodies and payloads that no
  handler looks at stay undecoded.\<close>

definition decode_body :: "string \<Rightarrow> json_value option \<Rightarrow> payload" where
  "decode_body ch raw =
     (if prefix ''enc:'' ch then unmarshal_as P_encrypted dec_encrypted zero_encrypted raw
      else if ch = ''global'' then unmarshal_as P_chat dec_chat zero_chat raw
      else if ch = ''points'' then unmarshal_as P_points dec_points zero_points raw
      else if ch = ''quiz'' then unmarshal_as P_quiz dec_quiz zero_quiz raw
      else P_bad)"

definition decode_payload :: "string \<Rightarrow> json_value option \<Rightarrow> payload" where
  "decode_payload t raw =
     (if t = MsgHello then unmarshal_as P_hello dec_hello zero_hello raw
      else if t = MsgPeerList then unmarshal_as P_peers (dec_struct peerlist_fields) [] raw
      else if t = MsgGossip then
        unmarshal_as (\<lambda>g. P_gossip (rg_ID g) (rg_Channel g) (decode_body (rg_Channel g) (rg_Body g))) (dec_struct gossip_fields) zero_gossip raw
      else if t = MsgIdentify then unmarshal_as P_identify dec_identify zero_identify raw
      else if t = MsgNatRegister then unmarshal_as P_natRegister dec_natregister zero_natregister raw
      else if t = MsgNatRelay then unmarshal_as (\<lambda>m. P_natRelay (rr_ToUserID m) P_bad) (dec_struct relay_fields) zero_relay raw
      else if t = MsgDHT then unmarshal_as P_dht dec_wire zeroWire raw
      else if t = MsgGrantSyncSummary then unmarshal_as P_syncSummary dec_summary zero_summary raw
      else if t = MsgGrantSyncRequest then unmarshal_as P_syncRequest dec_request zero_request raw
      else if t = MsgGrantSyncResponse then unmarshal_as P_syncResponse (dec_struct response_fields) [] raw
      else P_bad)"

definition dec_envelope :: "json_value \<Rightarrow> Envelope option" where
  "dec_envelope j =
     map_option (\<lambda>e. \<lparr>env_Type = re_Type e, env_FromID = re_FromID e, env_Payload = decode_payload (re_Type e) (re_Payload e)\<rparr>)
       (dec_struct envelope_fields j zero_envelope)"

text \<open>The payload is of the kind its envelope announces.\<close>

definition body_fits :: "string \<Rightarrow> payload \<Rightarrow> bool" where
  "body_fits ch b \<longleftrightarrow>
     (case b of
        P_encrypted _ \<Rightarrow> prefix ''enc:'' ch
      | P_chat _ \<Rightarrow> ch = ''global''
      | P_points _ \<Rightarrow> ch = ''points''
      | P_quiz _ \<Rightarrow> ch = ''quiz''
      | P_bad \<Rightarrow> \<not> prefix ''enc:'' ch \<and> ch \<notin> {''global'', ''points'', ''quiz''}
      | _ \<Rightarrow> False)"

definition payload_fits :: "string \<Rightarrow> payload \<Rightarrow> bool" where
  "payload_fits t p \<longleftrightarrow>
     (case p of
        P_hello _ \<Rightarrow> t = MsgHello
      | P_peers _ \<Rightarrow> t = MsgPeerList
      | P_gossip _ ch b \<Rightarrow> t = MsgGossip \<and> body_fits ch b
      | P_identify _ \<Rightarrow> t = MsgIdentify
      | P_natRegister _ \<Rightarrow> t = MsgNatRegister
      | P_natRelay _ b \<Rightarrow> t = MsgNatRelay \<and> b = P_bad
      | P_dht _ \<Rightarrow> t = MsgDHT
      | P_syncSummary _ \<Rightarrow> t = MsgGrantSyncSummary
      | P_syncRequest r \<Rightarrow> t = MsgGrantSyncRequest \<and> int_range (gr_Limit r)
      | P_syncResponse _ \<Rightarrow> t = MsgGrantSyncResponse
      | _ \<Rightarrow> False)"

lemma decode_body_enc: "body_fits ch b \<Longrightarrow> decode_body ch (Some (enc_payload b)) = b"
  by (cases b) (auto simp: body_fits_def decode_body_def unmarshal_as_def field_laws)

lemma decode_payload_enc: "payload_fits t p \<Longrightarrow> decode_payload t (Some (enc_payload p)) = p"
  by (cases p)
    (simp_all add: payload_fits_def decode_payload_def unmarshal_as_def msg_type_defs field_laws struct_laws dec_list_enc decode_body_enc dec_raw_def
      peerlist_fields_def response_fields_def gossip_fields_def relay_fields_def zero_gossip_def zero_relay_def)

lemma dec_envelope_enc: "payload_fits (env_Type env) (env_Payload env) \<Longrightarrow> dec_envelope (enc_envelope env) = Some env"
  by (simp add: dec_envelope_def enc_envelope_def struct_laws envelope_fields_def zero_envelope_def field_laws dec_raw_def decode_payload_enc)

lemmas enc_defs = enc_node_def enc_record_def enc_wire_def enc_quizopen_def enc_quizsigned_def enc_quizanswer_def enc_grant_def
  enc_quizresult_def enc_quiz_def enc_snapshot_def enc_points_def enc_summary_def enc_request_def enc_peerinfo_def enc_hello_def
  enc_identify_def enc_natregister_def enc_chat_def enc_encrypted_def enc_list_def enc_ptr_def

text \<open>No message nests deeper than six levels.\<close>

lemma depth_messages [simp]:
  "depth (enc_node nd) = 1" "depth (enc_record r) = 1" "depth (enc_grant g) = 1" "depth (enc_peerinfo p) = 1" "depth (enc_quizopen qo) = 1"
  "depth (enc_snapshot s) = 1" "depth (enc_quizanswer qa) = 1" "depth (enc_quizresult qr) = 1" "depth (enc_request rq) = 1"
  "depth (enc_hello h) = 1" "depth (enc_identify i) = 1" "depth (enc_natregister nr) = 1" "depth (enc_chat c) = 1" "depth (enc_encrypted e) = 1"
  "depth (enc_quizsigned qs) = 2" "depth (enc_points sp) = 2"
  by (simp_all add: enc_node_def enc_record_def enc_grant_def enc_peerinfo_def enc_quizopen_def enc_snapshot_def enc_quizanswer_def
      enc_quizresult_def enc_request_def enc_hello_def enc_identify_def enc_natregister_def enc_chat_def enc_encrypted_def enc_quizsigned_def
      enc_points_def omit_def)

lemma depth_list: "(\<And>x. x \<in> set xs \<Longrightarrow> depth (e x) \<le> n) \<Longrightarrow> depth (enc_list e xs) \<le> Suc n"
  by (simp add: enc_list_def depth_elems_map)

lemma depth_ptr: "(\<And>y. depth (e y) \<le> n) \<Longrightarrow> depth (enc_ptr e x) \<le> n"
  by (simp add: enc_ptr_def split: option.split)

lemma depth_nested: "depth (enc_wire w) \<le> 3" "depth (enc_quiz q) \<le> 3" "depth (enc_summary s) \<le> 2"
  using depth_list [of "w_Nodes w" enc_node 1] depth_list [of "gs_RecentGrantIDs s" JString 0]
  by (simp_all add: enc_wire_def enc_quiz_def enc_summary_def depth_omit depth_ptr)

lemma depth_body: "body_fits ch b \<Longrightarrow> depth (enc_payload b) \<le> 3"
  using depth_nested by (cases b) (simp_all add: body_fits_def)

lemma depth_payload: "payload_fits t p \<Longrightarrow> depth (enc_payload p) \<le> 4"
proof (cases p)
  case (P_gossip i ch b)
  moreover assume "payload_fits t p"
  ultimately show ?thesis
    using depth_body [of ch b] by (simp add: payload_fits_def)
next
  case (P_peers ps)
  then show ?thesis
    using depth_list [of ps enc_peerinfo 1] by simp
next
  case (P_syncResponse gs)
  then show ?thesis
    using depth_list [of gs enc_grant 1] by simp
next
  case (P_dht w)
  then show ?thesis
    using depth_nested(1) [of w] by simp
next
  case (P_syncSummary s)
  then show ?thesis
    using depth_nested(3) [of s] by simp
qed (simp_all add: payload_fits_def)

lemma depth_envelope: "payload_fits (env_Type env) (env_Payload env) \<Longrightarrow> depth (enc_envelope env) \<le> maxNestingDepth"
  using depth_payload [of "env_Type env" "env_Payload env"] by (simp add: enc_envelope_def maxNestingDepth_def)

subsection \<open>Well-formed text\<close>

lemma wf_structs [simp]:
  "json_wf (enc_node nd)" "json_wf (enc_record r)" "json_wf (enc_grant g)" "json_wf (enc_peerinfo p)" "json_wf (enc_quizopen qo)"
  "json_wf (enc_snapshot s)" "json_wf (enc_quizanswer qa)" "json_wf (enc_quizresult qr)"
  by (simp_all add: enc_node_def enc_record_def enc_grant_def enc_peerinfo_def enc_quizopen_def enc_snapshot_def enc_quizanswer_def
      enc_quizresult_def)

lemma wf_payload [simp]: "json_wf (enc_payload p)"
  by (induction p)
    (simp_all add: enc_hello_def enc_identify_def enc_chat_def enc_wire_def enc_quiz_def enc_quizsigned_def enc_points_def enc_encrypted_def
      enc_natregister_def enc_summary_def enc_request_def enc_list_def enc_ptr_def split: option.splits)

lemma wf_envelope [simp]: "json_wf (enc_envelope env)"
  by (simp add: enc_envelope_def)

text \<open>The text of a grant, read back.\<close>

definition clean_grant :: "QuizGrant \<Rightarrow> QuizGrant" where
  "clean_grant g = g\<lparr>g_GrantID := sanitize (g_GrantID g), g_QuizID := sanitize (g_QuizID g),
     g_GrantorID := sanitize (g_GrantorID g), g_RecipientID := sanitize (g_RecipientID g)\<rparr>"

definition grant_text :: "QuizGrant \<Rightarrow> bool" where
  "grant_text g \<longleftrightarrow> utf8_valid (g_GrantID g) \<and> utf8_valid (g_QuizID g) \<and> utf8_valid (g_GrantorID g) \<and> utf8_valid (g_RecipientID g)"

lemma clean_grant_text: "grant_text g \<Longrightarrow> clean_grant g = g"
  by (simp add: clean_grant_def grant_text_def sanitize_valid)

lemma clean_enc_grant: "clean (enc_grant g) = enc_grant (clean_grant g)"
  by (simp add: enc_grant_def clean_grant_def clean_text sanitize_valid)

subsection \<open>JSON on bytes\<close>

definition Marshal_bytes :: "('v \<Rightarrow> json_value) \<Rightarrow> 'v \<Rightarrow> bytes" where
  "Marshal_bytes enc v = bytes_of (print_json (enc v))"

definition Unmarshal_bytes :: "(json_value \<Rightarrow> 'v option) \<Rightarrow> bytes \<Rightarrow> 'v option" where
  "Unmarshal_bytes dec bs = Option.bind (parse_json (string_of bs)) dec"

subsection \<open>What is received is text\<close>

text \<open>A decoder that keeps \<open>P\<close> when the JSON value holds text only.\<close>

definition keeps_text :: "('r \<Rightarrow> bool) \<Rightarrow> 'r decoder \<Rightarrow> bool" where
  "keeps_text P d \<longleftrightarrow> (\<forall>j r r'. json_text j \<longrightarrow> P r \<longrightarrow> d j r = Some r' \<longrightarrow> P r')"

lemma keeps_textD: "keeps_text P d \<Longrightarrow> json_text j \<Longrightarrow> P r \<Longrightarrow> d j r = Some r' \<Longrightarrow> P r'"
  unfolding keeps_text_def by blast

lemma keeps_string: "keeps_text utf8_valid dec_string"
  by (auto simp: keeps_text_def dec_string_def split: json_value.splits)

lemma keeps_fld:
  assumes "keeps_text Q d" "\<And>r. P r \<Longrightarrow> Q (get r)" "\<And>r x. P r \<Longrightarrow> Q x \<Longrightarrow> P (upd (\<lambda>_. x) r)"
  shows "keeps_text P (fld get upd d)"
  unfolding keeps_text_def
proof (intro allI impI)
  fix j r r'
  assume j: "json_text j" "P r" "fld get upd d j r = Some r'"
  then obtain x where "d j (get r) = Some x" "r' = upd (\<lambda>_. x) r"
    by (auto simp: fld_def)
  then show "P r'"
    using assms(3) [OF j(2)] keeps_textD [OF assms(1) j(1) assms(2) [OF j(2)]] by simp
qed

lemma keeps_any: "keeps_text (\<lambda>_. True) d"
  by (simp add: keeps_text_def)

lemma keeps_members: "(\<And>n d. (n, d) \<in> set fs \<Longrightarrow> keeps_text P d) \<Longrightarrow> text_members ms \<Longrightarrow> P r \<Longrightarrow> dec_members fs ms r = Some r' \<Longrightarrow> P r'"
proof (induction fs ms r rule: dec_members.induct)
  case (2 fs k v ms r)
  have "\<exists>n. (n, d) \<in> set fs" if "find_field fs k = Some d" for d
    using that by (force simp: find_field_def split: option.splits dest!: map_of_SomeD)
  then show ?case
    using 2 keeps_textD [of P _ v r] by (fastforce simp: dec_members.simps(2) split: option.splits)
qed simp

lemma keeps_struct: "(\<And>n d. (n, d) \<in> set fs \<Longrightarrow> keeps_text P d) \<Longrightarrow> keeps_text P (dec_struct fs)"
  using keeps_members [of fs P] unfolding keeps_text_def [of P "dec_struct fs"] dec_struct_def
  by (auto split: json_value.splits)

lemma keeps_elems:
  "keeps_text P d \<Longrightarrow> P z \<Longrightarrow> text_elems vs \<Longrightarrow> \<forall>x \<in> set old. P x \<Longrightarrow> dec_elems z d vs j old = Some xs \<Longrightarrow> \<forall>x \<in> set xs. P x"
proof (induction vs arbitrary: old xs)
  case (Cons v vs)
  have "P (case old of [] \<Rightarrow> z | x # _ \<Rightarrow> x)" "\<forall>x \<in> set (tl old). P x"
    using Cons.prems(2,4) by (cases old; simp)+
  moreover obtain x ys where "d v (case old of [] \<Rightarrow> z | x # _ \<Rightarrow> x) = Some x" "dec_elems z d vs j (tl old) = Some ys" "xs = x # ys"
    using Cons.prems(5) by (auto split: option.splits)
  moreover have t: "json_text v" "text_elems vs"
    using Cons.prems(3) by simp_all
  ultimately have "P x" "\<forall>y \<in> set ys. P y"
    using keeps_textD [OF Cons.prems(1) t(1)] Cons.IH [OF Cons.prems(1,2) t(2)] by blast+
  then show ?case
    using \<open>xs = x # ys\<close> by simp
qed simp

lemma keeps_list: "keeps_text P d \<Longrightarrow> P z \<Longrightarrow> keeps_text (\<lambda>xs. \<forall>x \<in> set xs. P x) (dec_list z d)"
  using keeps_elems [of P d z] unfolding keeps_text_def [of "\<lambda>xs. \<forall>x \<in> set xs. P x"] dec_list_def
  by (auto split: json_value.splits)

lemma keeps_ptr: "keeps_text P d \<Longrightarrow> P z \<Longrightarrow> keeps_text (\<lambda>x. \<forall>y \<in> set_option x. P y) (dec_ptr z d)"
  using keeps_textD [of P d] unfolding keeps_text_def [of "\<lambda>x. \<forall>y \<in> set_option x. P y"] dec_ptr_def
  by (auto split: option.splits if_splits)

lemma keeps_grant: "keeps_text grant_text dec_grant" "grant_text zero_grant"
proof -
  have "keeps_text grant_text d" if "(n, d) \<in> set grant_fields" for n d
    using that unfolding grant_fields_def
    by (auto simp: grant_text_def intro!: keeps_fld [OF keeps_string] intro: keeps_fld [OF keeps_any])
  then show "keeps_text grant_text dec_grant"
    unfolding dec_grant_def by (rule keeps_struct)
qed (simp add: grant_text_def zero_grant_def)

text \<open>The grants a message carries.\<close>

fun grants_in :: "payload \<Rightarrow> QuizGrant set" where
  "grants_in (P_syncResponse gs) = set gs"
| "grants_in (P_gossip i ch b) = grants_in b"
| "grants_in (P_quiz q) = set_option (qw_Grant q)"
| "grants_in _ = {}"

lemma keeps_quiz: "keeps_text (\<lambda>q. \<forall>g \<in> set_option (qw_Grant q). grant_text g) dec_quiz"
proof -
  have "keeps_text (\<lambda>q. \<forall>g \<in> set_option (qw_Grant q). grant_text g) d" if "(n, d) \<in> set quiz_fields" for n d
    using that unfolding quiz_fields_def
    by (auto intro!: keeps_fld [OF keeps_ptr [OF keeps_grant]] intro: keeps_fld [OF keeps_any])
  then show ?thesis
    unfolding dec_quiz_def by (rule keeps_struct)
qed

lemma body_grants_text:
  assumes "\<forall>j \<in> set_option raw. json_text j" "g \<in> grants_in (decode_body ch raw)"
  shows "grant_text g"
proof -
  obtain q j where "raw = Some j" "dec_quiz j zero_quiz = Some q" "g \<in> set_option (qw_Grant q)"
    using assms(2) by (auto simp: decode_body_def unmarshal_as_def bind_eq_Some_conv split: if_splits option.splits)
  then show ?thesis
    using keeps_textD [OF keeps_quiz, of j zero_quiz q] assms(1) by (auto simp: zero_quiz_def)
qed

lemma keeps_raw: "keeps_text (\<lambda>x. \<forall>j \<in> set_option x. json_text j) dec_raw"
  by (simp add: keeps_text_def dec_raw_def)

lemma keeps_gossip: "keeps_text (\<lambda>r. \<forall>j \<in> set_option (rg_Body r). json_text j) (dec_struct gossip_fields)"
  by (rule keeps_struct)
    (auto simp: gossip_fields_def intro!: keeps_fld [OF keeps_raw] intro: keeps_fld [OF keeps_any])

lemma keeps_envelope: "keeps_text (\<lambda>r. \<forall>j \<in> set_option (re_Payload r). json_text j) (dec_struct envelope_fields)"
  by (rule keeps_struct)
    (auto simp: envelope_fields_def intro!: keeps_fld [OF keeps_raw] intro: keeps_fld [OF keeps_any])

lemma keeps_response: "keeps_text (\<lambda>gs. \<forall>g \<in> set gs. grant_text g) (dec_struct response_fields)"
  by (rule keeps_struct) (auto simp: response_fields_def intro!: keeps_fld [OF keeps_list [OF keeps_grant]])

lemma payload_grants_text:
  assumes "\<forall>j \<in> set_option raw. json_text j" "g \<in> grants_in (decode_payload t raw)"
  shows "grant_text g"
proof -
  consider r j where "raw = Some j" "dec_struct gossip_fields j zero_gossip = Some r" "g \<in> grants_in (decode_body (rg_Channel r) (rg_Body r))"
    | gs j where "raw = Some j" "dec_struct response_fields j [] = Some gs" "g \<in> set gs"
    using assms(2) by (auto simp: decode_payload_def unmarshal_as_def bind_eq_Some_conv split: if_splits option.splits)
  then show ?thesis
  proof cases
    case (1 r j)
    then show ?thesis
      using keeps_textD [OF keeps_gossip, of j zero_gossip r] assms(1) body_grants_text by (auto simp: zero_gossip_def)
  next
    case (2 gs j)
    then show ?thesis
      using keeps_textD [OF keeps_response, of j "[]" gs] assms(1) by auto
  qed
qed

lemma received_grants_text:
  assumes "Unmarshal_bytes dec_envelope bs = Some env" "g \<in> grants_in (env_Payload env)"
  shows "grant_text g"
proof -
  obtain j r where "parse_json (string_of bs) = Some j" "dec_struct envelope_fields j zero_envelope = Some r"
      "env_Payload env = decode_payload (re_Type r) (re_Payload r)"
    using assms(1) by (auto simp: Unmarshal_bytes_def dec_envelope_def bind_eq_Some_conv)
  then show ?thesis
    using keeps_textD [OF keeps_envelope, of j zero_envelope r] parse_json_text payload_grants_text [of "re_Payload r"] assms(2)
    by (auto simp: zero_envelope_def)
qed

subsection \<open>Signed messages\<close>

text \<open>The bytes that are signed are those of \<^verbatim>\<open>json.Marshal\<close>, which cannot fail for these types.\<close>

definition EncodeSnapshotCanonical :: "PointsSnapshot \<Rightarrow> bytes" where
  "EncodeSnapshotCanonical s = Marshal_bytes enc_snapshot s"

definition EncodeQuizOpenCanonical :: "QuizOpen \<Rightarrow> bytes" where
  "EncodeQuizOpenCanonical qo = Marshal_bytes enc_quizopen qo"

text \<open>A name that is not UTF-8 reaches the receiver with the replacement character, for which \<^verbatim>\<open>json.Marshal\<close> writes other bytes than the
  sender has signed.\<close>

lemma snapshot_name_not_text:
  "EncodeSnapshotCanonical \<lparr>ps_PlayerID = p, ps_Name = sanitize [CHR 0xFF], ps_Points = n, ps_Version = v\<rparr> \<noteq>
   EncodeSnapshotCanonical \<lparr>ps_PlayerID = p, ps_Name = [CHR 0xFF], ps_Points = n, ps_Version = v\<rparr>"
proof
  have "length (escape (sanitize [CHR 0xFF])) = 3" "length (escape [CHR 0xFF]) = 6"
    by (simp_all add: sanitize.simps(2) escape.simps(2) utf8_size_def continued_def replacement_def line_separator_def hex_escape_def)
  moreover assume "EncodeSnapshotCanonical \<lparr>ps_PlayerID = p, ps_Name = sanitize [CHR 0xFF], ps_Points = n, ps_Version = v\<rparr> =
    EncodeSnapshotCanonical \<lparr>ps_PlayerID = p, ps_Name = [CHR 0xFF], ps_Points = n, ps_Version = v\<rparr>"
  ultimately show False
    by (auto simp: EncodeSnapshotCanonical_def Marshal_bytes_def enc_snapshot_def quote_def omit_def dest!: arg_cong [of _ _ length])
qed

subsection \<open>Messages of encrypted channels\<close>

text \<open>\<^verbatim>\<open>map[string]any\<close> is written with its keys in order. Read back, every number becomes a \<^verbatim>\<open>float64\<close>, and one that is out of its range is
  an error: decimals from \<^verbatim>\<open>2^1024 - 2^970\<close> on round to infinity.\<close>

definition enc_chat_map :: "string \<Rightarrow> string \<Rightarrow> string \<Rightarrow> int64 \<Rightarrow> json_value" where
  "enc_chat_map chName from txt ts =
     JObject [(''channel'', JString chName), (''from'', JString from), (''text'', JString txt), (''timestamp'', enc_int64 ts)]"

definition float_fits :: "string \<Rightarrow> bool" where
  "float_fits s =
     (let body = (if prefix ''-'' s then drop 1 s else s);
          m = takeWhile (\<lambda>c. c \<noteq> CHR ''e'' \<and> c \<noteq> CHR ''E'') body;
          ex = drop (Suc (length m)) body;
          e = (if prefix ''-'' ex then - dec_value 0 (drop 1 ex) else if prefix ''+'' ex then dec_value 0 (drop 1 ex) else dec_value 0 ex);
          ip = takeWhile (\<lambda>c. c \<noteq> CHR ''.'') m;
          fp = drop (Suc (length ip)) m;
          v = dec_value 0 (ip @ fp);
          e10 = e - int (length fp)
      in v * 10 ^ nat e10 < (2 ^ 1024 - 2 ^ 970) * 10 ^ nat (- e10))"

fun floats_fit :: "json_value \<Rightarrow> bool"
  and floats_elems :: "json_value list \<Rightarrow> bool"
  and floats_members :: "(string \<times> json_value) list \<Rightarrow> bool" where
  "floats_fit (JNumber n) \<longleftrightarrow> float_fits n"
| "floats_fit (JArray vs) \<longleftrightarrow> floats_elems vs"
| "floats_fit (JObject ms) \<longleftrightarrow> floats_members ms"
| "floats_fit _ \<longleftrightarrow> True"
| "floats_elems [] \<longleftrightarrow> True"
| "floats_elems (v # vs) \<longleftrightarrow> floats_fit v \<and> floats_elems vs"
| "floats_members [] \<longleftrightarrow> True"
| "floats_members ((k, v) # ms) \<longleftrightarrow> floats_fit v \<and> floats_members ms"

text \<open>A member that occurs twice has its last value; \<^verbatim>\<open>payload["from"].(string)\<close> is empty for a value of another type.\<close>

definition dec_any_map :: "json_value \<Rightarrow> (string \<rightharpoonup> json_value) option" where
  "dec_any_map j =
     (case j of
        JNull \<Rightarrow> Some Map.empty
      | JObject ms \<Rightarrow> if floats_members ms then Some (map_of (rev ms)) else None
      | _ \<Rightarrow> None)"

definition any_string :: "(string \<rightharpoonup> json_value) \<Rightarrow> string \<Rightarrow> string" where
  "any_string m k = (case m k of Some (JString s) \<Rightarrow> s | _ \<Rightarrow> [])"

definition encode_chat :: "string \<Rightarrow> string \<Rightarrow> string \<Rightarrow> int64 \<Rightarrow> bytes" where
  "encode_chat chName from txt ts = bytes_of (print_json (enc_chat_map chName from txt ts))"

definition decode_chat :: "bytes \<Rightarrow> (string \<times> string) option" where
  "decode_chat pt = map_option (\<lambda>m. (any_string m ''from'', any_string m ''text'')) (Unmarshal_bytes dec_any_map pt)"

lemma FormatInt_fits: "float_fits (FormatInt (sint v))" for v :: int64
proof -
  have digits: "takeWhile (\<lambda>c. c \<noteq> CHR ''e'' \<and> c \<noteq> CHR ''E'') (FormatUint n) = FormatUint n"
    "takeWhile (\<lambda>c. c \<noteq> CHR ''.'') (FormatUint n) = FormatUint n" for n
    using FormatUint_digits [of n] by (auto simp: is_digit_code intro!: takeWhile_eq_all_conv [THEN iffD2])
  have "\<bar>sint v\<bar> \<le> 2 ^ 63"
    using sint_ge [of v] sint_lt [of v] by simp
  also have "\<dots> < 2 ^ 1024 - 2 ^ 970"
    by simp
  finally have "\<bar>sint v\<bar> < 2 ^ 1024 - 2 ^ 970" .
  then show ?thesis
    using FormatUint_sign [of "nat (sint v)"] by (auto simp: float_fits_def FormatInt_def Let_def digits)
qed

lemma decode_encode_chat [simp]: "decode_chat (encode_chat chName from txt ts) = Some (sanitize from, sanitize txt)"
proof -
  let ?ms = "[(''channel'', JString chName), (''from'', JString from), (''text'', JString txt), (''timestamp'', enc_int64 ts)]"
  have "json_wf (JObject ?ms)" "depth (JObject ?ms) \<le> maxNestingDepth"
    by (simp_all add: maxNestingDepth_def)
  from parse_print [OF this, of "[]"]
  have "parse_json (print_json (JObject ?ms)) = Some (clean (JObject ?ms))"
    by (simp del: print_json.simps clean.simps)
  then show ?thesis
    by (simp add: decode_chat_def encode_chat_def enc_chat_map_def enc_int64_def Unmarshal_bytes_def dec_any_map_def any_string_def FormatInt_fits
        sanitize_valid del: print_json.simps)
qed

end
