(* ===== verification/Points.thy ===== *)
theory Points
  imports Codec Contracts
begin

text \<open>
  The self-reported score engine (\<^verbatim>\<open>internal/app/points\<close>). The signed bytes of a snapshot are its
  JSON (\<open>Codec\<close>). Merging remote snapshots interprets the contract
  \<open>version_merge\<close>.
\<close>

subsection \<open>Identity\<close>

definition PlayerIDFromPub :: "bytes \<Rightarrow> string" where
  "PlayerIDFromPub pub = EncodeToString pub"

subsection \<open>Engine\<close>

record PointsEngine =
  en_selfID :: string
  en_selfName :: string
  en_selfPoints :: int64
  en_selfVersion :: uint64
  en_selfPriv :: bytes
  en_selfPub :: bytes
  en_others :: "string \<rightharpoonup> PointsSnapshot"

definition NewPointsEngine :: "string \<Rightarrow> bytes \<Rightarrow> bytes \<Rightarrow> PointsEngine" where
  "NewPointsEngine selfName priv pub =
     \<lparr>en_selfID = PlayerIDFromPub pub, en_selfName = selfName, en_selfPoints = 0, en_selfVersion = 0,
      en_selfPriv = priv, en_selfPub = pub, en_others = Map.empty\<rparr>"

definition signSnapshot ::
  "crypto \<Rightarrow> PointsEngine \<Rightarrow> PointsSnapshot \<Rightarrow> SignedPointsSnapshot" where
  "signSnapshot cr e snap =
     \<lparr>sp_Snapshot = snap, sp_PubKey = en_selfPub e, sp_Signature = ed25519_sign cr (en_selfPriv e) (EncodeSnapshotCanonical snap)\<rparr>"

definition verifySigned :: "crypto \<Rightarrow> SignedPointsSnapshot \<Rightarrow> bool" where
  "verifySigned cr s =
     (if length (sp_PubKey s) \<noteq> 32 then False
      else if \<not> ed25519_verify cr (sp_PubKey s) (EncodeSnapshotCanonical (sp_Snapshot s)) (sp_Signature s) then False
      else ps_PlayerID (sp_Snapshot s) \<noteq> PlayerIDFromPub (sp_PubKey s))"

definition self_snapshot :: "PointsEngine \<Rightarrow> PointsSnapshot" where
  "self_snapshot e = \<lparr>ps_PlayerID = en_selfID e, ps_Name = en_selfName e, ps_Points = en_selfPoints e,
     ps_Version = en_selfVersion e\<rparr>"

definition AddSelf ::
  "crypto \<Rightarrow> int64 \<Rightarrow> PointsEngine \<Rightarrow> SignedPointsSnapshot \<times> PointsEngine" where
  "AddSelf cr delta e =
     (let e1 = e\<lparr>en_selfVersion := en_selfVersion e + 1, en_selfPoints := en_selfPoints e + delta\<rparr>
      in (signSnapshot cr e1 (self_snapshot e1), e1))"

definition SnapshotSelf :: "crypto \<Rightarrow> PointsEngine \<Rightarrow> SignedPointsSnapshot" where
  "SnapshotSelf cr e = signSnapshot cr e (self_snapshot e)"

text \<open>Lines 112 to 127: the merge, once the signature has been checked.\<close>

definition merge_snapshot ::
  "string \<Rightarrow> PointsSnapshot \<Rightarrow> (string \<rightharpoonup> PointsSnapshot) \<Rightarrow> bool \<times> (string \<rightharpoonup> PointsSnapshot)" where
  "merge_snapshot selfID snap others =
     (if ps_PlayerID snap = selfID then (False, others)
      else case others (ps_PlayerID snap) of
             Some cur \<Rightarrow>
               if ps_Version snap \<le> ps_Version cur then (False, others)
               else (True, others(ps_PlayerID snap \<mapsto> snap))
           | None \<Rightarrow> (True, others(ps_PlayerID snap \<mapsto> snap)))"

definition ApplyRemote ::
  "crypto \<Rightarrow> SignedPointsSnapshot \<Rightarrow> PointsEngine \<Rightarrow> bool \<times> PointsEngine" where
  "ApplyRemote cr s e =
     (if \<not> verifySigned cr s then (False, e)
      else case merge_snapshot (en_selfID e) (sp_Snapshot s) (en_others e) of
             (changed, others) \<Rightarrow> (changed, e\<lparr>en_others := others\<rparr>))"

definition snapshot_less :: "PointsSnapshot \<Rightarrow> PointsSnapshot \<Rightarrow> bool" where
  "snapshot_less a b =
     (if sint (ps_Points a) = sint (ps_Points b) then ps_PlayerID a < ps_PlayerID b
      else sint (ps_Points a) > sint (ps_Points b))"

definition All_snapshots :: "string list \<Rightarrow> PointsEngine \<Rightarrow> PointsSnapshot list" where
  "All_snapshots ks e = sort_slice snapshot_less (self_snapshot e # List.map_filter (en_others e) ks)"

subsection \<open>Merging keeps the highest version\<close>

interpretation scores: version_merge ps_PlayerID ps_Version "\<lambda>snap. ps_PlayerID snap \<noteq> selfID" "\<lambda>m. m"
  "merge_snapshot selfID" for selfID
  by unfold_locales
    (auto simp: merge_snapshot_def not_le [symmetric] split: option.splits if_splits)

lemma ApplyRemote_others:
  "en_others (snd (ApplyRemote cr s e)) =
     (if verifySigned cr s then snd (merge_snapshot (en_selfID e) (sp_Snapshot s) (en_others e)) else en_others e)"
  "en_selfID (snd (ApplyRemote cr s e)) = en_selfID e"
  by (simp_all add: ApplyRemote_def split: prod.splits)

lemma ApplyRemote_all:
  "en_others (fold (\<lambda>s e. snd (ApplyRemote cr s e)) ss e) =
     fold (\<lambda>m s. snd (merge_snapshot (en_selfID e) m s))
       (map sp_Snapshot (filter (verifySigned cr) ss)) (en_others e)"
  by (induction ss arbitrary: e) (simp_all add: ApplyRemote_others)

subsection \<open>Score lists\<close>

lemma set_All_snapshots:
  assumes "enumerates ks (en_others e)"
  shows "set (All_snapshots ks e) = insert (self_snapshot e) (ran (en_others e))"
  using assms by (force simp: All_snapshots_def List.map_filter_def enumerates_def ran_def dom_def)

subsection \<open>Properties\<close>

text \<open>C36: the sender check is inverted. Every honestly signed snapshot, in which the player reports
  under the identity of the signing key, is rejected by every other engine; and anybody can sign, with
  a key of their own, a snapshot for any other player that is accepted and recorded as that player's
  score.\<close>

theorem points_sender_check_inverted:
  assumes "ed25519_correct cr"
  shows "(\<forall>e e'. en_selfPub e = ed25519_public cr (en_selfPriv e) \<and> en_selfID e = PlayerIDFromPub (en_selfPub e) \<longrightarrow>
      ApplyRemote cr (SnapshotSelf cr e) e' = (False, e')) \<and>
    (\<forall>priv snap e'. ps_PlayerID snap \<noteq> PlayerIDFromPub (ed25519_public cr priv) \<and> ps_PlayerID snap \<noteq> en_selfID e' \<and>
      en_others e' (ps_PlayerID snap) = None \<longrightarrow>
      en_others (snd (ApplyRemote cr
        (signSnapshot cr (NewPointsEngine [] priv (ed25519_public cr priv)) snap) e')) (ps_PlayerID snap) = Some snap)"
  using assms
  by (auto simp: ApplyRemote_def verifySigned_def SnapshotSelf_def signSnapshot_def self_snapshot_def
      NewPointsEngine_def ed25519_correct_def merge_snapshot_def)

theorem points_sender_check_inverted_witness:
  "en_others (snd (ApplyRemote demo_crypto (signSnapshot demo_crypto
       (NewPointsEngine [] [7] (ed25519_public demo_crypto [7]))
       \<lparr>ps_PlayerID = ''victim'', ps_Name = [], ps_Points = 99, ps_Version = 1\<rparr>)
     (NewPointsEngine ''me'' [8] (pad32 [8])))) ''victim'' =
   Some \<lparr>ps_PlayerID = ''victim'', ps_Name = [], ps_Points = 99, ps_Version = 1\<rparr>"
proof -
  have ne: "''victim'' \<noteq> EncodeToString (pad32 bs)" for bs
  proof
    assume "''victim'' = EncodeToString (pad32 bs)"
    then have "length ''victim'' = length (EncodeToString (pad32 bs))" by (rule arg_cong)
    then show False by simp
  qed
  show ?thesis
    using points_sender_check_inverted [OF demo_crypto_ok(2), THEN conjunct2, rule_format,
        of "\<lparr>ps_PlayerID = ''victim'', ps_Name = [], ps_Points = 99, ps_Version = 1\<rparr>" "[7]"
          "NewPointsEngine ''me'' [8] (pad32 [8])"] ne
    by (simp add: NewPointsEngine_def PlayerIDFromPub_def demo_crypto_def)
qed

text \<open>Apart from the sender check the merge is sound: whatever the order of the snapshots, an engine
  ends up with a received snapshot of the highest version for every other player, and two engines of the
  same identity that receive the same snapshots agree when a player's version names one snapshot.\<close>

lemma score_merge_converges:
  assumes "set ss = set ss'" "en_others e = Map.empty" "en_others e' = Map.empty" "en_selfID e = en_selfID e'"
    and "\<forall>a \<in> set ss. \<forall>b \<in> set ss. ps_PlayerID (sp_Snapshot a) = ps_PlayerID (sp_Snapshot b) \<and>
      ps_Version (sp_Snapshot a) = ps_Version (sp_Snapshot b) \<longrightarrow> sp_Snapshot a = sp_Snapshot b"
  shows "let run = fold (\<lambda>s e. snd (ApplyRemote cr s e)) in
    en_others (run ss e) = en_others (run ss' e') \<and>
    (\<forall>s \<in> set ss. verifySigned cr s \<and> ps_PlayerID (sp_Snapshot s) \<noteq> en_selfID e \<longrightarrow>
      (\<exists>cur. en_others (run ss e) (ps_PlayerID (sp_Snapshot s)) = Some cur \<and>
        ps_Version (sp_Snapshot s) \<le> ps_Version cur))"
proof -
  let ?ms = "\<lambda>ss. map sp_Snapshot (filter (verifySigned cr) ss)"
  have "set (?ms ss) = set (?ms ss')" using assms(1) by auto
  then have "fold (\<lambda>m s. snd (merge_snapshot (en_selfID e) m s)) (?ms ss) (en_others e) =
      fold (\<lambda>m s. snd (merge_snapshot (en_selfID e) m s)) (?ms ss') (en_others e')"
    by (rule scores.ins_all_converge [OF _ assms(2,3)]) (use assms(5) in auto)
  moreover have "\<exists>cur. fold (\<lambda>m s. snd (merge_snapshot (en_selfID e) m s)) (?ms ss) (en_others e)
      (ps_PlayerID (sp_Snapshot s)) = Some cur \<and> ps_Version (sp_Snapshot s) \<le> ps_Version cur"
    if "s \<in> set ss" "verifySigned cr s" "ps_PlayerID (sp_Snapshot s) \<noteq> en_selfID e" for s
    using scores.ins_all_max [of "sp_Snapshot s" "?ms ss" "en_selfID e"] that by auto
  ultimately show ?thesis
    unfolding Let_def ApplyRemote_all assms(4) by auto
qed

definition sample_score :: "uint64 \<Rightarrow> SignedPointsSnapshot" where
  "sample_score v = signSnapshot demo_crypto (NewPointsEngine [] [7] (pad32 [7]))
     \<lparr>ps_PlayerID = ''p'', ps_Name = [], ps_Points = 3, ps_Version = v\<rparr>"

end
