(* ===== verification/Peers.thy ===== *)
theory Peers
  imports Dht Points
begin

text \<open>
  The peer table of a node (\<^verbatim>\<open>internal/p2p\<close>: \<^verbatim>\<open>node.go\<close>, \<^verbatim>\<open>peers.go\<close>, \<^verbatim>\<open>send.go\<close>, \<^verbatim>\<open>send_user.go\<close>,
  \<^verbatim>\<open>nat.go\<close>, \<^verbatim>\<open>handlers_identify.go\<close>, \<^verbatim>\<open>dedupe.go\<close>, \<^verbatim>\<open>identity.go\<close>). A \<^verbatim>\<open>*peer\<close> is a reference into
  \<open>n_heap\<close>, because three maps share the peers and compare them by identity. A buffered channel is the
  list of its elements, a non-blocking send is \<open>try_send\<close>. A goroutine \<^verbatim>\<open>go n.removePeer(id)\<close> that has not
  run yet is an element of \<open>n_removing\<close>, a dialled connection that is not set up yet one of \<open>n_conns\<close>.
\<close>

subsection \<open>Identity\<close>

record Identity =
  id_SignPriv :: bytes
  id_SignPub :: bytes
  id_NoisePriv :: bytes
  id_NoisePub :: bytes
  id_ID :: string

text \<open>\<open>rnd\<close> is what reading 32 random bytes gives and \<open>basemult\<close> is \<^verbatim>\<open>curve25519.ScalarBaseMult\<close>.\<close>

definition noiseKeypair :: "(bytes \<Rightarrow> bytes) \<Rightarrow> string + bytes \<Rightarrow> string + bytes \<times> bytes" where
  "noiseKeypair basemult rnd =
     (case rnd of
        Inl err \<Rightarrow> Inl err
      | Inr p0 \<Rightarrow>
          let p1 = p0[0 := (p0 ! 0) AND 248];
              p2 = p1[31 := (p1 ! 31) AND 127];
              priv = p2[31 := (p2 ! 31) OR 64]
          in Inr (priv, basemult priv))"

definition NewIdentity ::
  "string + bytes \<times> bytes \<Rightarrow> (bytes \<Rightarrow> bytes) \<Rightarrow> string + bytes \<Rightarrow> string + Identity" where
  "NewIdentity gen basemult rnd =
     (case gen of
        Inl err \<Rightarrow> Inl err
      | Inr (signPub, signPriv) \<Rightarrow>
          (case noiseKeypair basemult rnd of
             Inl err \<Rightarrow> Inl err
           | Inr (nPriv, nPub) \<Rightarrow>
               Inr \<lparr>id_SignPriv = signPriv, id_SignPub = signPub, id_NoisePriv = nPriv, id_NoisePub = nPub,
                    id_ID = EncodeToString nPub\<rparr>))"

subsection \<open>Recently seen gossip\<close>

record seenCache =
  sc_ttl :: int
  sc_items :: "string \<rightharpoonup> gotime"

definition newSeenCache :: "int \<Rightarrow> seenCache" where
  "newSeenCache ttl = \<lparr>sc_ttl = ttl, sc_items = Map.empty\<rparr>"

definition seen_gc :: "gotime \<Rightarrow> seenCache \<Rightarrow> string \<rightharpoonup> gotime" where
  "seen_gc now s = (\<lambda>k. case sc_items s k of None \<Rightarrow> None | Some t \<Rightarrow> if now - t > sc_ttl s then None else Some t)"

definition Seen :: "gotime \<Rightarrow> string \<Rightarrow> seenCache \<Rightarrow> bool \<times> seenCache" where
  "Seen now i s =
     (if i = [] then (True, s)
      else let items = seen_gc now s
           in if items i \<noteq> None then (True, s\<lparr>sc_items := items\<rparr>)
              else (False, s\<lparr>sc_items := items(i \<mapsto> now)\<rparr>))"

subsection \<open>Node state\<close>

datatype EventType = EventPeerConnected | EventPeerDisconnected

record Event =
  ev_Type :: EventType
  ev_PeerID :: string
  ev_PeerAddr :: string
  ev_PeerName :: string

record NodeConfig =
  nc_Name :: string
  nc_Bootstraps :: "string list"
  nc_Protocol :: string
  nc_IsSeed :: bool

record peer =
  pr_id :: string
  pr_addr :: string
  pr_observedAddr :: string
  pr_sendCh :: "Envelope list"
  pr_cancelled :: bool
  pr_closed :: bool
  pr_once :: bool
  pr_name :: string
  pr_userPub :: bytes
  pr_userID :: string

record PeerSnapshot =
  psn_NetworkID :: string
  psn_Name :: string
  psn_UserID :: string
  psn_Addr :: string

record Node =
  n_cfg :: NodeConfig
  n_id :: Identity
  n_addr :: string
  n_heap :: "nat \<rightharpoonup> peer"
  n_peers :: "string \<rightharpoonup> nat"
  n_peersByUserID :: "string \<rightharpoonup> nat"
  n_natByUserID :: "string \<rightharpoonup> nat"
  n_stopped :: bool
  n_incoming :: "Envelope list"
  n_events :: "Event list"
  n_seen :: seenCache
  n_dht :: DHT
  n_removing :: "string list"
  n_conns :: "string list"

text \<open>Capacity of the channels \<^verbatim>\<open>incoming\<close>, \<^verbatim>\<open>events\<close> and \<^verbatim>\<open>sendCh\<close>.\<close>

definition chanCap :: nat where
  "chanCap = 128"

definition try_send :: "'a \<Rightarrow> 'a list \<Rightarrow> 'a list" where
  "try_send x ch = (if length ch < chanCap then ch @ [x] else ch)"

text \<open>\<^verbatim>\<open>NewNode\<close>: \<open>ident\<close> is the outcome of \<^verbatim>\<open>NewIdentity\<close>. A nil \<^verbatim>\<open>natByUserID\<close> reads as the empty map and is
  allocated before it is written.\<close>

datatype node_error = IdentityError string | DHTError dht_error

definition NewNode :: "crypto \<Rightarrow> string + Identity \<Rightarrow> NodeConfig \<Rightarrow> node_error + Node" where
  "NewNode cr ident cfg =
     (case ident of
        Inl err \<Rightarrow> Inl (IdentityError err)
      | Inr i \<Rightarrow>
          (case New cr (id_ID i) [WithStore None] of
             Inl err \<Rightarrow> Inl (DHTError err)
           | Inr dd \<Rightarrow>
               Inr \<lparr>n_cfg = cfg, n_id = i, n_addr = [], n_heap = Map.empty, n_peers = Map.empty,
                    n_peersByUserID = Map.empty, n_natByUserID = Map.empty, n_stopped = False, n_incoming = [],
                    n_events = [], n_seen = newSeenCache (30 * second), n_dht = dd, n_removing = [],
                    n_conns = []\<rparr>))"

definition emit :: "Event \<Rightarrow> Node \<Rightarrow> Node" where
  "emit e n = n\<lparr>n_events := try_send e (n_events n)\<rparr>"

definition StopNode :: "Node \<Rightarrow> Node" where
  "StopNode n = n\<lparr>n_stopped := True\<rparr>"

abbreviation set_peer :: "nat \<Rightarrow> peer \<Rightarrow> Node \<Rightarrow> Node" where
  "set_peer r p n \<equiv> n\<lparr>n_heap := (n_heap n)(r \<mapsto> p)\<rparr>"

subsection \<open>Sending\<close>

datatype SendPolicy = SendDrop | SendDisconnect

definition sendAsyncWithPolicy :: "SendPolicy \<Rightarrow> Envelope \<Rightarrow> nat \<Rightarrow> Node \<Rightarrow> Node" where
  "sendAsyncWithPolicy policy env r n =
     (case n_heap n r of
        None \<Rightarrow> n
      | Some p \<Rightarrow>
          if pr_cancelled p \<or> n_stopped n then n
          else if length (pr_sendCh p) < chanCap then set_peer r (p\<lparr>pr_sendCh := pr_sendCh p @ [env]\<rparr>) n
          else if policy = SendDisconnect then n\<lparr>n_removing := n_removing n @ [pr_id p]\<rparr> else n)"

definition sendAsync :: "Envelope \<Rightarrow> nat \<Rightarrow> Node \<Rightarrow> Node" where
  "sendAsync = sendAsyncWithPolicy SendDisconnect"

datatype send_error = UnknownPeer string | UnknownUser string

definition SendToPeer :: "string \<Rightarrow> Envelope \<Rightarrow> Node \<Rightarrow> send_error option \<times> Node" where
  "SendToPeer i env n =
     (case n_peers n i of
        None \<Rightarrow> (Some (UnknownPeer i), n)
      | Some r \<Rightarrow> (None, sendAsync env r n))"

definition NetworkPeerIDForUserID :: "string \<Rightarrow> Node \<Rightarrow> string option" where
  "NetworkPeerIDForUserID userID n =
     (case n_peersByUserID n userID of
        None \<Rightarrow> None
      | Some r \<Rightarrow> map_option pr_id (n_heap n r))"

definition SendToUserID :: "string \<Rightarrow> Envelope \<Rightarrow> Node \<Rightarrow> send_error option \<times> Node" where
  "SendToUserID userID env n =
     (case NetworkPeerIDForUserID userID n of
        None \<Rightarrow> (Some (UnknownUser userID), n)
      | Some pid \<Rightarrow> SendToPeer pid env n)"

text \<open>\<open>ks\<close> is the order in which the peer map is traversed.\<close>

definition relay :: "string list \<Rightarrow> string \<Rightarrow> Envelope \<Rightarrow> Node \<Rightarrow> Node" where
  "relay ks originID env n =
     fold (sendAsync env) (List.map_filter (\<lambda>i. if i = originID then None else n_peers n i) ks) n"

definition self_env :: "string \<Rightarrow> payload \<Rightarrow> Node \<Rightarrow> Envelope" where
  "self_env ty pl n = \<lparr>env_Type = ty, env_FromID = id_ID (n_id n), env_Payload = pl\<rparr>"

definition Broadcast :: "string list \<Rightarrow> payload \<Rightarrow> Node \<Rightarrow> Node" where
  "Broadcast ks g n = relay ks (id_ID (n_id n)) (self_env MsgGossip g n) n"

subsection \<open>Peer table\<close>

definition addPeer :: "crypto \<Rightarrow> (nat \<Rightarrow> gotime) \<Rightarrow> store_io \<Rightarrow> nat \<Rightarrow> Node \<Rightarrow> bool \<times> Node" where
  "addPeer cr clock io r n =
     (case n_heap n r of
        None \<Rightarrow> (False, n)
      | Some p \<Rightarrow>
          if n_peers n (pr_id p) \<noteq> None \<or> pr_id p = id_ID (n_id n) then (False, n)
          else (True,
            emit \<lparr>ev_Type = EventPeerConnected, ev_PeerID = pr_id p, ev_PeerAddr = pr_addr p, ev_PeerName = pr_name p\<rparr>
              (n\<lparr>n_dht := OnPeerSeen cr clock io (pr_id p) (pr_addr p) (pr_name p) (n_dht n),
                 n_peers := (n_peers n)(pr_id p \<mapsto> r)\<rparr>)))"

definition drop_entry :: "string \<Rightarrow> nat \<Rightarrow> (string \<rightharpoonup> nat) \<Rightarrow> string \<rightharpoonup> nat" where
  "drop_entry uid r m = (if m uid = Some r then m(uid := None) else m)"

text \<open>The critical section of \<^verbatim>\<open>removePeer\<close>, then the part under \<^verbatim>\<open>once\<close>.\<close>

definition remove_entries :: "string \<Rightarrow> nat \<Rightarrow> peer \<Rightarrow> Node \<Rightarrow> Node" where
  "remove_entries i r p n =
     (let n1 = n\<lparr>n_peers := (n_peers n)(i := None)\<rparr>
      in if pr_userID p = [] then n1
         else n1\<lparr>n_natByUserID := drop_entry (pr_userID p) r (n_natByUserID n),
                 n_peersByUserID := drop_entry (pr_userID p) r (n_peersByUserID n)\<rparr>)"

definition close_once :: "nat \<Rightarrow> peer \<Rightarrow> Node \<Rightarrow> Node" where
  "close_once r p n =
     (if pr_once p then n
      else emit \<lparr>ev_Type = EventPeerDisconnected, ev_PeerID = pr_id p, ev_PeerAddr = pr_addr p, ev_PeerName = pr_name p\<rparr>
             (set_peer r (p\<lparr>pr_once := True, pr_cancelled := True, pr_closed := True\<rparr>) n))"

definition removePeer :: "string \<Rightarrow> Node \<Rightarrow> Node" where
  "removePeer i n =
     (case n_peers n i of
        None \<Rightarrow> n
      | Some r \<Rightarrow>
          (case n_heap n r of
             None \<Rightarrow> n
           | Some p \<Rightarrow> close_once r p (remove_entries i r p n)))"

definition snapshotPeersInfo :: "string list \<Rightarrow> Node \<Rightarrow> PeerInfo list" where
  "snapshotPeersInfo ks n =
     List.map_filter (\<lambda>i. case n_peers n i of
         None \<Rightarrow> None
       | Some r \<Rightarrow> map_option (\<lambda>p. \<lparr>pi_ID = pr_id p, pi_Name = pr_name p, pi_Addr = pr_addr p,
           pi_PublicAddr = (if pr_observedAddr p \<noteq> [] \<and> nc_IsSeed (n_cfg n) then pr_observedAddr p else [])\<rparr>)
           (n_heap n r)) ks"

definition sendPeerList :: "string list \<Rightarrow> nat \<Rightarrow> Node \<Rightarrow> Node" where
  "sendPeerList ks r n = sendAsync (self_env MsgPeerList (P_peers (snapshotPeersInfo ks n)) n) r n"

definition hasPeer :: "string \<Rightarrow> Node \<Rightarrow> bool" where
  "hasPeer i n \<longleftrightarrow> n_peers n i \<noteq> None"

definition PeerIDs :: "string list \<Rightarrow> Node \<Rightarrow> string list" where
  "PeerIDs ks n = filter (\<lambda>i. n_peers n i \<noteq> None) ks"

definition PeerCount :: "string list \<Rightarrow> Node \<Rightarrow> nat" where
  "PeerCount ks n = length (PeerIDs ks n)"

definition first8 :: "string \<Rightarrow> string" where
  "first8 s = (if length s > 8 then take 8 s else s)"

definition PeerDisplayName :: "string \<Rightarrow> Node \<Rightarrow> string" where
  "PeerDisplayName i n =
     (case Option.bind (n_peers n i) (n_heap n) of
        None \<Rightarrow> first8 i
      | Some p \<Rightarrow>
          if pr_name p \<noteq> [] then pr_name p
          else if pr_userID p \<noteq> [] then first8 (pr_userID p)
          else first8 i)"

definition SnapshotPeers :: "string list \<Rightarrow> Node \<Rightarrow> PeerSnapshot list" where
  "SnapshotPeers ks n =
     List.map_filter (\<lambda>i. map_option (\<lambda>p. \<lparr>psn_NetworkID = pr_id p, psn_Name = pr_name p, psn_UserID = pr_userID p,
       psn_Addr = pr_addr p\<rparr>) (Option.bind (n_peers n i) (n_heap n))) ks"

definition UserIDForPeer :: "string \<Rightarrow> Node \<Rightarrow> string" where
  "UserIDForPeer i n =
     (case Option.bind (n_peers n i) (n_heap n) of None \<Rightarrow> [] | Some p \<Rightarrow> pr_userID p)"

subsection \<open>Identify and NAT messages\<close>

definition sendIdentify :: "nat \<Rightarrow> Node \<Rightarrow> Node" where
  "sendIdentify r n =
     sendAsync (self_env MsgIdentify (P_identify \<lparr>id_Name = nc_Name (n_cfg n), id_UserPub = id_SignPub (n_id n)\<rparr>) n) r n"

definition handleIdentify :: "nat \<Rightarrow> Envelope \<Rightarrow> Node \<Rightarrow> Node" where
  "handleIdentify r env n =
     (case (env_Payload env, n_heap n r) of
        (P_identify i, Some p) \<Rightarrow>
          if length (id_UserPub i) = 32
          then (set_peer r (p\<lparr>pr_name := id_Name i, pr_userPub := id_UserPub i,
                               pr_userID := EncodeToString (id_UserPub i)\<rparr>) n)
                 \<lparr>n_peersByUserID := (n_peersByUserID n)(EncodeToString (id_UserPub i) \<mapsto> r)\<rparr>
          else set_peer r (p\<lparr>pr_name := id_Name i\<rparr>) n
      | _ \<Rightarrow> n)"

definition sendNatRegister :: "nat \<Rightarrow> Node \<Rightarrow> Node" where
  "sendNatRegister r n =
     sendAsync (self_env MsgNatRegister
       (P_natRegister \<lparr>nr_UserID = EncodeToString (id_SignPub (n_id n)), NatRegister.nr_Name = nc_Name (n_cfg n)\<rparr>) n) r n"

definition handleNatRegister :: "nat \<Rightarrow> Envelope \<Rightarrow> Node \<Rightarrow> Node" where
  "handleNatRegister r env n =
     (if \<not> nc_IsSeed (n_cfg n) then n
      else case (env_Payload env, n_heap n r) of
        (P_natRegister reg, Some p) \<Rightarrow>
          if nr_UserID reg = [] then n
          else (set_peer r (p\<lparr>pr_userID := nr_UserID reg,
                  pr_name := (if pr_name p = [] \<and> NatRegister.nr_Name reg \<noteq> [] then NatRegister.nr_Name reg else pr_name p)\<rparr>) n)
                 \<lparr>n_natByUserID := (n_natByUserID n)(nr_UserID reg \<mapsto> r)\<rparr>
      | _ \<Rightarrow> n)"

definition handleNatRelaySeed :: "nat \<Rightarrow> Envelope \<Rightarrow> Node \<Rightarrow> Node" where
  "handleNatRelaySeed r env n =
     (if \<not> nc_IsSeed (n_cfg n) then n
      else case (env_Payload env, n_heap n r) of
        (P_natRelay toUser body, Some from) \<Rightarrow>
          if toUser = [] then n
          else case n_natByUserID n toUser of
                 None \<Rightarrow> n
               | Some target \<Rightarrow>
                   sendAsync \<lparr>env_Type = MsgNatRelay, env_FromID = pr_id from, env_Payload = env_Payload env\<rparr> target n
      | _ \<Rightarrow> n)"

text \<open>The client only logs a relayed message.\<close>

definition handleNatRelayClient :: "nat \<Rightarrow> Envelope \<Rightarrow> Node \<Rightarrow> Node" where
  "handleNatRelayClient r env n = n"

subsection \<open>Frame of the sending operations\<close>

lemma try_send_bounded: "length ch \<le> chanCap \<Longrightarrow> length (try_send x ch) \<le> chanCap"
  by (simp add: try_send_def)

text \<open>Sending touches only the send queue of one peer and the list of pending removals.\<close>

lemma sendAsync_frame [simp]:
  "n_cfg (sendAsync env r n) = n_cfg n" "n_id (sendAsync env r n) = n_id n" "n_addr (sendAsync env r n) = n_addr n"
  "n_peers (sendAsync env r n) = n_peers n" "n_peersByUserID (sendAsync env r n) = n_peersByUserID n"
  "n_natByUserID (sendAsync env r n) = n_natByUserID n" "n_stopped (sendAsync env r n) = n_stopped n"
  "n_incoming (sendAsync env r n) = n_incoming n" "n_events (sendAsync env r n) = n_events n"
  "n_seen (sendAsync env r n) = n_seen n" "n_dht (sendAsync env r n) = n_dht n"
  "n_conns (sendAsync env r n) = n_conns n"
  by (simp_all add: sendAsync_def sendAsyncWithPolicy_def split: option.splits)

lemma sendAsync_heap:
  "n_heap (sendAsync env r n) r' =
     (if r' = r then map_option (\<lambda>p. if pr_cancelled p \<or> n_stopped n \<or> \<not> length (pr_sendCh p) < chanCap then p
        else p\<lparr>pr_sendCh := pr_sendCh p @ [env]\<rparr>) (n_heap n r') else n_heap n r')"
  by (simp add: sendAsync_def sendAsyncWithPolicy_def split: option.splits)

subsection \<open>Invariant of the peer table\<close>

definition entry_live :: "Node \<Rightarrow> string \<Rightarrow> nat \<Rightarrow> bool" where
  "entry_live n i r \<longleftrightarrow> i \<noteq> id_ID (n_id n) \<and>
     (\<exists>p. n_heap n r = Some p \<and> pr_id p = i \<and> \<not> pr_once p \<and> \<not> pr_closed p \<and> \<not> pr_cancelled p)"

definition peers_inv :: "Node \<Rightarrow> bool" where
  "peers_inv n \<longleftrightarrow> (\<forall>i r. n_peers n i = Some r \<longrightarrow> entry_live n i r) \<and>
     (\<forall>r p. n_heap n r = Some p \<longrightarrow> length (pr_sendCh p) \<le> chanCap) \<and>
     ran (n_peersByUserID n) \<union> ran (n_natByUserID n) \<subseteq> dom (n_heap n) \<and>
     length (n_incoming n) \<le> chanCap \<and> length (n_events n) \<le> chanCap"

lemma peers_invD:
  assumes "peers_inv n"
  shows "n_peers n i = Some r \<Longrightarrow> entry_live n i r" "n_heap n r = Some p \<Longrightarrow> length (pr_sendCh p) \<le> chanCap"
    "length (n_incoming n) \<le> chanCap" "length (n_events n) \<le> chanCap"
  using assms by (auto simp: peers_inv_def)

text \<open>Updating a peer object without changing its id or its life cycle.\<close>

lemma peers_inv_set_peer:
  assumes "peers_inv n" "n_heap n r = Some p" "length (pr_sendCh p') \<le> chanCap"
    "pr_id p' = pr_id p" "pr_once p' = pr_once p" "pr_closed p' = pr_closed p" "pr_cancelled p' = pr_cancelled p"
  shows "peers_inv (set_peer r p' n)"
proof -
  have "entry_live (set_peer r p' n) i r'" if "entry_live n i r'" for i r'
    using that assms(2,4-7) by (cases "r' = r") (simp_all add: entry_live_def)
  moreover have "dom (n_heap (set_peer r p' n)) = dom (n_heap n)" using assms(2) by auto
  ultimately show ?thesis
    using assms(1,3) by (simp add: peers_inv_def)
qed

lemma ran_map_upd_subset: "ran (m(k \<mapsto> v)) \<subseteq> insert v (ran m)"
  by (auto simp: ran_def)

text \<open>Updates outside the tables.\<close>

lemma peers_inv_cong:
  assumes "peers_inv n" "n_id n' = n_id n" "n_heap n' = n_heap n" "n_peers n' = n_peers n"
    "n_peersByUserID n' = n_peersByUserID n" "n_natByUserID n' = n_natByUserID n"
    "length (n_incoming n') \<le> chanCap" "length (n_events n') \<le> chanCap"
  shows "peers_inv n'"
  using assms unfolding peers_inv_def entry_live_def by simp

lemma sendAsync_inv [inv_intros]: "peers_inv n \<Longrightarrow> peers_inv (sendAsync env r n)"
proof (cases "n_heap n r")
  case None
  then show "peers_inv n \<Longrightarrow> ?thesis" by (simp add: sendAsync_def sendAsyncWithPolicy_def)
next
  case (Some p)
  assume inv: "peers_inv n"
  show ?thesis
  proof (cases "pr_cancelled p \<or> n_stopped n \<or> \<not> length (pr_sendCh p) < chanCap")
    case True
    then show ?thesis
      using Some inv peers_invD [OF inv]
      by (auto simp: sendAsync_def sendAsyncWithPolicy_def intro: peers_inv_cong)
  next
    case False
    then have "sendAsync env r n = set_peer r (p\<lparr>pr_sendCh := pr_sendCh p @ [env]\<rparr>) n"
      using Some by (simp add: sendAsync_def sendAsyncWithPolicy_def)
    with False show ?thesis by (simp add: peers_inv_set_peer [OF inv Some])
  qed
qed

lemma fold_sendAsync_inv: "peers_inv n \<Longrightarrow> peers_inv (fold (sendAsync env) rs n)"
  by (induction rs arbitrary: n) (simp_all add: sendAsync_inv)

lemma fold_sendAsync_dht: "n_dht (fold (sendAsync env) rs n) = n_dht n"
  by (induction rs arbitrary: n) simp_all

lemma relay_inv [inv_intros]: "peers_inv n \<Longrightarrow> peers_inv (relay ks o1 env n)"
  by (simp add: relay_def fold_sendAsync_inv)

lemma emit_inv [inv_intros]: "peers_inv n \<Longrightarrow> peers_inv (emit e n)"
  by (rule peers_inv_cong) (auto simp: emit_def dest: peers_invD intro: try_send_bounded)

lemma peers_inv_by_user:
  assumes "peers_inv n" "r \<in> dom (n_heap n)"
  shows "peers_inv (n\<lparr>n_peersByUserID := (n_peersByUserID n)(u \<mapsto> r)\<rparr>)"
    "peers_inv (n\<lparr>n_natByUserID := (n_natByUserID n)(u \<mapsto> r)\<rparr>)"
  using assms ran_map_upd_subset [of "n_peersByUserID n" u r] ran_map_upd_subset [of "n_natByUserID n" u r]
  unfolding peers_inv_def entry_live_def by auto

text \<open>Renaming or identifying a peer, with an entry for it in one of the user maps.\<close>

lemma peers_inv_relabel:
  assumes "peers_inv n" "n_heap n r = Some p" "pr_sendCh p' = pr_sendCh p"
    "pr_id p' = pr_id p" "pr_once p' = pr_once p" "pr_closed p' = pr_closed p" "pr_cancelled p' = pr_cancelled p"
  shows "peers_inv (set_peer r p' n)"
    "peers_inv ((set_peer r p' n)\<lparr>n_peersByUserID := (n_peersByUserID n)(u \<mapsto> r)\<rparr>)"
    "peers_inv ((set_peer r p' n)\<lparr>n_natByUserID := (n_natByUserID n)(u \<mapsto> r)\<rparr>)"
proof -
  show inv: "peers_inv (set_peer r p' n)"
    using assms peers_invD(2) [OF assms(1,2)] by (intro peers_inv_set_peer [OF assms(1,2)]) simp_all
  show "peers_inv ((set_peer r p' n)\<lparr>n_peersByUserID := (n_peersByUserID n)(u \<mapsto> r)\<rparr>)"
    "peers_inv ((set_peer r p' n)\<lparr>n_natByUserID := (n_natByUserID n)(u \<mapsto> r)\<rparr>)"
    using peers_inv_by_user [OF inv, of r u] by simp_all
qed

lemma handleIdentify_inv [inv_intros]: "peers_inv n \<Longrightarrow> peers_inv (handleIdentify r env n)"
  by (cases "n_heap n r") (auto simp: handleIdentify_def split: payload.splits intro!: peers_inv_relabel)

lemma handleNatRegister_inv [inv_intros]: "peers_inv n \<Longrightarrow> peers_inv (handleNatRegister r env n)"
  by (cases "n_heap n r") (auto simp: handleNatRegister_def split: payload.splits intro!: peers_inv_relabel)

lemma handleNatRelaySeed_inv [inv_intros]: "peers_inv n \<Longrightarrow> peers_inv (handleNatRelaySeed r env n)"
  unfolding handleNatRelaySeed_def by (auto split: payload.splits option.splits intro: inv_intros)

lemma removePeer_inv [inv_intros]:
  assumes "peers_inv n"
  shows "peers_inv (removePeer i n)"
proof (cases "n_peers n i")
  case (Some r)
  obtain p where p: "n_heap n r = Some p" "pr_id p = i" using peers_invD(1) [OF assms Some] by (auto simp: entry_live_def)
  have other: "n_peers n j = Some r' \<Longrightarrow> j \<noteq> i \<Longrightarrow> r' \<noteq> r" for j r'
    using peers_invD(1) [OF assms] p by (fastforce simp: entry_live_def)
  let ?n1 = "remove_entries i r p n"
  have n1: "n_heap ?n1 = n_heap n" "n_peers ?n1 = (n_peers n)(i := None)" "n_id ?n1 = n_id n"
    "n_incoming ?n1 = n_incoming n" "n_events ?n1 = n_events n"
    by (simp_all add: remove_entries_def Let_def)
  have sub: "ran (n_peersByUserID ?n1) \<subseteq> ran (n_peersByUserID n)" "ran (n_natByUserID ?n1) \<subseteq> ran (n_natByUserID n)"
    by (auto simp: remove_entries_def drop_entry_def Let_def ran_def)
  have "peers_inv (set_peer r (p\<lparr>pr_once := True, pr_cancelled := True, pr_closed := True\<rparr>) ?n1)"
    using assms p other sub unfolding peers_inv_def entry_live_def
    by (auto simp: n1 intro: domI)
  moreover have "peers_inv ?n1"
    using assms sub unfolding peers_inv_def entry_live_def by (auto simp: n1)
  ultimately show ?thesis
    using Some p by (simp add: removePeer_def close_once_def emit_inv)
qed (use assms in \<open>simp add: removePeer_def\<close>)

subsection \<open>Deduplication window\<close>

text \<open>A series of calls of \<^verbatim>\<open>Seen\<close>: which of them report a new id.\<close>

fun fresh_run :: "(gotime \<times> string) list \<Rightarrow> seenCache \<Rightarrow> bool list" where
  "fresh_run [] s = []"
| "fresh_run ((t, i) # ms) s = (case Seen t i s of (dup, s') \<Rightarrow> (\<not> dup) # fresh_run ms s')"

lemma length_fresh_run [simp]: "length (fresh_run ms s) = length ms"
  by (induction ms s rule: fresh_run.induct) (auto split: prod.splits)

text \<open>The cache holds the accepted ids (\<open>H\<close>) that are still in the window at a time \<open>T\<close>.\<close>

definition window_inv :: "(gotime \<times> string) set \<Rightarrow> gotime \<Rightarrow> seenCache \<Rightarrow> bool" where
  "window_inv H T s \<longleftrightarrow> (\<forall>i t. sc_items s i = Some t \<longrightarrow> (t, i) \<in> H) \<and>
     (\<forall>(t, i) \<in> H. t \<le> T \<and> (T - t \<le> sc_ttl s \<longrightarrow> sc_items s i = Some t))"

lemma window_inv_gc:
  assumes "window_inv H T s" "T \<le> now"
  shows "seen_gc now s i = Some t \<longleftrightarrow> (t, i) \<in> H \<and> now - t \<le> sc_ttl s"
proof
  assume "seen_gc now s i = Some t"
  then show "(t, i) \<in> H \<and> now - t \<le> sc_ttl s"
    using assms(1) by (auto simp: window_inv_def seen_gc_def split: option.splits if_splits)
next
  assume h: "(t, i) \<in> H \<and> now - t \<le> sc_ttl s"
  then have "sc_items s i = Some t" using assms by (fastforce simp: window_inv_def)
  with h show "seen_gc now s i = Some t" by (simp add: seen_gc_def)
qed

lemma Seen_window:
  assumes "window_inv H T s" "T \<le> now"
  shows "fst (Seen now i s) \<longleftrightarrow> i = [] \<or> (\<exists>t. (t, i) \<in> H \<and> now - t \<le> sc_ttl s)"
  using window_inv_gc [OF assms, of i] by (auto simp: Seen_def Let_def)

lemma Seen_window_inv:
  assumes "window_inv H T s" "T \<le> now"
  shows "window_inv (if fst (Seen now i s) then H else insert (now, i) H) now (snd (Seen now i s)) \<and>
    sc_ttl (snd (Seen now i s)) = sc_ttl s"
proof (cases "i = []")
  case True
  then have "Seen now i s = (True, s)" by (simp add: Seen_def)
  moreover have "window_inv H now s" using assms by (fastforce simp: window_inv_def)
  ultimately show ?thesis by simp
next
  case False
  have gc: "seen_gc now s j = Some t \<longleftrightarrow> (t, j) \<in> H \<and> now - t \<le> sc_ttl s" for j t
    by (rule window_inv_gc [OF assms])
  have old: "\<forall>(t, j) \<in> H. t \<le> now" using assms by (fastforce simp: window_inv_def)
  show ?thesis
  proof (cases "seen_gc now s i")
    case None
    then have "(t, i) \<in> H \<Longrightarrow> \<not> now - t \<le> sc_ttl s" for t using gc [of i t] by simp
    then show ?thesis
      using None False old gc by (auto simp: Seen_def Let_def window_inv_def)
  next
    case (Some t)
    then show ?thesis
      using False old gc by (auto simp: Seen_def Let_def window_inv_def)
  qed
qed

lemma fresh_run_window:
  assumes "window_inv H T s" "sorted (T # map fst ms)" "k < length ms"
  shows "fresh_run ms s ! k \<longleftrightarrow> snd (ms ! k) \<noteq> [] \<and>
    \<not> (\<exists>t. ((t, snd (ms ! k)) \<in> H \<or> (\<exists>j < k. fresh_run ms s ! j \<and> ms ! j = (t, snd (ms ! k)))) \<and>
         fst (ms ! k) - t \<le> sc_ttl s)"
  using assms
proof (induction ms arbitrary: H T s k)
  case (Cons m ms)
  obtain now i where m: "m = (now, i)" by (cases m)
  obtain dup s' where se: "Seen now i s = (dup, s')" by fastforce
  let ?H = "if dup then H else insert (now, i) H"
  have le: "T \<le> now" "sorted (now # map fst ms)" using Cons.prems(2) m by auto
  have inv: "window_inv ?H now s'" and ttl: "sc_ttl s' = sc_ttl s"
    using Seen_window_inv [OF Cons.prems(1) le(1), of i] se by auto
  have run: "fresh_run (m # ms) s = (\<not> dup) # fresh_run ms s'" by (simp add: m se)
  show ?case
  proof (cases k)
    case 0
    then show ?thesis using Seen_window [OF Cons.prems(1) le(1), of i] se by (simp add: m)
  next
    case (Suc k')
    have ex: "(\<exists>j < Suc k'. ((\<not> dup) # fresh_run ms s') ! j \<and> (m # ms) ! j = (t, x)) \<longleftrightarrow>
        \<not> dup \<and> m = (t, x) \<or> (\<exists>j < k'. fresh_run ms s' ! j \<and> ms ! j = (t, x))" for t x
      by (auto simp: less_Suc_eq_0_disj)
    have "(t, x) \<in> ?H \<longleftrightarrow> (t, x) \<in> H \<or> \<not> dup \<and> m = (t, x)" for t x by (auto simp: m)
    then show ?thesis
      using Cons.IH [OF inv le(2), of k'] Cons.prems(3) unfolding ttl run Suc ex by simp
  qed
qed simp

text \<open>C14: gossip deduplication is exact: a message is passed on if and only if it has an id and no message
  with the same id was passed on in the last 30 seconds (the configured time to live).\<close>

theorem gossip_dedupe_exact:
  assumes "sorted (map fst ms)" "k < length ms"
  shows "let pass = fresh_run ms (newSeenCache ttl) in
    pass ! k \<longleftrightarrow> snd (ms ! k) \<noteq> [] \<and>
      \<not> (\<exists>j < k. pass ! j \<and> snd (ms ! j) = snd (ms ! k) \<and> fst (ms ! k) - fst (ms ! j) \<le> ttl)"
proof -
  let ?T = "fst (hd ms)"
  have "window_inv {} ?T (newSeenCache ttl)" by (simp add: window_inv_def newSeenCache_def)
  moreover have "sorted (?T # map fst ms)" using assms by (cases ms) auto
  ultimately have "fresh_run ms (newSeenCache ttl) ! k \<longleftrightarrow> snd (ms ! k) \<noteq> [] \<and>
      \<not> (\<exists>t. (\<exists>j < k. fresh_run ms (newSeenCache ttl) ! j \<and> ms ! j = (t, snd (ms ! k))) \<and> fst (ms ! k) - t \<le> ttl)"
    using fresh_run_window [OF _ _ assms(2)] by (simp add: newSeenCache_def)
  moreover have "(\<exists>t. (\<exists>j < k. P j \<and> ms ! j = (t, x)) \<and> fst (ms ! k) - t \<le> ttl) \<longleftrightarrow>
      (\<exists>j < k. P j \<and> snd (ms ! j) = x \<and> fst (ms ! k) - fst (ms ! j) \<le> ttl)" for P x
    by (metis prod.collapse fst_conv snd_conv)
  ultimately show ?thesis by (simp add: Let_def)
qed

theorem gossip_dedupe_exact_witness:
  "fresh_run [(0, ''a''), (5, ''b''), (29, ''a''), (31, ''a'')] (newSeenCache 30) ! 3"
  using gossip_dedupe_exact [of "[(0, ''a''), (5, ''b''), (29, ''a''), (31, ''a'')]" 3 30]
    gossip_dedupe_exact [of "[(0, ''a''), (5, ''b''), (29, ''a''), (31, ''a'')]" 2 30]
    gossip_dedupe_exact [of "[(0, ''a''), (5, ''b''), (29, ''a''), (31, ''a'')]" 0 30]
  by (simp add: Let_def numeral_nat less_Suc_eq Seen_def newSeenCache_def seen_gc_def)

end
