(* ===== verification/Node.thy ===== *)
theory Node
  imports Peers Lookup
begin

text \<open>
  Sessions and message handling of a node (\<^verbatim>\<open>internal/p2p\<close>: \<^verbatim>\<open>session.go\<close>, \<^verbatim>\<open>connect.go\<close>,
  \<^verbatim>\<open>handlers_envelope.go\<close>, \<^verbatim>\<open>peer_write.go\<close>, \<^verbatim>\<open>discovery.go\<close>, \<^verbatim>\<open>dht_bootstrap.go\<close>), and the node as a transition
  system: every goroutine's next action is a step. The outcomes of dialling, of the Noise handshake and of
  reading and writing are arguments. \<open>ks\<close> is the traversal order of the peer map.
\<close>

subsection \<open>Sessions\<close>

record NoiseIdentityPayload =
  np_Name :: string
  np_UserPub :: bytes

text \<open>What the network does while a session is set up. The remote handshake payload is empty (\<open>None\<close>), or
  is JSON that decodes or not.\<close>

record session_io =
  si_handshake :: "string + NoiseIdentityPayload option option"
  si_helloErr :: "string option"
  si_hello :: "string + Envelope"
  si_remoteAddr :: string

datatype session_error = HandshakeError string | PayloadError | HelloWriteError string | HelloReadError string |
  ExpectedHello | BadHello

definition sendHello :: "Node \<Rightarrow> Envelope" where
  "sendHello n = self_env MsgHello
     (P_hello \<lparr>h_Name = nc_Name (n_cfg n), h_Listen = n_addr n, h_Protocol = nc_Protocol (n_cfg n)\<rparr>) n"

definition remote_identity :: "NoiseIdentityPayload option option \<Rightarrow> (string \<times> bytes \<times> string) option" where
  "remote_identity rp =
     (case rp of
        None \<Rightarrow> Some ([], [], [])
      | Some None \<Rightarrow> None
      | Some (Some rip) \<Rightarrow> Some (np_Name rip, np_UserPub rip, EncodeToString (np_UserPub rip)))"

text \<open>The new peer object is allocated at \<open>r\<close>. The result \<open>Inr None\<close> is the nil peer of a duplicate.\<close>

definition establishPeer ::
  "crypto \<Rightarrow> (nat \<Rightarrow> gotime) \<Rightarrow> store_io \<Rightarrow> session_io \<Rightarrow> nat \<Rightarrow> Node \<Rightarrow> (session_error + nat option) \<times> Node" where
  "establishPeer cr clock io sio r n =
     (case si_handshake sio of
        Inl err \<Rightarrow> (Inl (HandshakeError err), n)
      | Inr rp \<Rightarrow>
          (case remote_identity rp of
             None \<Rightarrow> (Inl PayloadError, n)
           | Some (rname, rpub, ruid) \<Rightarrow>
               (case si_helloErr sio of
                  Some err \<Rightarrow> (Inl (HelloWriteError err), n)
                | None \<Rightarrow>
                    (case si_hello sio of
                       Inl err \<Rightarrow> (Inl (HelloReadError err), n)
                     | Inr env \<Rightarrow>
                         if env_Type env \<noteq> MsgHello then (Inl ExpectedHello, n)
                         else case env_Payload env of
                           P_hello hello \<Rightarrow>
                             let p = \<lparr>pr_id = env_FromID env, pr_addr = h_Listen hello,
                                      pr_observedAddr = si_remoteAddr sio, pr_sendCh = [], pr_cancelled = False,
                                      pr_closed = False, pr_once = False, pr_name = rname, pr_userPub = rpub,
                                      pr_userID = ruid\<rparr>
                             in (case addPeer cr clock io r (set_peer r p n) of
                                   (True, n') \<Rightarrow> (Inr (Some r), n')
                                 | (False, _) \<Rightarrow> (Inr None, n))
                         | _ \<Rightarrow> (Inl BadHello, n)))))"

text \<open>\<^verbatim>\<open>handleConn\<close> up to the read loop, and its deferred end.\<close>

definition conn_start ::
  "crypto \<Rightarrow> (nat \<Rightarrow> gotime) \<Rightarrow> store_io \<Rightarrow> session_io \<Rightarrow> string list \<Rightarrow> nat \<Rightarrow> Node \<Rightarrow> bool \<times> Node" where
  "conn_start cr clock io sio ks r n =
     (case establishPeer cr clock io sio r n of
        (Inr (Some r), n1) \<Rightarrow>
          let n2 = (if \<not> nc_IsSeed (n_cfg n1) then sendNatRegister r n1 else n1)
          in (True, sendPeerList ks r (sendIdentify r n2))
      | (_, n1) \<Rightarrow> (False, n1))"

definition conn_end :: "nat \<Rightarrow> Node \<Rightarrow> Node" where
  "conn_end r n =
     (case n_heap n r of
        None \<Rightarrow> n
      | Some p \<Rightarrow>
          let n1 = removePeer (pr_id p) n
          in n1\<lparr>n_heap := (n_heap n1)(r := map_option (\<lambda>p. p\<lparr>pr_closed := True\<rparr>) (n_heap n1 r))\<rparr>)"

text \<open>\<open>net addr\<close> is the error of dialling \<open>addr\<close>, if any.\<close>

definition ConnectTo :: "(string \<Rightarrow> string option) \<Rightarrow> string \<Rightarrow> Node \<Rightarrow> string option \<times> Node" where
  "ConnectTo net addr n =
     (case net addr of
        Some err \<Rightarrow> (Some err, n)
      | None \<Rightarrow> (None, n\<lparr>n_conns := n_conns n @ [addr]\<rparr>))"

subsection \<open>Messages\<close>

definition dial_listed :: "(string \<Rightarrow> string option) \<Rightarrow> PeerInfo \<Rightarrow> Node \<Rightarrow> Node" where
  "dial_listed net info n =
     (if pi_ID info = id_ID (n_id n) then n
      else if hasPeer (pi_ID info) n then n
      else snd (ConnectTo net (pi_Addr info) n))"

definition handle_gossip :: "gotime \<Rightarrow> string list \<Rightarrow> peer \<Rightarrow> Envelope \<Rightarrow> Node \<Rightarrow> Node" where
  "handle_gossip now ks p env n =
     (case env_Payload env of
        P_gossip gid channel body \<Rightarrow>
          (case Seen now gid (n_seen n) of
             (True, s) \<Rightarrow> n\<lparr>n_seen := s\<rparr>
           | (False, s) \<Rightarrow> relay ks (pr_id p) env (n\<lparr>n_seen := s, n_incoming := try_send env (n_incoming n)\<rparr>))
      | _ \<Rightarrow> n)"

definition handle_dht ::
  "crypto \<Rightarrow> (nat \<Rightarrow> gotime) \<Rightarrow> (NodeInfo \<Rightarrow> bool) \<Rightarrow> store_io \<Rightarrow> peer \<Rightarrow> Envelope \<Rightarrow> Node \<Rightarrow> Node" where
  "handle_dht cr clock ping io p env n =
     (case HandleDHT cr clock ping io (pr_id p) (pr_addr p) (pr_name p) env (n_dht n) of
        (d, None) \<Rightarrow> n\<lparr>n_dht := d\<rparr>
      | (d, Some w) \<Rightarrow> snd (SendToPeer (pr_id p) (self_env MsgDHT (P_dht w) n) (n\<lparr>n_dht := d\<rparr>)))"

definition handleEnvelope ::
  "crypto \<Rightarrow> (nat \<Rightarrow> gotime) \<Rightarrow> (NodeInfo \<Rightarrow> bool) \<Rightarrow> store_io \<Rightarrow> (string \<Rightarrow> string option) \<Rightarrow> string list \<Rightarrow> nat \<Rightarrow>
     Envelope \<Rightarrow> Node \<Rightarrow> Node" where
  "handleEnvelope cr clock ping io net ks r env n =
     (case n_heap n r of
        None \<Rightarrow> n
      | Some p \<Rightarrow>
          if env_Type env = MsgPeerList then
            (case env_Payload env of P_peers pl \<Rightarrow> fold (dial_listed net) pl n | _ \<Rightarrow> n)
          else if env_Type env = MsgGossip then handle_gossip (clock 0) ks p env n
          else if env_Type env = MsgIdentify then handleIdentify r env n
          else if env_Type env = MsgNatRegister then handleNatRegister r env n
          else if env_Type env = MsgNatRelay then
            (if nc_IsSeed (n_cfg n) then handleNatRelaySeed r env n else handleNatRelayClient r env n)
          else if env_Type env = MsgDHT then handle_dht cr clock ping io p env n
          else n\<lparr>n_incoming := try_send env (n_incoming n)\<rparr>)"

text \<open>One iteration of \<^verbatim>\<open>writeLoop\<close>; \<open>writeErr\<close> tells whether encoding fails.\<close>

definition write_one :: "bool \<Rightarrow> nat \<Rightarrow> Node \<Rightarrow> Node" where
  "write_one writeErr r n =
     (case n_heap n r of
        None \<Rightarrow> n
      | Some p \<Rightarrow>
          if pr_cancelled p \<or> n_stopped n then n
          else case pr_sendCh p of
                 [] \<Rightarrow> n
               | env # rest \<Rightarrow>
                   let n1 = set_peer r (p\<lparr>pr_sendCh := rest\<rparr>) n
                   in if writeErr then n1\<lparr>n_removing := n_removing n1 @ [pr_id p]\<rparr> else n1)"

subsection \<open>Bootstrap and discovery\<close>

definition dial_all :: "(string \<Rightarrow> string option) \<Rightarrow> string list \<Rightarrow> Node \<Rightarrow> Node" where
  "dial_all net addrs n = fold (\<lambda>a n. if a = [] then n else snd (ConnectTo net a n)) addrs n"

definition discovery_start :: "(string \<Rightarrow> string option) \<Rightarrow> Node \<Rightarrow> Node" where
  "discovery_start net n = dial_all net (nc_Bootstraps (n_cfg n)) n"

definition discoveryTick :: "(string \<Rightarrow> string option) \<Rightarrow> Node \<Rightarrow> Node" where
  "discoveryTick net n =
     (if nc_Bootstraps (n_cfg n) = [] then n
      else fold (\<lambda>a n. if a = [] then n else if hasPeer a n then n else snd (ConnectTo net a n))
             (nc_Bootstraps (n_cfg n)) n)"

definition coldStartDHTBootstrap :: "(string \<Rightarrow> string option) \<Rightarrow> string list \<Rightarrow> Node \<Rightarrow> Node" where
  "coldStartDHTBootstrap net sks n =
     (if nc_Bootstraps (n_cfg n) \<noteq> [] then n else dial_all net (BootstrapAddrs sks 8 (n_dht n)) n)"

record DHTBootstrapConfig =
  bc_MinPeers :: int
  bc_Tick :: int
  bc_PerTickLookups :: int
  bc_Lookup :: LookupConfig

definition DefaultDHTBootstrapConfig :: DHTBootstrapConfig where
  "DefaultDHTBootstrapConfig =
     \<lparr>bc_MinPeers = 6, bc_Tick = 3 * second, bc_PerTickLookups = 2, bc_Lookup = DefaultLookupConfig\<rparr>"

definition normalise_bootstrap :: "DHTBootstrapConfig \<Rightarrow> DHTBootstrapConfig" where
  "normalise_bootstrap c =
     c\<lparr>bc_MinPeers := (if bc_MinPeers c \<le> 0 then 6 else bc_MinPeers c),
       bc_Tick := (if bc_Tick c \<le> 0 then 3 * second else bc_Tick c),
       bc_PerTickLookups := (if bc_PerTickLookups c \<le> 0 then 2 else bc_PerTickLookups c)\<rparr>"

definition randomNodeIDHex :: "bytes \<Rightarrow> string" where
  "randomNodeIDHex rnd = EncodeToString rnd"

definition dial_found :: "(string \<Rightarrow> string option) \<Rightarrow> DHTNode \<Rightarrow> Node \<Rightarrow> Node" where
  "dial_found net ni n =
     (if nd_NodeID ni = [] \<or> nd_Addr ni = [] then n
      else if nd_NodeID ni = id_ID (n_id n) then n
      else if hasPeer (nd_NodeID ni) n then n
      else snd (ConnectTo net (nd_Addr ni) n))"

definition bootstrap_lookup ::
  "crypto \<Rightarrow> DHTBootstrapConfig \<Rightarrow> (string \<Rightarrow> string option) \<Rightarrow> lookup_env \<Rightarrow> bytes \<Rightarrow> Node \<Rightarrow> Node" where
  "bootstrap_lookup cr cfg net e rnd n =
     (case IterativeFindNode cr e (randomNodeIDHex rnd) (bc_Lookup cfg) (d_rt (n_dht n)) of
        (res, _, rt) \<Rightarrow>
          let n1 = n\<lparr>n_dht := (n_dht n)\<lparr>d_rt := rt\<rparr>\<rparr>
          in case res of Inl _ \<Rightarrow> n1 | Inr found \<Rightarrow> fold (dial_found net) found n1)"

text \<open>One tick of the bootstrap loop; \<open>looks\<close> is the sequence of lookup environments and random targets.\<close>

definition bootstrap_tick ::
  "crypto \<Rightarrow> DHTBootstrapConfig \<Rightarrow> (string \<Rightarrow> string option) \<Rightarrow> string list \<Rightarrow> (nat \<Rightarrow> lookup_env \<times> bytes) \<Rightarrow> Node \<Rightarrow> Node" where
  "bootstrap_tick cr cfg0 net ks looks n =
     (let cfg = normalise_bootstrap cfg0
      in if PeerCount ks n = 0 then n
         else if int (PeerCount ks n) \<ge> bc_MinPeers cfg then n
         else fold (\<lambda>i. bootstrap_lookup cr cfg net (fst (looks i)) (snd (looks i)))
                [0..<nat (bc_PerTickLookups cfg)] n)"

definition StartNode :: "string + string \<Rightarrow> (string \<Rightarrow> string option) \<Rightarrow> string list \<Rightarrow> Node \<Rightarrow> string option \<times> Node" where
  "StartNode listen net sks n =
     (case listen of
        Inl err \<Rightarrow> (Some err, n)
      | Inr addr \<Rightarrow> (None, discovery_start net (coldStartDHTBootstrap net sks (n\<lparr>n_addr := addr\<rparr>))))"

subsection \<open>The node as a transition system\<close>

text \<open>Every step is one action of one goroutine: a connection is set up or ends, a message of a session is
  handled, the write loop writes, a pending removal runs, the application sends or reads a channel, a ticker
  fires.\<close>

inductive node_step :: "crypto \<Rightarrow> Node \<Rightarrow> Node \<Rightarrow> bool" for cr where
  start: "node_step cr n (snd (StartNode listen net sks n))"
| connect: "node_step cr n (snd (ConnectTo net addr n))"
| session: "n_heap n r = None \<Longrightarrow> node_step cr n (snd (conn_start cr clock io sio ks r n))"
| message: "node_step cr n (handleEnvelope cr clock ping io net ks r env n)"
| writes: "node_step cr n (write_one writeErr r n)"
| ends: "node_step cr n (conn_end r n)"
| removal: "n_removing n = xs @ i # ys \<Longrightarrow> node_step cr n (removePeer i (n\<lparr>n_removing := xs @ ys\<rparr>))"
| broadcast: "node_step cr n (Broadcast ks g n)"
| send_peer: "node_step cr n (snd (SendToPeer i env n))"
| send_user: "node_step cr n (snd (SendToUserID u env n))"
| read_incoming: "n_incoming n = env # rest \<Longrightarrow> node_step cr n (n\<lparr>n_incoming := rest\<rparr>)"
| read_event: "n_events n = e # es \<Longrightarrow> node_step cr n (n\<lparr>n_events := es\<rparr>)"
| discovery: "node_step cr n (discoveryTick net n)"
| bootstrap: "\<forall>i. fair_env (fst (looks i)) \<Longrightarrow> node_step cr n (bootstrap_tick cr cfg net ks looks n)"
| stop: "node_step cr n (StopNode n)"

inductive node_reach :: "crypto \<Rightarrow> Node \<Rightarrow> bool" for cr where
  init: "NewNode cr ident cfg = Inr n \<Longrightarrow> node_reach cr n"
| step: "node_reach cr n \<Longrightarrow> node_step cr n n' \<Longrightarrow> node_reach cr n'"

definition node_inv :: "crypto \<Rightarrow> Node \<Rightarrow> bool" where
  "node_inv cr n \<longleftrightarrow> peers_inv n \<and> dht_inv cr (n_dht n)"

subsection \<open>Steps preserve the invariant\<close>

lemma node_inv_send [inv_intros]: "node_inv cr n \<Longrightarrow> node_inv cr (sendAsync env r n)"
  by (simp add: node_inv_def sendAsync_inv)

lemma node_inv_relay: "node_inv cr n \<Longrightarrow> node_inv cr (relay ks o1 env n)"
  by (simp add: node_inv_def relay_inv) (simp add: relay_def fold_sendAsync_dht)

lemma node_inv_SendToPeer: "node_inv cr n \<Longrightarrow> node_inv cr (snd (SendToPeer i env n))"
  by (simp add: SendToPeer_def node_inv_send split: option.splits)

lemma node_inv_cong:
  assumes "node_inv cr n" "n_id n' = n_id n" "n_heap n' = n_heap n" "n_peers n' = n_peers n"
    "n_peersByUserID n' = n_peersByUserID n" "n_natByUserID n' = n_natByUserID n"
    "length (n_incoming n') \<le> chanCap" "length (n_events n') \<le> chanCap" "dht_inv cr (n_dht n')"
  shows "node_inv cr n'"
  using assms peers_inv_cong [of n n'] by (simp add: node_inv_def)

lemma node_invD:
  assumes "node_inv cr n"
  shows "length (n_incoming n) \<le> chanCap" "length (n_events n) \<le> chanCap" "dht_inv cr (n_dht n)"
  using assms peers_invD(3,4) by (auto simp: node_inv_def)

lemma node_inv_ConnectTo: "node_inv cr n \<Longrightarrow> node_inv cr (snd (ConnectTo net a n))"
  by (rule node_inv_cong [of cr n]) (auto simp: ConnectTo_def node_invD split: option.splits)

lemma node_inv_fold: "(\<And>x n. node_inv cr n \<Longrightarrow> node_inv cr (f x n)) \<Longrightarrow> node_inv cr n \<Longrightarrow> node_inv cr (fold f xs n)"
  by (induction xs arbitrary: n) simp_all

lemma node_inv_dials:
  assumes "node_inv cr n"
  shows "node_inv cr (dial_all net as n)" "node_inv cr (discoveryTick net n)" "node_inv cr (fold (dial_listed net) pl n)"
    "node_inv cr (fold (dial_found net) fs n)"
  unfolding dial_all_def discoveryTick_def
  using assms by (auto simp: dial_listed_def dial_found_def intro!: node_inv_fold node_inv_ConnectTo)

lemma node_inv_addPeer:
  assumes "node_inv cr n" "sha256_size cr" "n_heap n r = Some p" "\<not> pr_once p" "\<not> pr_closed p" "\<not> pr_cancelled p"
  shows "node_inv cr (snd (addPeer cr clock io r n))"
proof -
  have "peers_inv (n\<lparr>n_dht := d, n_peers := (n_peers n)(pr_id p \<mapsto> r)\<rparr>)" if "pr_id p \<noteq> id_ID (n_id n)" for d
    using assms that by (auto simp: node_inv_def peers_inv_def entry_live_def)
  then show ?thesis
    using assms by (simp add: addPeer_def node_inv_def emit_inv OnPeerSeen_inv) (simp add: emit_def OnPeerSeen_inv)
qed

lemma node_inv_alloc:
  assumes "node_inv cr n" "n_heap n r = None" "pr_sendCh p = []"
  shows "node_inv cr (set_peer r p n)"
proof -
  have "entry_live (set_peer r p n) i q" if "entry_live n i q" for i q
    using that assms(2) by (cases "q = r") (auto simp: entry_live_def)
  moreover have "dom (n_heap n) \<subseteq> dom (n_heap (set_peer r p n))" by auto
  ultimately show ?thesis
    using assms by (auto simp: node_inv_def peers_inv_def)
qed

lemma node_inv_establishPeer:
  assumes "node_inv cr n" "sha256_size cr" "n_heap n r = None"
  shows "node_inv cr (snd (establishPeer cr clock io sio r n))"
proof -
  have reg: "node_inv cr n'"
    if "pr_sendCh p = []" "\<not> pr_once p" "\<not> pr_closed p" "\<not> pr_cancelled p"
      "addPeer cr clock io r (set_peer r p n) = (True, n')" for p n'
    using node_inv_addPeer [OF node_inv_alloc [OF assms(1,3) that(1)] assms(2), of r p clock io] that by simp
  then show ?thesis
    using assms(1) unfolding establishPeer_def Let_def
    by (auto split: sum.splits option.splits payload.splits prod.splits bool.splits intro: reg [rotated 4])
qed

lemma node_inv_conn_start:
  assumes "node_inv cr n" "sha256_size cr" "n_heap n r = None"
  shows "node_inv cr (snd (conn_start cr clock io sio ks r n))"
  using node_inv_establishPeer [OF assms, of clock io sio]
  by (auto simp: conn_start_def sendPeerList_def sendIdentify_def sendNatRegister_def Let_def
      split: sum.splits option.splits prod.splits intro!: inv_intros)

lemma removePeer_frame: "n_dht (removePeer i n) = n_dht n"
  by (simp add: removePeer_def close_once_def remove_entries_def emit_def Let_def split: option.splits)

lemma node_inv_removePeer: "node_inv cr n \<Longrightarrow> node_inv cr (removePeer i n)"
  by (simp add: node_inv_def removePeer_inv removePeer_frame)

lemma removePeer_entry:
  assumes "peers_inv n" "n_heap n r = Some p"
  shows "\<exists>q. n_heap (removePeer i n) r = Some q \<and> pr_id q = pr_id p \<and> pr_sendCh q = pr_sendCh p"
    "n_peers (removePeer (pr_id p) n) j = Some r \<Longrightarrow> False"
proof -
  show "\<exists>q. n_heap (removePeer i n) r = Some q \<and> pr_id q = pr_id p \<and> pr_sendCh q = pr_sendCh p"
    using assms(2) by (auto simp: removePeer_def close_once_def remove_entries_def emit_def Let_def split: option.splits)
  have "n_peers n j = Some r \<Longrightarrow> j = pr_id p"
    using peers_invD(1) [OF assms(1), of j r] assms(2) by (auto simp: entry_live_def)
  moreover have "n_peers (removePeer (pr_id p) n) = (n_peers n)(pr_id p := None)"
    using peers_invD(1) [OF assms(1), of "pr_id p"]
    by (auto simp: removePeer_def close_once_def remove_entries_def emit_def entry_live_def Let_def split: option.splits)
  ultimately show "n_peers (removePeer (pr_id p) n) j = Some r \<Longrightarrow> False" by (auto split: if_splits)
qed

lemma node_inv_conn_end:
  assumes "node_inv cr n"
  shows "node_inv cr (conn_end r n)"
proof (cases "n_heap n r")
  case (Some p)
  let ?n1 = "removePeer (pr_id p) n"
  have pi: "peers_inv n" "peers_inv ?n1" using assms node_inv_removePeer [OF assms] by (simp_all add: node_inv_def)
  obtain q where q: "n_heap ?n1 r = Some q" using removePeer_entry(1) [OF pi(1) Some] by blast
  have gone: "n_peers ?n1 j \<noteq> Some r" for j using removePeer_entry(2) [OF pi(1) Some] by blast
  let ?n2 = "set_peer r (q\<lparr>pr_closed := True\<rparr>) ?n1"
  have "entry_live ?n2 i r'" if "n_peers ?n1 i = Some r'" for i r'
    using peers_invD(1) [OF pi(2) that] gone [of i] that by (auto simp: entry_live_def)
  moreover have "dom (n_heap ?n2) = dom (n_heap ?n1)" using q by auto
  ultimately have "peers_inv ?n2"
    using pi(2) peers_invD(2) [OF pi(2) q] by (simp add: peers_inv_def)
  then show ?thesis
    using Some q assms by (simp add: conn_end_def node_inv_def removePeer_frame Let_def)
qed (use assms in \<open>simp add: conn_end_def\<close>)

lemma node_inv_write_one:
  assumes "node_inv cr n"
  shows "node_inv cr (write_one we r n)"
proof (cases "n_heap n r")
  case (Some p)
  have pi: "peers_inv n" using assms by (simp add: node_inv_def)
  have "node_inv cr (set_peer r (p\<lparr>pr_sendCh := rest\<rparr>) n)" if "pr_sendCh p = env # rest" for env rest
    using peers_inv_set_peer [OF pi Some, of "p\<lparr>pr_sendCh := rest\<rparr>"] peers_invD(2) [OF pi Some] that assms
    by (simp add: node_inv_def)
  moreover have "node_inv cr (m\<lparr>n_removing := l\<rparr>)" if "node_inv cr m" for m l
    using that by (rule node_inv_cong) (simp_all add: node_invD [OF that])
  ultimately show ?thesis
    using assms Some by (auto simp: write_one_def Let_def split: list.splits)
qed (use assms in \<open>simp add: write_one_def\<close>)

lemma node_inv_gossip:
  assumes "node_inv cr n"
  shows "node_inv cr (handle_gossip now ks p env n)"
proof -
  have "node_inv cr (n\<lparr>n_seen := s, n_incoming := try_send env (n_incoming n)\<rparr>)" "node_inv cr (n\<lparr>n_seen := s\<rparr>)" for s
    using assms by (auto intro!: node_inv_cong [OF assms] try_send_bounded simp: node_invD)
  then show ?thesis
    using assms by (auto simp: handle_gossip_def node_inv_relay split: payload.splits prod.splits bool.splits)
qed

lemma node_inv_handle_dht:
  assumes "node_inv cr n" "sha256_size cr"
  shows "node_inv cr (handle_dht cr clock ping io p env n)"
proof -
  let ?h = "HandleDHT cr clock ping io (pr_id p) (pr_addr p) (pr_name p) env (n_dht n)"
  have "dht_inv cr (fst ?h)" using assms by (intro HandleDHT_inv) (simp_all add: node_inv_def)
  then have "node_inv cr (n\<lparr>n_dht := fst ?h\<rparr>)" using assms by (auto intro!: node_inv_cong [OF assms(1)] simp: node_invD)
  then show ?thesis
    by (cases ?h) (auto simp: handle_dht_def node_inv_SendToPeer split: option.splits)
qed

lemma user_handlers_dht:
  "n_dht (handleIdentify r env n) = n_dht n" "n_dht (handleNatRegister r env n) = n_dht n"
  "n_dht (handleNatRelaySeed r env n) = n_dht n"
  by (simp_all add: handleIdentify_def handleNatRegister_def handleNatRelaySeed_def split: payload.splits option.splits)

lemma node_inv_handleEnvelope:
  assumes "node_inv cr n" "sha256_size cr"
  shows "node_inv cr (handleEnvelope cr clock ping io net ks r env n)"
proof -
  have "node_inv cr (n\<lparr>n_incoming := try_send env (n_incoming n)\<rparr>)"
    using assms(1) by (auto intro!: node_inv_cong [OF assms(1)] try_send_bounded simp: node_invD)
  moreover have "node_inv cr (handleIdentify r env n)" "node_inv cr (handleNatRegister r env n)"
    "node_inv cr (handleNatRelaySeed r env n)"
    using assms(1) by (simp_all add: node_inv_def user_handlers_dht inv_intros)
  ultimately show ?thesis
    using assms by (auto simp: handleEnvelope_def handleNatRelayClient_def node_inv_gossip node_inv_handle_dht
        node_inv_dials split: option.splits payload.splits)
qed

lemma node_inv_bootstrap_lookup:
  assumes "node_inv cr n" "sha256_size cr" "fair_env e"
  shows "node_inv cr (bootstrap_lookup cr cfg net e rnd n)"
proof -
  obtain res q rt where f: "IterativeFindNode cr e (randomNodeIDHex rnd) (bc_Lookup cfg) (d_rt (n_dht n)) = (res, q, rt)"
    by (metis prod_cases3)
  have d: "dht_inv cr (n_dht n)" using assms(1) by (simp add: node_inv_def)
  then have "rt_good cr (d_rt (n_dht n))" by (simp add: dht_inv_def rt_good_def)
  from IterativeFindNode_good [OF this assms(3,2) f]
  have "dht_inv cr ((n_dht n)\<lparr>d_rt := rt\<rparr>)" using d by (simp add: dht_inv_def rt_good_def)
  then have "node_inv cr (n\<lparr>n_dht := (n_dht n)\<lparr>d_rt := rt\<rparr>\<rparr>)"
    using assms(1) by (auto intro!: node_inv_cong [OF assms(1)] simp: node_invD)
  then show ?thesis by (auto simp: bootstrap_lookup_def f Let_def node_inv_dials split: sum.splits)
qed

lemma NewNode_inv:
  assumes "NewNode cr ident cfg = Inr n" "sha256_size cr"
  shows "node_inv cr n"
proof -
  obtain i d where "ident = Inr i" and d: "New cr (id_ID i) [WithStore None] = Inr d"
    and n: "n = \<lparr>n_cfg = cfg, n_id = i, n_addr = [], n_heap = Map.empty, n_peers = Map.empty,
        n_peersByUserID = Map.empty, n_natByUserID = Map.empty, n_stopped = False, n_incoming = [],
        n_events = [], n_seen = newSeenCache (30 * second), n_dht = d, n_removing = [], n_conns = []\<rparr>"
    using assms(1) by (auto simp: NewNode_def split: sum.splits)
  have "dht_inv cr d" by (rule New_inv [OF d assms(2)]) simp
  then show ?thesis by (simp add: n node_inv_def peers_inv_def)
qed

lemma node_step_inv:
  assumes "node_step cr n n'" "node_inv cr n" "sha256_size cr"
  shows "node_inv cr n'"
  using assms
proof (cases rule: node_step.cases)
  case (start listen net sks)
  have "node_inv cr (n\<lparr>n_addr := a\<rparr>)" for a
    using assms(2) by (auto intro!: node_inv_cong [OF assms(2)] simp: node_invD)
  then show ?thesis
    using start assms(2)
    by (auto simp: StartNode_def discovery_start_def coldStartDHTBootstrap_def node_inv_dials split: sum.splits)
next
  case (removal xs i ys)
  have "node_inv cr (n\<lparr>n_removing := xs @ ys\<rparr>)"
    using assms(2) by (auto intro!: node_inv_cong [OF assms(2)] simp: node_invD)
  then show ?thesis using removal node_inv_removePeer by blast
next
  case (read_incoming env rest)
  then show ?thesis
    using assms(2) node_invD(1) [OF assms(2)] by (auto intro!: node_inv_cong [OF assms(2)] simp: node_invD)
next
  case (read_event e es)
  then show ?thesis
    using assms(2) node_invD(2) [OF assms(2)] by (auto intro!: node_inv_cong [OF assms(2)] simp: node_invD)
next
  case (bootstrap looks cfg net ks)
  then show ?thesis
    using assms(2,3) by (auto simp: bootstrap_tick_def Let_def intro!: node_inv_fold node_inv_bootstrap_lookup)
next
  case stop
  then show ?thesis
    using assms(2) by (auto intro!: node_inv_cong [OF assms(2)] simp: StopNode_def node_invD)
next
  case (send_user u env)
  then show ?thesis using assms(2) by (auto simp: SendToUserID_def node_inv_SendToPeer split: option.splits)
qed (use assms in \<open>auto simp: Broadcast_def node_inv_ConnectTo node_inv_conn_start node_inv_handleEnvelope
    node_inv_write_one node_inv_conn_end node_inv_relay node_inv_SendToPeer node_inv_dials\<close>)

subsection \<open>Flooding\<close>

lemma fold_sendAsync_heap:
  "distinct rs \<Longrightarrow> n_heap (fold (sendAsync env) rs n) r =
     (if r \<in> set rs then n_heap (sendAsync env r n) r else n_heap n r)"
proof (induction rs arbitrary: n)
  case (Cons q rs)
  have "n_heap (sendAsync env q n) r' = n_heap n r'" if "r' \<noteq> q" for r' using that by (simp add: sendAsync_heap)
  then show ?case using Cons by (auto simp: sendAsync_heap)
qed simp

lemma relay_targets:
  assumes "peers_inv n" "enumerates ks (n_peers n)"
  shows "distinct (List.map_filter (\<lambda>i. if i = o1 then None else n_peers n i) ks)"
    "set (List.map_filter (\<lambda>i. if i = o1 then None else n_peers n i) ks) = {r. \<exists>i. i \<noteq> o1 \<and> n_peers n i = Some r}"
proof -
  have inj: "i = j" if "n_peers n i = Some r" "n_peers n j = Some r" for i j r
    using peers_invD(1) [OF assms(1) that(1)] peers_invD(1) [OF assms(1) that(2)] by (auto simp: entry_live_def)
  have st: "set (List.map_filter (\<lambda>i. if i = o1 then None else n_peers n i) l) =
      {r. \<exists>i \<in> set l. i \<noteq> o1 \<and> n_peers n i = Some r}" for l
    by (induction l) (auto simp: List.map_filter_simps split: option.splits)
  have "distinct l \<Longrightarrow> distinct (List.map_filter (\<lambda>i. if i = o1 then None else n_peers n i) l)" for l
    by (induction l) (auto simp: List.map_filter_simps st dest: inj split: option.splits)
  then show "distinct (List.map_filter (\<lambda>i. if i = o1 then None else n_peers n i) ks)"
    using assms(2) by blast
  show "set (List.map_filter (\<lambda>i. if i = o1 then None else n_peers n i) ks) = {r. \<exists>i. i \<noteq> o1 \<and> n_peers n i = Some r}"
    unfolding st using enumerates_set [OF assms(2)] by (auto simp: domIff)
qed

subsection \<open>Sample node\<close>

definition sample_peer_obj :: "string \<Rightarrow> peer" where
  "sample_peer_obj i = \<lparr>pr_id = i, pr_addr = [], pr_observedAddr = [], pr_sendCh = [], pr_cancelled = False,
     pr_closed = False, pr_once = False, pr_name = [], pr_userPub = [], pr_userID = []\<rparr>"

text \<open>A seed with peers \<^verbatim>\<open>a\<close> (reference 0) and \<^verbatim>\<open>b\<close> (reference 1), and an ended session of \<^verbatim>\<open>b\<close> (reference 2).\<close>

definition sample_seed :: Node where
  "sample_seed =
     \<lparr>n_cfg = \<lparr>nc_Name = ''s'', nc_Bootstraps = [], nc_Protocol = ''v1'', nc_IsSeed = True\<rparr>,
      n_id = \<lparr>id_SignPriv = [1], id_SignPub = [1], id_NoisePriv = [2], id_NoisePub = [2], id_ID = sample_peer 0\<rparr>,
      n_addr = [], n_heap = [0 \<mapsto> sample_peer_obj ''a'', 1 \<mapsto> sample_peer_obj ''b'',
        2 \<mapsto> (sample_peer_obj ''b'')\<lparr>pr_once := True, pr_cancelled := True, pr_closed := True\<rparr>],
      n_peers = [''a'' \<mapsto> 0, ''b'' \<mapsto> 1], n_peersByUserID = Map.empty, n_natByUserID = Map.empty, n_stopped = False,
      n_incoming = [], n_events = [], n_seen = newSeenCache (30 * second), n_dht = sample_dht, n_removing = [],
      n_conns = []\<rparr>"

lemma sample_peer_long: "length (sample_peer b) = 64"
  by (simp add: sample_peer_def sample_id_def length_EncodeToString)

lemma sample_seed_inv: "peers_inv sample_seed"
proof -
  have "sample_peer 0 \<noteq> ''a''" "sample_peer 0 \<noteq> ''b''" using sample_peer_long [of 0] by auto
  then show ?thesis
    by (auto simp: peers_inv_def entry_live_def sample_seed_def sample_peer_obj_def split: if_splits)
qed

lemma sample_seed_keys: "enumerates [''a'', ''b''] (n_peers sample_seed)"
  by (auto simp: enumerates_def sample_seed_def split: if_splits)

lemma sample_seed_New: "\<exists>n. NewNode demo_crypto (Inr (n_id sample_seed)) (n_cfg sample_seed) = Inr n"
proof -
  have "New demo_crypto (sample_peer 0) [WithStore None] =
      map_sum id (apply_opt (WithStore None)) (New demo_crypto (sample_peer 0) [])"
    by (simp add: New_def split: sum.splits)
  then show ?thesis by (simp add: sample_dht_New NewNode_def sample_seed_def)
qed

definition sample_gossip :: Envelope where
  "sample_gossip = \<lparr>env_Type = MsgGossip, env_FromID = ''a'', env_Payload = P_gossip ''m1'' ''chat'' P_bad\<rparr>"

subsection \<open>Properties\<close>



text \<open>C22: gossip is flooded: a new message is put in the incoming queue and in the send queue of every
  connected peer except the one it came from (a full queue drops it), and a repeated message changes nothing
  but the cache of seen ids.\<close>

theorem gossip_flooding:
  assumes "peers_inv n" "enumerates ks (n_peers n)" "n_heap n r = Some p"
    "env_Type env = MsgGossip" "env_Payload env = P_gossip gid channel body" "\<not> n_stopped n"
  shows "let n' = handleEnvelope cr clock ping io net ks r env n; dup = fst (Seen (clock 0) gid (n_seen n)) in
    (dup \<longrightarrow> n' = n\<lparr>n_seen := snd (Seen (clock 0) gid (n_seen n))\<rparr>) \<and>
    (\<not> dup \<longrightarrow> n_incoming n' = try_send env (n_incoming n) \<and> n_peers n' = n_peers n \<and>
      (\<forall>r' q. n_heap n r' = Some q \<longrightarrow> n_heap n' r' =
        Some (if \<exists>i. i \<noteq> pr_id p \<and> n_peers n i = Some r' then q\<lparr>pr_sendCh := try_send env (pr_sendCh q)\<rparr> else q)))"
proof -
  have h: "handleEnvelope cr clock ping io net ks r env n = handle_gossip (clock 0) ks p env n"
    using assms(3,4) by (simp add: handleEnvelope_def msg_type_defs)
  obtain dup s where se: "Seen (clock 0) gid (n_seen n) = (dup, s)" by fastforce
  let ?n1 = "n\<lparr>n_seen := s, n_incoming := try_send env (n_incoming n)\<rparr>"
  let ?rs = "List.map_filter (\<lambda>i. if i = pr_id p then None else n_peers n i) ks"
  have new: "n_heap (relay ks (pr_id p) env ?n1) r' =
      Some (if \<exists>i. i \<noteq> pr_id p \<and> n_peers n i = Some r' then q\<lparr>pr_sendCh := try_send env (pr_sendCh q)\<rparr> else q)"
    if "n_heap n r' = Some q" for r' q
  proof -
    have "\<not> pr_cancelled q" if "n_peers n i = Some r'" for i
      using peers_invD(1) [OF assms(1) that] \<open>n_heap n r' = Some q\<close> by (auto simp: entry_live_def)
    moreover have "relay ks (pr_id p) env ?n1 = fold (sendAsync env) ?rs ?n1" by (simp add: relay_def cong: if_cong)
    moreover have "n_heap (fold (sendAsync env) ?rs ?n1) r' =
        (if r' \<in> set ?rs then n_heap (sendAsync env r' ?n1) r' else n_heap ?n1 r')"
      by (rule fold_sendAsync_heap) (rule relay_targets(1) [OF assms(1,2)])
    moreover have "n_heap (sendAsync env r' ?n1) r' =
        Some (if pr_cancelled q then q else q\<lparr>pr_sendCh := try_send env (pr_sendCh q)\<rparr>)"
      using that assms(6) by (simp add: sendAsync_heap try_send_def)
    ultimately show ?thesis
      using that unfolding relay_targets(2) [OF assms(1,2), of "pr_id p"] by auto
  qed
  have "n_incoming (fold (sendAsync env) l m) = n_incoming m" "n_peers (fold (sendAsync env) l m) = n_peers m" for l m
    by (induction l arbitrary: m) simp_all
  then have "n_incoming (relay ks (pr_id p) env ?n1) = try_send env (n_incoming n)"
    "n_peers (relay ks (pr_id p) env ?n1) = n_peers n"
    by (simp_all add: relay_def)
  with new show ?thesis
    unfolding h Let_def handle_gossip_def assms(5) by (simp add: se split: bool.splits)
qed

theorem gossip_flooding_witness:
  "map_option pr_sendCh (n_heap (handleEnvelope demo_crypto (\<lambda>_. 0) (\<lambda>_. True) ([], True) (\<lambda>_. None) [''a'', ''b''] 0
      sample_gossip sample_seed) 1) = Some [sample_gossip]"
proof -
  have h: "n_heap sample_seed 0 = Some (sample_peer_obj ''a'')" "n_heap sample_seed 1 = Some (sample_peer_obj ''b'')"
    "\<not> n_stopped sample_seed" "\<exists>i. i \<noteq> ''a'' \<and> n_peers sample_seed i = Some 1"
    by (simp_all add: sample_seed_def) (auto intro: exI [of _ "''b''"])
  have g: "env_Type sample_gossip = MsgGossip" "env_Payload sample_gossip = P_gossip ''m1'' ''chat'' P_bad"
    by (simp_all add: sample_gossip_def)
  have new: "\<not> fst (Seen 0 ''m1'' (n_seen sample_seed))"
    by (simp add: sample_seed_def Seen_def newSeenCache_def seen_gc_def)
  have ids: "pr_id (sample_peer_obj ''a'') = ''a''" "pr_sendCh (sample_peer_obj ''b'') = []"
    by (simp_all add: sample_peer_obj_def)
  show ?thesis
    using gossip_flooding [OF sample_seed_inv sample_seed_keys h(1) g h(3), of demo_crypto "\<lambda>_. 0" "\<lambda>_. True" "([], True)"
        "\<lambda>_. None"] new h(2,4)
    by (simp add: Let_def ids try_send_def chanCap_def)
qed

text \<open>C37: a session ends by removing the id it was registered under. When the peer has reconnected in the
  meantime, the end of the old session disconnects the new one.\<close>

theorem stale_session_end_drops_reconnected_peer:
  assumes "peers_inv n" "n_heap n old = Some p" "n_peers n (pr_id p) = Some new" "old \<noteq> new"
  shows "n_peers (conn_end old n) (pr_id p) = None \<and>
    (\<exists>q. n_heap (conn_end old n) new = Some q \<and> pr_closed q \<and> pr_cancelled q)"
proof -
  obtain q where q: "n_heap n new = Some q" "\<not> pr_once q" using peers_invD(1) [OF assms(1,3)] by (auto simp: entry_live_def)
  then show ?thesis
    using assms
    by (simp add: conn_end_def removePeer_def close_once_def remove_entries_def emit_def Let_def)
qed

theorem stale_session_end_drops_reconnected_peer_witness:
  "n_peers (conn_end 2 sample_seed) ''b'' = None"
  using stale_session_end_drops_reconnected_peer [OF sample_seed_inv, of 2
      "(sample_peer_obj ''b'')\<lparr>pr_once := True, pr_cancelled := True, pr_closed := True\<rparr>" 1]
  by (simp add: sample_seed_def) (simp add: sample_peer_obj_def)

text \<open>A seed relays a message for a user to the session that registered the user last; the registration is
  not checked against the key of the session, so any peer can receive the messages of any user.\<close>

lemma nat_relay_follows_last_registration:
  assumes "nc_IsSeed (n_cfg n)" "n_heap n r = Some p" "n_heap n s = Some q" "s \<noteq> r" "user \<noteq> []"
    "env_Payload reg = P_natRegister \<lparr>nr_UserID = user, NatRegister.nr_Name = nm\<rparr>" "env_Payload env = P_natRelay user body"
    "\<not> pr_cancelled p" "\<not> n_stopped n" "length (pr_sendCh p) < 128"
  shows "map_option pr_sendCh (n_heap (handleNatRelaySeed s env (handleNatRegister r reg n)) r) =
    Some (pr_sendCh p @ [\<lparr>env_Type = MsgNatRelay, env_FromID = pr_id q, env_Payload = P_natRelay user body\<rparr>])"
  using assms
  by (simp add: handleNatRegister_def handleNatRelaySeed_def sendAsync_heap chanCap_def)

end
