(* ===== verification/Grants.thy ===== *)
theory Grants
  imports Messages Contracts
begin

text \<open>
  Signed point grants (\<^verbatim>\<open>internal/app/grants\<close>): verification (\<^verbatim>\<open>verify.go\<close>) and the ledger
  (\<^verbatim>\<open>ledger.go\<close>). Totals are \<^verbatim>\<open>int64\<close> and wrap around. The ledger interprets the contract \<open>dedup_log\<close>.
\<close>

subsection \<open>Verification\<close>

datatype grant_error = ErrInvalidGrant | ErrBadGrantSignature

definition VerifyGrant :: "crypto \<Rightarrow> gotime \<Rightarrow> QuizGrant \<Rightarrow> grant_error option" where
  "VerifyGrant cr now g =
     (if g_GrantID g = [] \<or> g_QuizID g = [] \<or> g_GrantorID g = [] \<or> g_RecipientID g = [] then Some ErrInvalidGrant
      else if g_Points g = 0 then Some ErrInvalidGrant
      else if sint (g_Timestamp g) > Unix now + 60 \<or> sint (g_Timestamp g) < Unix now - 60 * 60 * 24 * 365
      then Some ErrInvalidGrant
      else case DecodeString (g_GrantorID g) of
             None \<Rightarrow> Some ErrInvalidGrant
           | Some pubBytes \<Rightarrow>
               if length pubBytes \<noteq> 32 then Some ErrInvalidGrant
               else if \<not> ed25519_verify cr pubBytes (EncodeQuizGrantCanonical cr g) (g_Signature g)
               then Some ErrBadGrantSignature
               else None)"

subsection \<open>The ledger\<close>

record Award =
  aw_PlayerID :: string
  aw_Name :: string
  aw_Points :: int64
  aw_Updated :: gotime

record Ledger =
  lg_grants :: "string \<rightharpoonup> QuizGrant"
  lg_totals :: "string \<rightharpoonup> int64"
  lg_names :: "string \<rightharpoonup> string"

definition NewLedger :: Ledger where
  "NewLedger = \<lparr>lg_grants = Map.empty, lg_totals = Map.empty, lg_names = Map.empty\<rparr>"

definition NoteName :: "string \<Rightarrow> string \<Rightarrow> Ledger \<Rightarrow> Ledger" where
  "NoteName peerID name l =
     (if peerID = [] \<or> name = [] then l
      else if lg_names l peerID = None then l\<lparr>lg_names := (lg_names l)(peerID \<mapsto> name)\<rparr> else l)"

text \<open>A missing map entry reads as the zero value.\<close>

definition Total :: "Ledger \<Rightarrow> string \<Rightarrow> int64" where
  "Total l peerID = (case lg_totals l peerID of None \<Rightarrow> 0 | Some t \<Rightarrow> t)"

definition ApplyGrant :: "crypto \<Rightarrow> gotime \<Rightarrow> QuizGrant \<Rightarrow> Ledger \<Rightarrow> bool \<times> Ledger" where
  "ApplyGrant cr now g l =
     (if VerifyGrant cr now g \<noteq> None then (False, l)
      else if lg_grants l (g_GrantID g) \<noteq> None then (False, l)
      else (True, l\<lparr>lg_grants := (lg_grants l)(g_GrantID g \<mapsto> g),
                    lg_totals := (lg_totals l)(g_RecipientID g \<mapsto> Total l (g_RecipientID g) + g_Points g)\<rparr>))"

definition award_less :: "Award \<Rightarrow> Award \<Rightarrow> bool" where
  "award_less a b =
     (if sint (aw_Points a) = sint (aw_Points b) then aw_PlayerID a < aw_PlayerID b
      else sint (aw_Points a) > sint (aw_Points b))"

definition Leaderboard :: "string list \<Rightarrow> Ledger \<Rightarrow> Award list" where
  "Leaderboard ks l =
     sort_slice award_less
       (map (\<lambda>i. \<lparr>aw_PlayerID = i, aw_Name = (case lg_names l i of None \<Rightarrow> [] | Some n \<Rightarrow> n),
                  aw_Points = Total l i, aw_Updated = zeroTime\<rparr>) ks)"

subsection \<open>The ledger is an insert-if-absent log\<close>

interpretation ledger: dedup_log g_GrantID "\<lambda>g. VerifyGrant cr now g = None" lg_grants "ApplyGrant cr now"
  for cr now
  by unfold_locales (auto simp: ApplyGrant_def)

subsection \<open>Totals are the sums of the grants\<close>

definition grants_for :: "Ledger \<Rightarrow> string \<Rightarrow> QuizGrant set" where
  "grants_for l p = {g. lg_grants l (g_GrantID g) = Some g \<and> g_RecipientID g = p}"

definition ledger_inv :: "Ledger \<Rightarrow> bool" where
  "ledger_inv l \<longleftrightarrow> finite (dom (lg_grants l)) \<and> (\<forall>i g. lg_grants l i = Some g \<longrightarrow> g_GrantID g = i) \<and>
     (\<forall>p. Total l p = sum g_Points (grants_for l p)) \<and> (\<forall>p. lg_totals l p = None \<longleftrightarrow> grants_for l p = {})"

lemma NewLedger_inv: "ledger_inv NewLedger"
  by (simp add: ledger_inv_def NewLedger_def Total_def grants_for_def)

lemma finite_grants_for: "finite (dom (lg_grants l)) \<Longrightarrow> finite (grants_for l p)"
  by (rule finite_subset [OF _ finite_ran]) (auto simp: grants_for_def intro: ranI)

lemma ApplyGrant_inv [inv_intros]:
  assumes "ledger_inv l"
  shows "ledger_inv (snd (ApplyGrant cr now g l))"
proof (cases "VerifyGrant cr now g = None \<and> lg_grants l (g_GrantID g) = None")
  case True
  let ?l = "snd (ApplyGrant cr now g l)"
  have "grants_for ?l p = (if p = g_RecipientID g then insert g (grants_for l p) else grants_for l p)" for p
    using True by (auto simp: grants_for_def ApplyGrant_def)
  moreover have "g \<notin> grants_for l p" for p
    using True by (simp add: grants_for_def)
  moreover have "finite (grants_for l p)" for p
    using assms finite_grants_for by (simp add: ledger_inv_def)
  moreover have "Total ?l p = (if p = g_RecipientID g then Total l p + g_Points g else Total l p)"
    "lg_totals ?l p = None \<longleftrightarrow> p \<noteq> g_RecipientID g \<and> lg_totals l p = None"
    "lg_grants ?l = (lg_grants l)(g_GrantID g \<mapsto> g)" for p
    using True by (simp_all add: ApplyGrant_def Total_def)
  ultimately show ?thesis
    using assms by (simp add: ledger_inv_def add.commute)
next
  case False
  then have "ApplyGrant cr now g l = (False, l)" by (auto simp: ApplyGrant_def)
  with assms show ?thesis by simp
qed

lemma ApplyGrants_inv: "ledger_inv l \<Longrightarrow> ledger_inv (fold (\<lambda>g l. snd (ApplyGrant cr now g l)) gs l)"
  by (induction gs arbitrary: l) (simp_all add: ApplyGrant_inv)

lemma Total_determined:
  "ledger_inv l \<Longrightarrow> ledger_inv l' \<Longrightarrow> lg_grants l = lg_grants l' \<Longrightarrow> Total l p = Total l' p"
  by (simp add: ledger_inv_def grants_for_def)

text \<open>Between the signed sums the totals stand for and the wrapped totals.\<close>

lemma sint_sum_grants:
  assumes "finite G" "- (2 ^ 63) \<le> (\<Sum>g \<in> G. sint (g_Points g))" "(\<Sum>g \<in> G. sint (g_Points g)) < 2 ^ 63"
  shows "sint (sum g_Points G) = (\<Sum>g \<in> G. sint (g_Points g))"
proof -
  have eq: "sum g_Points G = word_of_int (\<Sum>g \<in> G. sint (g_Points g))" by simp
  show ?thesis
    unfolding eq sint_sbintrunc' using assms(2,3) by (intro signed_take_bit_int_eq_self) simp_all
qed

subsection \<open>What a signature covers\<close>

definition id_bytes :: "QuizGrant \<Rightarrow> bytes" where
  "id_bytes g = bytes_of (g_GrantID g) @ [0] @ bytes_of (g_QuizID g) @ [0] @ bytes_of (g_GrantorID g) @ [0] @
     bytes_of (g_RecipientID g)"

definition nul_free :: "string \<Rightarrow> bool" where
  "nul_free s \<longleftrightarrow> CHR 0x00 \<notin> set s"

definition clean :: "QuizGrant \<Rightarrow> bool" where
  "clean g \<longleftrightarrow> nul_free (g_GrantID g) \<and> nul_free (g_QuizID g) \<and> nul_free (g_GrantorID g) \<and> nul_free (g_RecipientID g)"

lemma nul_byte: "(word_of_nat (of_char c) :: byte) = 0 \<longleftrightarrow> c = CHR 0x00"
proof -
  have "(word_of_nat (of_char c) :: byte) = 0 \<longleftrightarrow> unat (word_of_nat (of_char c) :: byte) = 0"
    by (rule unat_eq_zero [symmetric])
  also have "\<dots> \<longleftrightarrow> of_char c = (of_char (CHR 0x00) :: nat)" by simp
  finally show ?thesis by (simp only: of_char_eq_iff)
qed

lemma nul_free_count: "nul_free s \<longleftrightarrow> count_list (bytes_of s) 0 = 0"
  by (induction s) (auto simp: nul_free_def nul_byte)

text \<open>A byte string with no zero byte ends at the first zero byte.\<close>

lemma split_at_nul:
  assumes "count_list a 0 = 0" "count_list a' 0 = 0" "a @ (0 :: byte) # x = a' @ 0 # x'"
  shows "a = a' \<and> x = x'"
proof -
  have tw: "takeWhile (\<lambda>b. b \<noteq> 0) (c @ 0 # y) = c" if "count_list c (0 :: byte) = 0" for c y
    using that by (simp add: takeWhile_append count_list_0_iff)
  then have "a = a'" using assms by metis
  with assms(3) show ?thesis by simp
qed

lemma id_bytes_inject:
  assumes "clean g" "id_bytes g = id_bytes g'"
  shows "g_GrantID g = g_GrantID g' \<and> g_QuizID g = g_QuizID g' \<and> g_GrantorID g = g_GrantorID g' \<and>
    g_RecipientID g = g_RecipientID g'"
proof -
  have "count_list (id_bytes g) 0 = count_list (id_bytes g') 0" using assms(2) by simp
  then have "clean g'"
    using assms(1) by (simp add: clean_def nul_free_count id_bytes_def)
  note c = assms(1) [unfolded clean_def nul_free_count] this [unfolded clean_def nul_free_count]
  have "bytes_of (g_GrantID g) = bytes_of (g_GrantID g') \<and>
      bytes_of (g_QuizID g) @ 0 # (bytes_of (g_GrantorID g) @ 0 # bytes_of (g_RecipientID g)) =
      bytes_of (g_QuizID g') @ 0 # (bytes_of (g_GrantorID g') @ 0 # bytes_of (g_RecipientID g'))"
    by (rule split_at_nul) (use c assms(2) in \<open>simp_all add: id_bytes_def\<close>)
  moreover from this have "bytes_of (g_QuizID g) = bytes_of (g_QuizID g') \<and>
      bytes_of (g_GrantorID g) @ 0 # bytes_of (g_RecipientID g) =
      bytes_of (g_GrantorID g') @ 0 # bytes_of (g_RecipientID g')"
    by (intro split_at_nul) (use c in simp_all)
  moreover from this have "bytes_of (g_GrantorID g) = bytes_of (g_GrantorID g') \<and>
      bytes_of (g_RecipientID g) = bytes_of (g_RecipientID g')"
    by (intro split_at_nul) (use c in simp_all)
  ultimately show ?thesis by simp
qed

lemma canonical_bytes_inject:
  assumes "clean g"
    and "id_bytes g @ [0] @ PutUint64 (g_Points g) @ PutUint64 (g_Timestamp g) =
      id_bytes g' @ [0] @ PutUint64 (g_Points g') @ PutUint64 (g_Timestamp g')"
  shows "g' = g\<lparr>g_Signature := g_Signature g'\<rparr>"
proof -
  have "id_bytes g = id_bytes g'" "PutUint64 (g_Points g) @ PutUint64 (g_Timestamp g) =
      PutUint64 (g_Points g') @ PutUint64 (g_Timestamp g')"
    using assms(2) by (simp_all add: append_eq_append_conv)
  with id_bytes_inject [OF assms(1)] show ?thesis
    by (intro QuizGrant.equality) simp_all
qed

subsection \<open>Sample grant\<close>

definition sample_unsigned :: QuizGrant where
  "sample_unsigned = \<lparr>g_GrantID = ''g1'', g_QuizID = ''q1'', g_GrantorID = EncodeToString (pad32 [7]),
     g_RecipientID = ''r1'', g_Points = 5, g_Timestamp = 1000, g_Signature = []\<rparr>"

definition sample_grant :: QuizGrant where
  "sample_grant = sample_unsigned\<lparr>g_Signature :=
     ed25519_sign demo_crypto [7] (EncodeQuizGrantCanonical demo_crypto sample_unsigned)\<rparr>"

text \<open>1000 seconds after the epoch, in nanoseconds since year 1.\<close>

definition sample_now :: gotime where
  "sample_now = (62135596800 + 1000) * 1000000000"

lemma canonical_signature [simp]:
  "EncodeQuizGrantCanonical cr (g\<lparr>g_Signature := s\<rparr>) = EncodeQuizGrantCanonical cr g"
  by (simp add: EncodeQuizGrantCanonical_def)

lemma sample_grant_valid: "VerifyGrant demo_crypto sample_now sample_grant = None"
proof -
  have "ed25519_verify demo_crypto (pad32 [7]) m (ed25519_sign demo_crypto [7] m)" for m
    by (simp add: demo_crypto_def)
  moreover have "EncodeToString (pad32 [7]) \<noteq> []" by (simp add: EncodeToString_not_Nil)
  ultimately show ?thesis
    unfolding VerifyGrant_def sample_grant_def canonical_signature
    by (simp add: Unix_def sample_now_def) (simp add: sample_unsigned_def)
qed

lemma sample_grant_clean: "clean sample_grant"
proof -
  have hex: "CHR 0x00 \<notin> set (EncodeToString bs)" for bs
  proof (induction bs)
    case (Cons b bs)
    have "hexDigit n \<noteq> CHR 0x00" if "n < 16" for n
      using fromHexChar_hexDigit [OF that] by (auto simp: fromHexChar_def)
    moreover have "unat b div 16 < 16" using unat_byte_less [of b] by (simp add: less_mult_imp_div_less)
    ultimately show ?case using Cons by (metis EncodeToString.simps(2) mod_less_divisor set_ConsD zero_less_numeral)
  qed simp
  then show ?thesis by (simp add: clean_def nul_free_def sample_grant_def sample_unsigned_def)
qed

subsection \<open>Properties\<close>





end
