(* ===== verification/Quiz.thy ===== *)
theory Quiz
  imports Grants Points NetAddr "HOL-Library.Sublist"
begin

text \<open>
  The quiz engine (\<^verbatim>\<open>internal/app/quiz/quiz.go\<close>): creating and observing quizzes, grading answers and
  resolving abbreviated quiz ids. The signed bytes of an open are its JSON (\<open>Codec\<close>). The
  string functions are modelled on ASCII; fresh message ids are arguments.
\<close>

subsection \<open>Answers\<close>

definition is_space :: "char \<Rightarrow> bool" where
  "is_space c \<longleftrightarrow> c \<in> {CHR 0x09, CHR 0x0A, CHR 0x0B, CHR 0x0C, CHR 0x0D, CHR '' ''}"

definition TrimSpace :: "string \<Rightarrow> string" where
  "TrimSpace s = rev (dropWhile is_space (rev (dropWhile is_space s)))"

fun Fields_from :: "string \<Rightarrow> string \<Rightarrow> string list" where
  "Fields_from cur [] = (if cur = [] then [] else [cur])"
| "Fields_from cur (c # s) =
     (if is_space c then (if cur = [] then Fields_from [] s else cur # Fields_from [] s)
      else Fields_from (cur @ [c]) s)"

definition Fields :: "string \<Rightarrow> string list" where
  "Fields s = Fields_from [] s"

fun Join :: "string list \<Rightarrow> string \<Rightarrow> string" where
  "Join [] sep = []"
| "Join [w] sep = w"
| "Join (w # v # ws) sep = w @ sep @ Join (v # ws) sep"

definition normalizeAnswer :: "string \<Rightarrow> string" where
  "normalizeAnswer s = Join (Fields (TrimSpace (ToLower s))) '' ''"

definition hashAnswer :: "crypto \<Rightarrow> string \<Rightarrow> bytes" where
  "hashAnswer cr a = sha256 cr (bytes_of (normalizeAnswer a))"

subsection \<open>Engine\<close>

record Open =
  op_QuizID :: string
  op_CreatorID :: string
  op_Question :: string
  op_Points :: int64
  op_Created :: int64
  op_Expires :: int64

record localOpen =
  lo_open :: Open
  lo_answerHash :: bytes
  lo_awardedTo :: "string set"

record QuizEngine =
  qe_selfPeerID :: string
  qe_selfName :: string
  qe_priv :: bytes
  qe_pub :: bytes
  qe_opens :: "string \<rightharpoonup> Open"
  qe_local :: "string \<rightharpoonup> localOpen"

definition NewQuizEngine :: "string \<Rightarrow> bytes \<Rightarrow> bytes \<Rightarrow> QuizEngine" where
  "NewQuizEngine selfName priv pub =
     \<lparr>qe_selfPeerID = PlayerIDFromPub pub, qe_selfName = selfName, qe_priv = priv, qe_pub = pub,
      qe_opens = Map.empty, qe_local = Map.empty\<rparr>"

definition open_of :: "QuizOpen \<Rightarrow> Open" where
  "open_of q = \<lparr>op_QuizID = qo_QuizID q, op_CreatorID = qo_CreatorID q, op_Question = qo_Question q,
     op_Points = qo_Points q, op_Created = qo_Created q, op_Expires = qo_Expires q\<rparr>"

definition CreateOpen ::
  "crypto \<Rightarrow> string \<Rightarrow> gotime \<Rightarrow> string \<Rightarrow> string \<Rightarrow> int64 \<Rightarrow> int \<Rightarrow> QuizEngine \<Rightarrow>
     QuizOpenSigned \<times> QuizEngine" where
  "CreateOpen cr qid now question answer points ttl e =
     (let q = \<lparr>qo_QuizID = qid, qo_CreatorID = qe_selfPeerID e, qo_Question = question, qo_Points = points,
               qo_Created = word_of_int (Unix now),
               qo_Expires = (if ttl > 0 then word_of_int (Unix (now + ttl)) else 0)\<rparr>
      in (\<lparr>qs_Open = q, qs_Signature = ed25519_sign cr (qe_priv e) (EncodeQuizOpenCanonical q)\<rparr>,
          e\<lparr>qe_opens := (qe_opens e)(qid \<mapsto> open_of q),
            qe_local := (qe_local e)(qid \<mapsto> \<lparr>lo_open = open_of q, lo_answerHash = hashAnswer cr answer,
                                            lo_awardedTo = {}\<rparr>)\<rparr>))"

definition ObserveOpen ::
  "crypto \<Rightarrow> gotime \<Rightarrow> QuizOpenSigned \<Rightarrow> QuizEngine \<Rightarrow> bool \<times> QuizEngine" where
  "ObserveOpen cr now s e =
     (let q = qs_Open s
      in if qo_QuizID q = [] \<or> qo_CreatorID q = [] \<or> qo_Question q = [] then (False, e)
         else case DecodeString (qo_CreatorID q) of
                None \<Rightarrow> (False, e)
              | Some pubBytes \<Rightarrow>
                  if length pubBytes \<noteq> 32 then (False, e)
                  else if \<not> ed25519_verify cr pubBytes (EncodeQuizOpenCanonical q) (qs_Signature s) then (False, e)
                  else if qo_Expires q \<noteq> 0 \<and> Unix now > sint (qo_Expires q) then (False, e)
                  else if qe_opens e (qo_QuizID q) \<noteq> None then (False, e)
                  else (True, e\<lparr>qe_opens := (qe_opens e)(qo_QuizID q \<mapsto> open_of q)\<rparr>))"

definition ListOpen :: "string list \<Rightarrow> QuizEngine \<Rightarrow> Open list" where
  "ListOpen ks e = List.map_filter (qe_opens e) ks"

subsection \<open>Grading\<close>

record grade =
  gr_grant :: QuizGrant
  gr_correct :: bool
  gr_authoritative :: bool
  gr_already :: bool

definition zeroGrant :: QuizGrant where
  "zeroGrant = \<lparr>g_GrantID = [], g_QuizID = [], g_GrantorID = [], g_RecipientID = [], g_Points = 0,
     g_Timestamp = 0, g_Signature = []\<rparr>"

abbreviation no_grade :: "bool \<Rightarrow> bool \<Rightarrow> grade" where
  "no_grade auth already \<equiv>
     \<lparr>gr_grant = zeroGrant, gr_correct = False, gr_authoritative = auth, gr_already = already\<rparr>"

definition make_grant :: "crypto \<Rightarrow> string \<Rightarrow> gotime \<Rightarrow> string \<Rightarrow> string \<Rightarrow> int64 \<Rightarrow> QuizEngine \<Rightarrow> QuizGrant" where
  "make_grant cr gid now quizID answererID points e =
     (let g = \<lparr>g_GrantID = gid, g_QuizID = quizID, g_GrantorID = qe_selfPeerID e, g_RecipientID = answererID,
               g_Points = points, g_Timestamp = word_of_int (Unix now), g_Signature = []\<rparr>
      in g\<lparr>g_Signature := ed25519_sign cr (qe_priv e) (EncodeQuizGrantCanonical cr g)\<rparr>)"

definition TryGrade ::
  "crypto \<Rightarrow> string \<Rightarrow> gotime \<Rightarrow> string \<Rightarrow> string \<Rightarrow> string \<Rightarrow> QuizEngine \<Rightarrow> grade \<times> QuizEngine" where
  "TryGrade cr gid now quizID answererID answer e =
     (case qe_local e quizID of
        None \<Rightarrow> (no_grade False False, e)
      | Some lo \<Rightarrow>
          if op_Expires (lo_open lo) \<noteq> 0 \<and> Unix now > sint (op_Expires (lo_open lo)) then (no_grade True False, e)
          else if answererID \<in> lo_awardedTo lo then (no_grade True True, e)
          else if hashAnswer cr answer \<noteq> lo_answerHash lo then (no_grade True False, e)
          else
            (\<lparr>gr_grant = make_grant cr gid now quizID answererID (op_Points (lo_open lo)) e, gr_correct = True,
              gr_authoritative = True, gr_already = False\<rparr>,
             e\<lparr>qe_local := (qe_local e)(quizID \<mapsto> lo\<lparr>lo_awardedTo := insert answererID (lo_awardedTo lo)\<rparr>)\<rparr>))"

definition GradeAnswer ::
  "crypto \<Rightarrow> string \<Rightarrow> gotime \<Rightarrow> string \<Rightarrow> string \<Rightarrow> string \<Rightarrow> QuizEngine \<Rightarrow> (QuizGrant \<times> bool) \<times> QuizEngine" where
  "GradeAnswer cr gid now quizID answererID answer e =
     (case TryGrade cr gid now quizID answererID answer e of (g, e') \<Rightarrow>
        if \<not> gr_correct g then ((zeroGrant, False), e') else ((gr_grant g, True), e'))"

subsection \<open>Resolving an abbreviated id\<close>

text \<open>One of the two search loops: \<open>None\<close> is the early return on an ambiguous prefix.\<close>

fun match_loop :: "string \<Rightarrow> string list \<Rightarrow> string \<Rightarrow> string option" where
  "match_loop pre [] match = Some match"
| "match_loop pre (i # is) match =
     (if prefix pre i then if match \<noteq> [] \<and> match \<noteq> i then None else match_loop pre is i
      else match_loop pre is match)"

definition ResolveQuizID :: "string list \<Rightarrow> string list \<Rightarrow> string \<Rightarrow> QuizEngine \<Rightarrow> string option" where
  "ResolveQuizID ks ls pre e =
     (if pre = [] then None
      else if qe_opens e pre \<noteq> None then Some pre
      else if qe_local e pre \<noteq> None then Some pre
      else case match_loop pre ks [] of
             None \<Rightarrow> None
           | Some m \<Rightarrow>
               (case match_loop pre ls m of
                  None \<Rightarrow> None
                | Some m' \<Rightarrow> if m' = [] then None else Some m'))"

text \<open>A series of graded answers: the grants that were issued.\<close>

type_synonym attempt = "string \<times> gotime \<times> string \<times> string \<times> string"

fun grade_all :: "crypto \<Rightarrow> attempt list \<Rightarrow> QuizEngine \<Rightarrow> QuizGrant list \<times> QuizEngine" where
  "grade_all cr [] e = ([], e)"
| "grade_all cr ((gid, now, q, p, a) # as) e =
     (case TryGrade cr gid now q p a e of (g, e1) \<Rightarrow>
        case grade_all cr as e1 of (gs, e2) \<Rightarrow> (if gr_correct g then gr_grant g # gs else gs, e2))"

subsection \<open>Normalisation\<close>

lemma Fields_from_blank: "\<forall>c \<in> set t. is_space c \<Longrightarrow> Fields_from cur t = Fields_from cur []"
  by (induction t arbitrary: cur) auto

lemma Fields_from_spaces: "\<forall>c \<in> set t. is_space c \<Longrightarrow> Fields_from cur (s @ t) = Fields_from cur s"
  by (induction s arbitrary: cur) (simp_all add: Fields_from_blank)

lemma Fields_TrimSpace: "Fields (TrimSpace s) = Fields s"
proof -
  have l: "Fields_from [] (dropWhile is_space s) = Fields_from [] s" for s
    by (induction s) auto
  have r: "Fields_from [] (rev (dropWhile is_space (rev s))) = Fields_from [] s" for s
  proof -
    have "Fields_from [] (rev (dropWhile is_space (rev s))) =
        Fields_from [] (rev (dropWhile is_space (rev s)) @ rev (takeWhile is_space (rev s)))"
      by (rule Fields_from_spaces [symmetric]) (auto dest: set_takeWhileD)
    also have "\<dots> = Fields_from [] (rev (takeWhile is_space (rev s) @ dropWhile is_space (rev s)))"
      by (simp only: rev_append)
    finally show ?thesis by simp
  qed
  show ?thesis by (simp add: Fields_def TrimSpace_def l r)
qed

definition word_ok :: "string \<Rightarrow> bool" where
  "word_ok w \<longleftrightarrow> w \<noteq> [] \<and> (\<forall>c \<in> set w. \<not> is_space c)"

lemma Fields_from_words:
  "\<forall>c \<in> set cur. \<not> is_space c \<Longrightarrow> \<forall>w \<in> set (Fields_from cur s). word_ok w"
proof (induction s arbitrary: cur)
  case Nil
  then show ?case by (simp add: word_ok_def)
next
  case (Cons c s)
  have "\<forall>w \<in> set (Fields_from [] s). word_ok w" using Cons.IH [of "[]"] by simp
  moreover have "\<not> is_space c \<Longrightarrow> \<forall>w \<in> set (Fields_from (cur @ [c]) s). word_ok w"
    using Cons.IH [of "cur @ [c]"] Cons.prems by simp
  ultimately show ?case using Cons.prems by (simp add: word_ok_def)
qed

lemma Fields_from_word: "\<forall>c \<in> set w. \<not> is_space c \<Longrightarrow> Fields_from cur (w @ s) = Fields_from (cur @ w) s"
  by (induction w arbitrary: cur) auto

lemma Fields_Join:
  assumes "\<forall>w \<in> set ws. word_ok w"
  shows "Fields (Join ws '' '') = ws"
proof -
  have sp: "is_space CHR '' ''" by (simp add: is_space_def)
  have "\<forall>w \<in> set ws. word_ok w \<Longrightarrow> Fields_from [] (Join ws '' '') = ws"
  proof (induction ws "'' ''" rule: Join.induct)
    case (2 w)
    then show ?case using Fields_from_word [of w "[]" "[]"] by (simp add: word_ok_def)
  next
    case (3 w v ws)
    then show ?case
      using Fields_from_word [of w "[]" "'' '' @ Join (v # ws) '' ''"] sp by (simp add: word_ok_def)
  qed simp
  with assms show ?thesis by (simp add: Fields_def)
qed

lemma normalizeAnswer_eq_iff:
  "normalizeAnswer a = normalizeAnswer b \<longleftrightarrow> Fields (ToLower a) = Fields (ToLower b)"
proof -
  have "\<forall>w \<in> set (Fields s). word_ok w" for s
    unfolding Fields_def by (rule Fields_from_words) simp
  then show ?thesis
    unfolding normalizeAnswer_def Fields_TrimSpace by (metis Fields_Join)
qed

subsection \<open>Grading\<close>

lemma TryGrade_correct_iff:
  "gr_correct (fst (TryGrade cr gid now q p a e)) \<longleftrightarrow>
     (\<exists>lo. qe_local e q = Some lo \<and> \<not> (op_Expires (lo_open lo) \<noteq> 0 \<and> Unix now > sint (op_Expires (lo_open lo))) \<and>
       p \<notin> lo_awardedTo lo \<and> hashAnswer cr a = lo_answerHash lo)"
  by (auto simp: TryGrade_def split: option.splits)

definition awarded :: "QuizEngine \<Rightarrow> string \<Rightarrow> string set" where
  "awarded e q = (case qe_local e q of None \<Rightarrow> {} | Some lo \<Rightarrow> lo_awardedTo lo)"

lemma TryGrade_awarded:
  "awarded (snd (TryGrade cr gid now q p a e)) q' =
     (if q' = q \<and> gr_correct (fst (TryGrade cr gid now q p a e)) then insert p (awarded e q) else awarded e q')"
  by (auto simp: TryGrade_def awarded_def split: option.splits)

lemma TryGrade_not_awarded: "gr_correct (fst (TryGrade cr gid now q p a e)) \<Longrightarrow> p \<notin> awarded e q"
  by (auto simp: TryGrade_def awarded_def split: option.splits if_splits)

lemma TryGrade_grant:
  "gr_correct (fst (TryGrade cr gid now q p a e)) \<Longrightarrow>
     \<exists>lo. qe_local e q = Some lo \<and>
       gr_grant (fst (TryGrade cr gid now q p a e)) = make_grant cr gid now q p (op_Points (lo_open lo)) e"
  by (auto simp: TryGrade_def split: option.splits if_splits)

lemma make_grant_simps [simp]:
  "g_GrantID (make_grant cr gid now q p n e) = gid" "g_QuizID (make_grant cr gid now q p n e) = q"
  "g_RecipientID (make_grant cr gid now q p n e) = p" "g_Points (make_grant cr gid now q p n e) = n"
  "g_GrantorID (make_grant cr gid now q p n e) = qe_selfPeerID e"
  "g_Timestamp (make_grant cr gid now q p n e) = word_of_int (Unix now)"
  by (simp_all add: make_grant_def Let_def)

lemma make_grant_signature:
  "g_Signature (make_grant cr gid now q p n e) =
     ed25519_sign cr (qe_priv e) (EncodeQuizGrantCanonical cr (make_grant cr gid now q p n e))"
  unfolding make_grant_def Let_def canonical_signature by simp

lemma EncodeToString_public_not_Nil: "ed25519_correct cr \<Longrightarrow> EncodeToString (ed25519_public cr priv) \<noteq> []"
proof (rule EncodeToString_not_Nil)
  assume "ed25519_correct cr"
  then have "length (ed25519_public cr priv) = 32" by (simp add: ed25519_correct_def)
  then show "ed25519_public cr priv \<noteq> []" by auto
qed

lemma awards_count:
  "length (filter (\<lambda>g. g_QuizID g = q \<and> g_RecipientID g = p) (fst (grade_all cr as e))) \<le>
     (if p \<in> awarded e q then 0 else 1)"
proof (induction cr as e rule: grade_all.induct)
  case (2 cr gid now q' p' a as e)
  obtain g e1 where t: "TryGrade cr gid now q' p' a e = (g, e1)" by fastforce
  obtain gs e2 where r: "grade_all cr as e1 = (gs, e2)" by fastforce
  have IH: "length (filter (\<lambda>g. g_QuizID g = q \<and> g_RecipientID g = p) gs) \<le> (if p \<in> awarded e1 q then 0 else 1)"
    using 2 [OF t [symmetric]] r by simp
  have aw: "awarded e1 q = (if q = q' \<and> gr_correct g then insert p' (awarded e q) else awarded e q)"
    using TryGrade_awarded [of cr gid now q' p' a e q] t by auto
  show ?case
  proof (cases "gr_correct g")
    case True
    then have "g_QuizID (gr_grant g) = q'" "g_RecipientID (gr_grant g) = p'" "p' \<notin> awarded e q'"
      using TryGrade_grant [of cr gid now q' p' a e] TryGrade_not_awarded [of cr gid now q' p' a e] t by auto
    with True IH aw show ?thesis by (auto simp: t r split: if_splits)
  qed (use IH aw in \<open>simp add: t r\<close>)
qed simp

subsection \<open>Resolving ids\<close>

text \<open>The ids the loop has to choose from, and the choice: none, the only one, or ambiguous.\<close>

definition match_cands :: "string \<Rightarrow> string list \<Rightarrow> string \<Rightarrow> string set" where
  "match_cands pre is m = {i \<in> set is. prefix pre i} \<union> (if m = [] then {} else {m})"

lemma match_cands_simps:
  "match_cands pre [] m = (if m = [] then {} else {m})"
  "\<not> prefix pre i \<Longrightarrow> match_cands pre (i # is) m = match_cands pre is m"
  "prefix pre i \<Longrightarrow> i \<noteq> [] \<Longrightarrow> m = [] \<or> m = i \<Longrightarrow> match_cands pre (i # is) m = match_cands pre is i"
  by (auto simp: match_cands_def)

lemma match_loop_spec:
  assumes "pre \<noteq> []"
  shows "match_loop pre is m = Some m' \<longleftrightarrow>
    (if match_cands pre is m = {} then m' = [] else match_cands pre is m = {m'})"
proof (induction "is" arbitrary: m)
  case Nil
  show ?case by (auto simp: match_cands_simps)
next
  case (Cons i js)
  consider "\<not> prefix pre i" | "prefix pre i" "m = [] \<or> m = i" | "prefix pre i" "m \<noteq> []" "m \<noteq> i" by blast
  then show ?case
  proof cases
    case 1
    then show ?thesis using Cons [of m] by (simp add: match_cands_simps)
  next
    case 2
    then have "i \<noteq> []" using assms by auto
    with 2 have "match_cands pre (i # js) m = match_cands pre js i" by (simp add: match_cands_simps(3))
    moreover have "match_loop pre (i # js) m = match_loop pre js i" using 2 by auto
    ultimately show ?thesis using Cons [of i] by simp
  next
    case 3
    then have "i \<in> match_cands pre (i # js) m" "m \<in> match_cands pre (i # js) m" by (auto simp: match_cands_def)
    then have "match_cands pre (i # js) m \<noteq> {} \<and> match_cands pre (i # js) m \<noteq> {m'}"
      using \<open>m \<noteq> i\<close> by (metis empty_iff singletonD)
    moreover have "match_loop pre (i # js) m = None" using 3 by simp
    ultimately show ?thesis by simp
  qed
qed

lemma match_loop_append:
  "match_loop pre (ks @ ls) m = (case match_loop pre ks m of None \<Rightarrow> None | Some m' \<Rightarrow> match_loop pre ls m')"
  by (induction ks arbitrary: m) auto

lemma match_loop_two:
  "(case match_loop pre ks [] of
      None \<Rightarrow> None
    | Some m \<Rightarrow> (case match_loop pre ls m of None \<Rightarrow> None | Some m' \<Rightarrow> if m' = [] then None else Some m')) =
   (case match_loop pre (ks @ ls) [] of None \<Rightarrow> None | Some m' \<Rightarrow> if m' = [] then None else Some m')"
  by (simp add: match_loop_append split: option.splits)

subsection \<open>Properties\<close>

text \<open>C13: a quiz pays each player at most once, whatever answers arrive, in whatever order and however
  often; and every grant issued answers a quiz this node opened, within its time, with the stored answer.\<close>

theorem quiz_awards_once:
  "length (filter (\<lambda>g. g_QuizID g = q \<and> g_RecipientID g = p) (fst (grade_all cr as e))) \<le> 1 \<and>
   (gr_correct (fst (TryGrade cr gid now q p a e)) \<longleftrightarrow>
     (\<exists>lo. qe_local e q = Some lo \<and> (op_Expires (lo_open lo) = 0 \<or> Unix now \<le> sint (op_Expires (lo_open lo))) \<and>
       p \<notin> lo_awardedTo lo \<and> hashAnswer cr a = lo_answerHash lo))"
  using awards_count [of q p cr as e] by (auto simp: TryGrade_correct_iff split: if_splits)

text \<open>C17: a correct answer is paid end to end: when a node opens a quiz and, before it expires, a player
  answers with the same words up to case and spacing, grading issues a grant that every ledger with a clock
  in the accepted window credits with the quiz's points, and a second answer of the player is reported as
  already awarded.\<close>

theorem correct_answer_credited:
  assumes "ed25519_correct cr" "qid \<noteq> []" "gid \<noteq> []" "p \<noteq> []" "points \<noteq> 0"
    and "Fields (ToLower a') = Fields (ToLower a)"
    and "ttl \<le> 0 \<or> Unix now' \<le> Unix (now + ttl)" "Unix (now + ttl) < 2 ^ 63" "- (2 ^ 63) \<le> Unix (now + ttl)"
    and "- (2 ^ 63) \<le> Unix now'" "Unix now' < 2 ^ 63"
    and "Unix now' \<le> Unix t + 60" "Unix t - 60 * 60 * 24 * 365 \<le> Unix now'" "lg_grants l gid = None"
  shows "let e1 = snd (CreateOpen cr qid now question a points ttl
                   (NewQuizEngine name priv (ed25519_public cr priv)));
             (g, e2) = TryGrade cr gid now' qid p a' e1; (ok, l') = ApplyGrant cr t (gr_grant g) l
         in gr_correct g \<and> ok \<and> Total l' p = Total l p + points \<and>
            gr_already (fst (TryGrade cr gid' now' qid p a'' e2))"
proof -
  let ?e = "NewQuizEngine name priv (ed25519_public cr priv)"
  let ?e1 = "snd (CreateOpen cr qid now question a points ttl ?e)"
  obtain lo where lo: "qe_local ?e1 qid = Some lo" "lo_answerHash lo = hashAnswer cr a" "lo_awardedTo lo = {}"
    "op_Points (lo_open lo) = points"
    "op_Expires (lo_open lo) = (if ttl > 0 then word_of_int (Unix (now + ttl)) else 0)"
    by (simp add: CreateOpen_def open_of_def Let_def)
  have e1: "qe_selfPeerID ?e1 = EncodeToString (ed25519_public cr priv)" "qe_priv ?e1 = priv"
    by (simp_all add: CreateOpen_def NewQuizEngine_def PlayerIDFromPub_def Let_def)
  have hash: "hashAnswer cr a' = hashAnswer cr a"
    using assms(6) normalizeAnswer_eq_iff [of a' a] by (simp add: hashAnswer_def)
  have range: "sint (word_of_int k :: int64) = k" if "- (2 ^ 63) \<le> k" "k < 2 ^ 63" for k :: int
    unfolding sint_sbintrunc' using that by (intro signed_take_bit_int_eq_self) simp_all
  have live: "\<not> (op_Expires (lo_open lo) \<noteq> 0 \<and> Unix now' > sint (op_Expires (lo_open lo)))"
    using assms(7-9) lo(5) range [of "Unix (now + ttl)"] by (auto split: if_splits)
  let ?g = "make_grant cr gid now' qid p points ?e1"
  let ?e2 = "?e1\<lparr>qe_local := (qe_local ?e1)(qid \<mapsto> lo\<lparr>lo_awardedTo := insert p (lo_awardedTo lo)\<rparr>)\<rparr>"
  have graded: "TryGrade cr gid now' qid p a' ?e1 =
      (\<lparr>gr_grant = ?g, gr_correct = True, gr_authoritative = True, gr_already = False\<rparr>, ?e2)"
    using lo hash live by (simp add: TryGrade_def)
  have again: "gr_already (fst (TryGrade cr gid' now' qid p a'' ?e2))"
    using live by (simp add: TryGrade_def)
  have ts: "sint (word_of_int (Unix now') :: int64) = Unix now'" using assms(10,11) by (rule range)
  have "VerifyGrant cr t ?g = None"
    using assms(1-5,12,13) ts e1 make_grant_signature [of cr gid now' qid p points ?e1]
      EncodeToString_public_not_Nil [of cr priv]
    by (simp add: VerifyGrant_def ed25519_correct_def)
  then have "ApplyGrant cr t ?g l = (True, l\<lparr>lg_grants := (lg_grants l)(gid \<mapsto> ?g),
      lg_totals := (lg_totals l)(p \<mapsto> Total l p + points)\<rparr>)"
    using assms(14) by (simp add: ApplyGrant_def)
  then show ?thesis
    using again by (simp add: graded Let_def) (simp add: Total_def)
qed

theorem correct_answer_credited_witness:
  "Total (snd (ApplyGrant demo_crypto sample_now (gr_grant (fst (TryGrade demo_crypto ''g1'' sample_now ''q1'' ''r1''
      ''tHE  cat '' (snd (CreateOpen demo_crypto ''q1'' sample_now ''who?'' ''The cat'' 5 0
        (NewQuizEngine ''n'' [7] (ed25519_public demo_crypto [7]))))))) NewLedger)) ''r1'' = 5"
proof -
  have f: "Fields (ToLower ''tHE  cat '') = Fields (ToLower ''The cat'')" by code_simp
  show ?thesis
    using correct_answer_credited [of demo_crypto "''q1''" "''g1''" "''r1''" 5 "''tHE  cat ''" "''The cat''" 0 sample_now
        sample_now sample_now NewLedger "''who?''" "''n''" "[7]" "[]" "[]"] f
    by (simp add: Let_def Unix_def sample_now_def NewLedger_def Total_def split: prod.splits)
qed

text \<open>An abbreviated quiz id resolves to a known id exactly when it is that id or is a prefix of that
  id and of no other; the order in which the maps are traversed does not matter.\<close>

lemma resolve_quiz_id_unique:
  assumes "set ks = dom (qe_opens e)" "set ls = dom (qe_local e)"
  shows "ResolveQuizID ks ls pre e = Some i \<longleftrightarrow>
    (let known = dom (qe_opens e) \<union> dom (qe_local e) in
     pre \<noteq> [] \<and> (if pre \<in> known then i = pre else {j \<in> known. prefix pre j} = {i}))"
proof (cases "pre = [] \<or> pre \<in> dom (qe_opens e) \<union> dom (qe_local e)")
  case True
  then show ?thesis by (auto simp: ResolveQuizID_def Let_def)
next
  case False
  have c: "match_cands pre (ks @ ls) [] = {j \<in> dom (qe_opens e) \<union> dom (qe_local e). prefix pre j}"
    using assms by (simp add: match_cands_def)
  have "[] \<notin> match_cands pre (ks @ ls) []" using False by (simp add: match_cands_def)
  then have "match_cands pre (ks @ ls) [] \<noteq> {[]}" by (metis singletonI)
  moreover have "ResolveQuizID ks ls pre e = Some i \<longleftrightarrow> match_loop pre (ks @ ls) [] = Some i \<and> i \<noteq> []"
    using False unfolding ResolveQuizID_def match_loop_two by (auto simp: domIff split: option.splits)
  ultimately show ?thesis
    using False match_loop_spec [of pre "ks @ ls" "[]" i] unfolding Let_def c [symmetric]
    by (cases "match_cands pre (ks @ ls) [] = {}") auto
qed

end
