(* ===== verification/GrantStore.thy ===== *)
theory GrantStore
  imports Grants Codec
begin

text \<open>
  The persistent grant store (\<^verbatim>\<open>internal/storage/grantsbolt/store.go\<close>), three buckets of a bbolt database: grants
  by id, an index by timestamp, and metadata. bbolt is not part of the repository: \<open>bolt\<close> holds the bucket
  operations the code calls and \<open>bolt_ok\<close> their documented behaviour. Grants are
  stored as JSON (\<open>Codec\<close>). A transaction that fails, or whose commit fails, is rolled back.
\<close>

subsection \<open>bbolt and JSON\<close>

record 'b bolt =
  bk_new :: 'b
  bk_get :: "'b \<Rightarrow> bytes \<Rightarrow> bytes option"
  bk_put :: "'b \<Rightarrow> bytes \<Rightarrow> bytes \<Rightarrow> string + 'b"
  bk_keys :: "'b \<Rightarrow> bytes list"

text \<open>Documented behaviour of a bucket: a map whose cursor visits the keys in byte order.\<close>

definition bolt_ok :: "'b bolt \<Rightarrow> bool" where
  "bolt_ok bk \<longleftrightarrow>
     (\<forall>k. bk_get bk (bk_new bk) k = None) \<and>
     (\<forall>b k v b' k'. bk_put bk b k v = Inr b' \<longrightarrow> bk_get bk b' k' = (if k' = k then Some v else bk_get bk b k')) \<and>
     (\<forall>b. sorted_wrt (<) (bk_keys bk b) \<and> set (bk_keys bk b) = {k. bk_get bk b k \<noteq> None})"

text \<open>\<^verbatim>\<open>json.Marshal\<close> and \<^verbatim>\<open>json.Unmarshal\<close> of a grant. Bytes that are not UTF-8 come back as the replacement character.\<close>

definition Marshal_grant :: "QuizGrant \<Rightarrow> bytes" where
  "Marshal_grant g = Marshal_bytes enc_grant g"

definition Unmarshal_grant :: "bytes \<Rightarrow> QuizGrant option" where
  "Unmarshal_grant = Unmarshal_bytes (\<lambda>j. dec_grant j zero_grant)"

lemma Unmarshal_Marshal [simp]: "Unmarshal_grant (Marshal_grant g) = Some (clean_grant g)"
proof -
  obtain ms where ms: "enc_grant g = JObject ms"
    by (simp add: enc_grant_def)
  then have "json_wf (JObject ms)" "depth (JObject ms) \<le> maxNestingDepth"
    using wf_structs(3) [of g] depth_messages(3) [of g] by (simp_all add: maxNestingDepth_def del: depth.simps)
  from parse_print [OF this, of "[]"] show ?thesis
    using clean_enc_grant [of g]
    by (simp add: Unmarshal_grant_def Marshal_grant_def Unmarshal_bytes_def Marshal_bytes_def ms dec_grant_enc del: print_json.simps clean.simps)
qed

lemma clean_grant_simps [simp]: "g_Timestamp (clean_grant g) = g_Timestamp g" "g_GrantID (clean_grant g) = sanitize (g_GrantID g)"
  by (simp_all add: clean_grant_def)

subsection \<open>Keys\<close>

definition tsKey :: "int64 \<Rightarrow> string \<Rightarrow> bytes" where
  "tsKey ts grantID = PutUint64 ts @ [0] @ bytes_of grantID"

definition splitTSKey :: "bytes \<Rightarrow> int64 \<times> string" where
  "splitTSKey k = (if length k < 9 then (0, []) else (Uint64 (take 8 k), string_of (drop 9 k)))"

definition encodeI64 :: "int64 \<Rightarrow> bytes" where
  "encodeI64 v = PutUint64 v"

text \<open>An absent value is a nil slice, of length 0.\<close>

definition decodeI64 :: "bytes option \<Rightarrow> int64" where
  "decodeI64 b = (case b of None \<Rightarrow> 0 | Some bs \<Rightarrow> if length bs \<noteq> 8 then 0 else Uint64 bs)"

subsection \<open>The store\<close>

record 'b GrantDB =
  db_meta :: 'b
  db_byID :: 'b
  db_byTS :: 'b

definition kMaxTS :: bytes where
  "kMaxTS = bytes_of ''max_ts''"

text \<open>A database file is the buckets it holds by name; \<open>mkdirErr\<close>, \<open>opened\<close>, \<open>createErr\<close> and
  \<open>commitErr\<close> are the outcomes of the calls to the operating system and to bbolt.\<close>

definition OpenStore ::
  "'b bolt \<Rightarrow> string option \<Rightarrow> string + (string \<rightharpoonup> 'b) \<Rightarrow> (string \<Rightarrow> string option) \<Rightarrow> string option \<Rightarrow> string \<Rightarrow>
     string + 'b GrantDB" where
  "OpenStore bk mkdirErr opened createErr commitErr path =
     (if path = [] then Inl ''empty db path''
      else case mkdirErr of
        Some err \<Rightarrow> Inl err
      | None \<Rightarrow>
          (case opened of
             Inl err \<Rightarrow> Inl err
           | Inr file \<Rightarrow>
               let create = (\<lambda>name. case file name of Some b \<Rightarrow> b | None \<Rightarrow> bk_new bk)
               in case createErr ''meta'' of
                    Some err \<Rightarrow> Inl err
                  | None \<Rightarrow>
                      (case createErr ''grants_by_id'' of
                         Some err \<Rightarrow> Inl err
                       | None \<Rightarrow>
                           (case createErr ''grants_by_ts'' of
                              Some err \<Rightarrow> Inl err
                            | None \<Rightarrow>
                                (case commitErr of
                                   Some err \<Rightarrow> Inl err
                                 | None \<Rightarrow> Inr \<lparr>db_meta = create ''meta'', db_byID = create ''grants_by_id'',
                                                db_byTS = create ''grants_by_ts''\<rparr>)))))"

text \<open>The body of the transaction of \<^verbatim>\<open>Put\<close>: the flag \<open>inserted\<close>, and the new buckets or an error.\<close>

definition put_tx :: "'b bolt \<Rightarrow> bytes \<Rightarrow> QuizGrant \<Rightarrow> 'b GrantDB \<Rightarrow> bool \<times> (string + 'b GrantDB)" where
  "put_tx bk val g db =
     (if bk_get bk (db_byID db) (bytes_of (g_GrantID g)) \<noteq> None then (False, Inr db)
      else case bk_put bk (db_byID db) (bytes_of (g_GrantID g)) val of
        Inl err \<Rightarrow> (False, Inl err)
      | Inr byID \<Rightarrow>
          (case bk_put bk (db_byTS db) (tsKey (g_Timestamp g) (g_GrantID g)) [] of
             Inl err \<Rightarrow> (False, Inl err)
           | Inr byTS \<Rightarrow>
               let cur = decodeI64 (bk_get bk (db_meta db) kMaxTS)
               in if sint (g_Timestamp g) > sint cur
                  then case bk_put bk (db_meta db) kMaxTS (encodeI64 (g_Timestamp g)) of
                         Inl err \<Rightarrow> (False, Inl err)
                       | Inr meta \<Rightarrow> (True, Inr \<lparr>db_meta = meta, db_byID = byID, db_byTS = byTS\<rparr>)
                  else (True, Inr (db\<lparr>db_byID := byID, db_byTS := byTS\<rparr>))))"

definition PutGrant ::
  "'b bolt \<Rightarrow> string option \<Rightarrow> QuizGrant \<Rightarrow> 'b GrantDB \<Rightarrow> (bool \<times> string option) \<times> 'b GrantDB" where
  "PutGrant bk commitErr g db =
     (if g_GrantID g = [] then ((False, Some ''missing grant id''), db)
      else case put_tx bk (Marshal_grant g) g db of
        (inserted, Inl err) \<Rightarrow> ((inserted, Some err), db)
      | (inserted, Inr db') \<Rightarrow>
          (case commitErr of
             Some err \<Rightarrow> ((inserted, Some err), db)
           | None \<Rightarrow> ((inserted, None), db')))"

definition MaxTimestamp :: "'b bolt \<Rightarrow> 'b GrantDB \<Rightarrow> int64" where
  "MaxTimestamp bk db = decodeI64 (bk_get bk (db_meta db) kMaxTS)"

fun recent_loop :: "(bytes \<Rightarrow> bytes option) \<Rightarrow> nat \<Rightarrow> bytes list \<Rightarrow> string list \<Rightarrow> string list" where
  "recent_loop byID n [] out = out"
| "recent_loop byID n (k # ks) out =
     (if \<not> length out < n then out
      else let id = snd (splitTSKey k)
           in if id = [] then recent_loop byID n ks out
              else if byID (bytes_of id) \<noteq> None then recent_loop byID n ks (out @ [id])
              else recent_loop byID n ks out)"

definition RecentGrantIDs :: "'b bolt \<Rightarrow> int \<Rightarrow> 'b GrantDB \<Rightarrow> string list" where
  "RecentGrantIDs bk n db =
     (if n \<le> 0 then []
      else recent_loop (bk_get bk (db_byID db)) (nat n) (rev (bk_keys bk (db_byTS db))) [])"

fun list_loop :: "(bytes \<Rightarrow> bytes option) \<Rightarrow> nat \<Rightarrow> bytes list \<Rightarrow> QuizGrant list \<Rightarrow> QuizGrant list" where
  "list_loop byID limit [] out = out"
| "list_loop byID limit (k # ks) out =
     (if \<not> length out < limit then out
      else let id = snd (splitTSKey k)
           in if id = [] then list_loop byID limit ks out
              else case byID (bytes_of id) of
                     None \<Rightarrow> list_loop byID limit ks out
                   | Some raw \<Rightarrow>
                       (case Unmarshal_grant raw of
                          None \<Rightarrow> list_loop byID limit ks out
                        | Some g \<Rightarrow> list_loop byID limit ks (out @ [g])))"

definition ListSince :: "'b bolt \<Rightarrow> int64 \<Rightarrow> int \<Rightarrow> 'b GrantDB \<Rightarrow> QuizGrant list" where
  "ListSince bk since limit db =
     list_loop (bk_get bk (db_byID db)) (nat (if limit \<le> 0 then 500 else limit))
       (dropWhile (\<lambda>k. k < tsKey since []) (bk_keys bk (db_byTS db))) []"

text \<open>\<^verbatim>\<open>LoadAll\<close> with a callback that updates a state and may fail.\<close>

fun load_loop ::
  "(bytes \<Rightarrow> bytes option) \<Rightarrow> (QuizGrant \<Rightarrow> 's \<Rightarrow> string option \<times> 's) \<Rightarrow> bytes list \<Rightarrow> 's \<Rightarrow> string option \<times> 's" where
  "load_loop byID fn [] s = (None, s)"
| "load_loop byID fn (k # ks) s =
     (let id = snd (splitTSKey k)
      in if id = [] then load_loop byID fn ks s
         else case byID (bytes_of id) of
                None \<Rightarrow> load_loop byID fn ks s
              | Some raw \<Rightarrow>
                  (case Unmarshal_grant raw of
                     None \<Rightarrow> load_loop byID fn ks s
                   | Some g \<Rightarrow>
                       (case fn g s of
                          (Some err, s') \<Rightarrow> (Some err, s')
                        | (None, s') \<Rightarrow> load_loop byID fn ks s')))"

definition LoadAll ::
  "'b bolt \<Rightarrow> (QuizGrant \<Rightarrow> 's \<Rightarrow> string option \<times> 's) \<Rightarrow> 'b GrantDB \<Rightarrow> 's \<Rightarrow> string option \<times> 's" where
  "LoadAll bk fn db s = load_loop (bk_get bk (db_byID db)) fn (bk_keys bk (db_byTS db)) s"

subsection \<open>Order of the index keys\<close>

lemma append_less_same_length:
  fixes a b :: "'a :: linorder list"
  shows "length a = length b \<Longrightarrow> a @ x < b @ y \<longleftrightarrow> a < b \<or> a = b \<and> x < y"
  by (induction a b rule: list_induct2) auto

lemma splitTSKey_tsKey [simp, codec_simps]: "splitTSKey (tsKey ts i) = (ts, i)"
proof -
  have "take 8 (PutUint64 ts @ [0] @ bytes_of i) = PutUint64 ts" by simp
  moreover have "Uint64 (PutUint64 ts) = ts" using Uint64_PutUint64 [of ts "[]"] by simp
  ultimately show ?thesis by (simp add: splitTSKey_def tsKey_def)
qed

lemma tsKey_less: "tsKey a i < tsKey b j \<longleftrightarrow> unat a < unat b \<or> a = b \<and> bytes_of i < bytes_of j"
  unfolding tsKey_def by (simp add: append_less_same_length PutUint64_less)

lemma tsKey_inject [simp]: "tsKey a i = tsKey b j \<longleftrightarrow> a = b \<and> i = j"
  by (metis prod.inject splitTSKey_tsKey)

lemma tsKey_seek: "tsKey ts i < tsKey since [] \<longleftrightarrow> unat ts < unat since"
proof -
  have "bytes_of [] = []" by (simp add: bytes_of_def)
  then show ?thesis by (simp add: tsKey_less)
qed

lemma decodeI64_encodeI64 [simp, codec_simps]: "decodeI64 (Some (encodeI64 v)) = v"
  using Uint64_PutUint64 [of v "[]"] by (simp add: decodeI64_def encodeI64_def)

subsection \<open>The loops as list functions\<close>

text \<open>The id and the grant that an index key leads to.\<close>

definition grant_at :: "(bytes \<Rightarrow> bytes option) \<Rightarrow> bytes \<Rightarrow> (string \<times> QuizGrant) option" where
  "grant_at byID k = (let id = snd (splitTSKey k)
     in if id = [] then None else map_option (Pair id) (Option.bind (byID (bytes_of id)) Unmarshal_grant))"

lemma list_loop_eq:
  "list_loop byID limit ks out = out @ take (limit - length out) (map snd (List.map_filter (grant_at byID) ks))"
proof (induction ks arbitrary: out)
  case (Cons k ks)
  then show ?case
    by (auto simp: grant_at_def Let_def List.map_filter_simps Suc_diff_Suc [symmetric] split: option.splits)
qed (simp add: List.map_filter_simps)

lemma recent_loop_eq:
  "recent_loop byID n ks out = out @ take (n - length out)
     (filter (\<lambda>i. i \<noteq> [] \<and> byID (bytes_of i) \<noteq> None) (map (snd \<circ> splitTSKey) ks))"
proof (induction ks arbitrary: out)
  case (Cons k ks)
  then show ?case by (auto simp: Let_def Suc_diff_Suc [symmetric])
qed simp

lemma load_loop_collect:
  "load_loop byID (\<lambda>g gs. (None, gs @ [g])) ks acc = (None, acc @ map snd (List.map_filter (grant_at byID) ks))"
  by (induction ks arbitrary: acc) (auto simp: grant_at_def Let_def List.map_filter_simps split: option.splits)

lemma dropWhile_sorted_filter:
  "sorted_wrt (<) (ks :: 'a :: linorder list) \<Longrightarrow> dropWhile (\<lambda>k. k < s) ks = filter (\<lambda>k. \<not> k < s) ks"
  by (induction ks) (auto simp: filter_id_conv intro!: filter_True [symmetric] dest: less_trans)

subsection \<open>The index invariant\<close>

definition stored :: "'b bolt \<Rightarrow> 'b GrantDB \<Rightarrow> string \<rightharpoonup> QuizGrant" where
  "stored bk db i = Option.bind (bk_get bk (db_byID db) (bytes_of i)) Unmarshal_grant"

definition held :: "'b bolt \<Rightarrow> 'b GrantDB \<Rightarrow> (string \<times> QuizGrant) set" where
  "held bk db = Map.graph (stored bk db)"

lemma in_held [simp]: "(i, g) \<in> held bk db \<longleftrightarrow> stored bk db i = Some g"
  by (simp add: held_def Map.graph_def)

abbreviation index_key :: "string \<times> QuizGrant \<Rightarrow> bytes" where
  "index_key x \<equiv> tsKey (g_Timestamp (snd x)) (fst x)"

definition byID_inv :: "'b bolt \<Rightarrow> 'b GrantDB \<Rightarrow> bool" where
  "byID_inv bk db \<longleftrightarrow> (\<forall>k v. bk_get bk (db_byID db) k = Some v \<longrightarrow>
     (\<exists>g. k = bytes_of (g_GrantID g) \<and> g_GrantID g \<noteq> [] \<and> v = Marshal_grant g))"

definition max_inv :: "'b bolt \<Rightarrow> 'b GrantDB \<Rightarrow> bool" where
  "max_inv bk db \<longleftrightarrow> 0 \<le> sint (MaxTimestamp bk db) \<and>
     (\<forall>g \<in> ran (stored bk db). sint (g_Timestamp g) \<le> sint (MaxTimestamp bk db)) \<and>
     (MaxTimestamp bk db = 0 \<or> (\<exists>g \<in> ran (stored bk db). g_Timestamp g = MaxTimestamp bk db))"

definition db_inv :: "'b bolt \<Rightarrow> 'b GrantDB \<Rightarrow> bool" where
  "db_inv bk db \<longleftrightarrow> byID_inv bk db \<and>
     {k. bk_get bk (db_byTS db) k \<noteq> None} = index_key ` held bk db \<and> max_inv bk db"

definition empty_db :: "'b bolt \<Rightarrow> 'b GrantDB" where
  "empty_db bk = \<lparr>db_meta = bk_new bk, db_byID = bk_new bk, db_byTS = bk_new bk\<rparr>"

lemma stored_empty: "bolt_ok bk \<Longrightarrow> stored bk (empty_db bk) = Map.empty"
  by (auto simp: bolt_ok_def stored_def empty_db_def)

lemma empty_db_inv: "bolt_ok bk \<Longrightarrow> db_inv bk (empty_db bk)"
  using stored_empty [of bk]
  by (simp add: db_inv_def max_inv_def held_def) (simp add: bolt_ok_def byID_inv_def empty_db_def MaxTimestamp_def decodeI64_def)

lemma stored_None: "byID_inv bk db \<Longrightarrow> stored bk db i = None \<longleftrightarrow> bk_get bk (db_byID db) (bytes_of i) = None"
  unfolding stored_def byID_inv_def by (cases "bk_get bk (db_byID db) (bytes_of i)") (simp, fastforce)

lemma stored_id: "byID_inv bk db \<Longrightarrow> stored bk db i = Some g \<Longrightarrow> i \<noteq> []"
  unfolding stored_def byID_inv_def by (metis bind_eq_Some_conv bytes_of_inject)

text \<open>A transaction inserts the grant in both buckets and raises the maximum, or changes nothing.\<close>

lemma put_txE:
  assumes "put_tx bk v g db = (ins, Inr db')"
  obtains (dup) "\<not> ins" "db' = db" "bk_get bk (db_byID db) (bytes_of (g_GrantID g)) \<noteq> None"
  | (new) byID byTS meta where "ins" "db' = \<lparr>db_meta = meta, db_byID = byID, db_byTS = byTS\<rparr>"
      "bk_get bk (db_byID db) (bytes_of (g_GrantID g)) = None"
      "bk_put bk (db_byID db) (bytes_of (g_GrantID g)) v = Inr byID"
      "bk_put bk (db_byTS db) (tsKey (g_Timestamp g) (g_GrantID g)) [] = Inr byTS"
      "if sint (g_Timestamp g) > sint (MaxTimestamp bk db)
       then bk_put bk (db_meta db) kMaxTS (encodeI64 (g_Timestamp g)) = Inr meta else meta = db_meta db"
  using assms by (auto simp: put_tx_def MaxTimestamp_def Let_def split: if_splits sum.splits)

lemma put_tx_new:
  assumes ok: "bolt_ok bk" and inv: "db_inv bk db" and "g_GrantID g \<noteq> []"
    and tx: "put_tx bk (Marshal_grant g) g db = (True, Inr db')"
  shows "db_inv bk db' \<and> stored bk db (g_GrantID g) = None \<and> stored bk db' = (stored bk db)(g_GrantID g \<mapsto> clean_grant g)"
  using tx
proof (cases rule: put_txE)
  case (new byID byTS meta)
  let ?k = "tsKey (g_Timestamp g) (g_GrantID g)"
  have get: "bk_get bk (db_byID db') k = (if k = bytes_of (g_GrantID g) then Some (Marshal_grant g) else bk_get bk (db_byID db) k)"
    "bk_get bk (db_byTS db') k = (if k = ?k then Some [] else bk_get bk (db_byTS db) k)" for k
    using ok new(2,4,5) unfolding bolt_ok_def by auto
  have max: "MaxTimestamp bk db' = (if sint (g_Timestamp g) > sint (MaxTimestamp bk db) then g_Timestamp g
      else MaxTimestamp bk db)"
    using ok new(2,6) unfolding bolt_ok_def MaxTimestamp_def by (auto split: if_splits)
  have st: "stored bk db' = (stored bk db)(g_GrantID g \<mapsto> clean_grant g)"
    by (auto simp: stored_def get)
  have no: "stored bk db (g_GrantID g) = None" using new(3) by (simp add: stored_def)
  then have hd: "held bk db' = insert (g_GrantID g, clean_grant g) (held bk db)" by (auto split: if_splits simp: st)
  have rn: "ran (stored bk db') = insert (clean_grant g) (ran (stored bk db))" using no by (simp add: st)
  have "byID_inv bk db'"
    using inv assms(3) unfolding db_inv_def byID_inv_def get by auto
  moreover have "{k. bk_get bk (db_byTS db') k \<noteq> None} = index_key ` held bk db'"
    using inv unfolding db_inv_def hd get by auto
  moreover have "max_inv bk db'"
    using inv unfolding db_inv_def max_inv_def rn max by auto
  ultimately show ?thesis using st no by (simp add: db_inv_def)
qed simp

lemma PutGrant_cases:
  assumes "bolt_ok bk" "db_inv bk db"
  obtains (same) "snd (PutGrant bk ce g db) = db" "fst (PutGrant bk ce g db) \<noteq> (True, None)"
  | (new) db' where "PutGrant bk ce g db = ((True, None), db')" "g_GrantID g \<noteq> []" "db_inv bk db'"
      "stored bk db (g_GrantID g) = None" "stored bk db' = (stored bk db)(g_GrantID g \<mapsto> clean_grant g)"
proof (cases "g_GrantID g = []")
  case True
  then show ?thesis using same by (simp add: PutGrant_def)
next
  case False
  obtain ins r where tx: "put_tx bk (Marshal_grant g) g db = (ins, r)" by fastforce
  show ?thesis
  proof (cases r)
    case (Inl e)
    then show ?thesis using same False tx by (simp add: PutGrant_def)
  next
    case (Inr db')
    show ?thesis
    proof (cases "ins \<and> ce = None")
      case True
      then show ?thesis
        using new [of db'] put_tx_new [OF assms False] False tx Inr by (simp add: PutGrant_def)
    next
      case c: False
      then have "\<not> ins \<Longrightarrow> db' = db" using tx Inr by (auto elim: put_txE)
      then show ?thesis using same c False tx Inr by (auto simp: PutGrant_def split: option.splits)
    qed
  qed
qed

subsection \<open>Reading through the index\<close>

text \<open>A history of \<^verbatim>\<open>Put\<close> calls, each with the outcome of its commit.\<close>

fun put_all :: "'b bolt \<Rightarrow> (QuizGrant \<times> string option) list \<Rightarrow> 'b GrantDB \<Rightarrow> 'b GrantDB" where
  "put_all bk [] db = db"
| "put_all bk ((g, ce) # ps) db = put_all bk ps (snd (PutGrant bk ce g db))"

lemma PutGrant_inv [inv_intros]:
  assumes "bolt_ok bk" "db_inv bk db"
  shows "db_inv bk (snd (PutGrant bk ce g db))"
  by (rule PutGrant_cases [OF assms, of ce g]) (use assms in simp_all)

lemma put_all_inv: "bolt_ok bk \<Longrightarrow> db_inv bk db \<Longrightarrow> db_inv bk (put_all bk ps db)"
  by (induction bk ps db rule: put_all.induct) (simp_all add: PutGrant_inv)

definition scan :: "'b bolt \<Rightarrow> 'b GrantDB \<Rightarrow> (string \<times> QuizGrant) list" where
  "scan bk db = List.map_filter (grant_at (bk_get bk (db_byID db))) (bk_keys bk (db_byTS db))"

lemma set_map_filter: "set (List.map_filter f xs) = {y. \<exists>x \<in> set xs. f x = Some y}"
  by (induction xs) (auto simp: List.map_filter_simps split: option.splits)

lemma grant_at_index_key:
  assumes "byID_inv bk db" "x \<in> held bk db"
  shows "grant_at (bk_get bk (db_byID db)) (index_key x) = Some x"
  using assms stored_id [of bk db "fst x" "snd x"] by (cases x) (simp add: grant_at_def stored_def Let_def)

lemma scan_index:
  assumes "bolt_ok bk" "db_inv bk db"
  shows "map index_key (scan bk db) = bk_keys bk (db_byTS db) \<and> set (scan bk db) = held bk db"
proof -
  let ?at = "grant_at (bk_get bk (db_byID db))"
  have keys: "set (bk_keys bk (db_byTS db)) = index_key ` held bk db"
    using assms unfolding bolt_ok_def db_inv_def by simp
  have at: "x \<in> held bk db \<Longrightarrow> ?at (index_key x) = Some x" for x
    using assms(2) grant_at_index_key unfolding db_inv_def by blast
  have "map index_key (List.map_filter ?at ks) = ks" if "set ks \<subseteq> index_key ` held bk db" for ks
    using that by (induction ks) (auto simp: List.map_filter_simps dest!: at)
  then have "map index_key (scan bk db) = bk_keys bk (db_byTS db)" using keys by (simp add: scan_def)
  moreover have "set (scan bk db) = {x. \<exists>y \<in> held bk db. ?at (index_key y) = Some x}"
    unfolding scan_def set_map_filter keys by blast
  then have "set (scan bk db) = held bk db" using at by auto
  ultimately show ?thesis by simp
qed

lemma scan_sorted:
  assumes "bolt_ok bk" "db_inv bk db"
  shows "sorted_wrt (\<lambda>x y. index_key x < index_key y) (scan bk db)"
proof -
  have "sorted_wrt (<) (map index_key (scan bk db))"
    using assms scan_index [OF assms] unfolding bolt_ok_def by simp
  then show ?thesis by (simp add: sorted_wrt_map)
qed

lemma distinct_sorted_wrt: "(\<And>x. \<not> P x x) \<Longrightarrow> sorted_wrt P xs \<Longrightarrow> distinct xs"
  by (induction xs) auto

text \<open>The ids of the index: each stored id once.\<close>

lemma scan_ids:
  assumes "bolt_ok bk" "db_inv bk db"
  shows "distinct (map fst (scan bk db))" "set (map fst (scan bk db)) = dom (stored bk db)"
    "map snd (scan bk db) = map (the \<circ> stored bk db) (map fst (scan bk db))" "set (map snd (scan bk db)) = ran (stored bk db)"
proof -
  have mem: "set (scan bk db) = held bk db"
    using scan_index [OF assms] by simp
  have "distinct (scan bk db)"
    using scan_sorted [OF assms] by (rule distinct_sorted_wrt [rotated]) simp
  moreover have "inj_on fst (held bk db)"
    by (auto intro!: inj_onI)
  ultimately show "distinct (map fst (scan bk db))"
    by (simp add: distinct_map mem)
  show "set (map fst (scan bk db)) = dom (stored bk db)" "set (map snd (scan bk db)) = ran (stored bk db)"
    by (simp_all add: mem held_def fst_graph_eq_dom snd_graph_ran)
  show "map snd (scan bk db) = map (the \<circ> stored bk db) (map fst (scan bk db))"
    using mem by auto
qed

lemma ListSince_scan:
  assumes "bolt_ok bk" "db_inv bk db"
  shows "ListSince bk since limit db =
    take (nat (if limit \<le> 0 then 500 else limit)) (filter (\<lambda>g. unat since \<le> unat (g_Timestamp g)) (map snd (scan bk db)))"
proof -
  let ?at = "grant_at (bk_get bk (db_byID db))" and ?ks = "bk_keys bk (db_byTS db)"
  have at: "\<forall>x \<in> set (scan bk db). ?at (index_key x) = Some x"
    using assms(2) scan_index [OF assms] grant_at_index_key unfolding db_inv_def by blast
  have "map snd (List.map_filter ?at (filter (\<lambda>k. \<not> k < tsKey since []) (map index_key xs))) =
      filter (\<lambda>g. unat since \<le> unat (g_Timestamp g)) (map snd xs)" if "\<forall>x \<in> set xs. ?at (index_key x) = Some x" for xs
    using that by (induction xs) (auto simp: List.map_filter_simps tsKey_seek)
  moreover have "dropWhile (\<lambda>k. k < tsKey since []) ?ks = filter (\<lambda>k. \<not> k < tsKey since []) ?ks"
    using assms(1) dropWhile_sorted_filter unfolding bolt_ok_def by blast
  moreover have "?ks = map index_key (scan bk db)" using scan_index [OF assms] by simp
  ultimately show ?thesis
    using at by (simp add: ListSince_def list_loop_eq)
qed

lemma RecentGrantIDs_scan:
  assumes "bolt_ok bk" "db_inv bk db"
  shows "RecentGrantIDs bk n db = take (nat n) (rev (map fst (scan bk db)))"
proof -
  let ?P = "\<lambda>i. i \<noteq> [] \<and> bk_get bk (db_byID db) (bytes_of i) \<noteq> None"
  have inv: "byID_inv bk db" using assms(2) by (simp add: db_inv_def)
  have "\<forall>i \<in> set (map fst (scan bk db)). ?P i"
    unfolding scan_ids(2) [OF assms]
    using stored_id [OF inv] stored_None [OF inv] by force
  then have "filter ?P (rev (map fst (scan bk db))) = rev (map fst (scan bk db))"
    by (intro filter_True) simp
  moreover have "map (snd \<circ> splitTSKey) (bk_keys bk (db_byTS db)) = map fst (scan bk db)"
    unfolding scan_index [OF assms, THEN conjunct1, symmetric] by simp
  ultimately show ?thesis
    by (simp add: RecentGrantIDs_def recent_loop_eq rev_map [symmetric])
qed

text \<open>What holds of every stored grant, once it holds of every grant that is put.\<close>

lemma put_all_stored:
  assumes "bolt_ok bk" "db_inv bk db" "\<forall>i g. stored bk db i = Some g \<longrightarrow> P i g" "\<forall>(g, ce) \<in> set ps. P (g_GrantID g) (clean_grant g)"
  shows "stored bk (put_all bk ps db) i = Some g \<longrightarrow> P i g"
  using assms
proof (induction bk ps db rule: put_all.induct)
  case (2 bk g ce ps db)
  have "\<forall>i h. stored bk (snd (PutGrant bk ce g db)) i = Some h \<longrightarrow> P i h"
    by (rule PutGrant_cases [OF 2(2,3), of ce g]) (use 2(4,5) in \<open>auto split: if_splits\<close>)
  then show ?case
    using 2 PutGrant_inv [OF 2(2,3), of ce g] by simp
qed simp

lemma put_all_from_empty:
  assumes "bolt_ok bk" "\<forall>(g, ce) \<in> set ps. P (g_GrantID g) (clean_grant g)" "stored bk (put_all bk ps (empty_db bk)) i = Some g"
  shows "P i g"
  using put_all_stored [OF assms(1) empty_db_inv, of P ps i g] assms by (simp add: stored_empty)

lemma put_all_nonneg:
  assumes "bolt_ok bk" "\<forall>(g, ce) \<in> set ps. 0 \<le> sint (g_Timestamp g)"
  shows "\<forall>g \<in> ran (stored bk (put_all bk ps (empty_db bk))). 0 \<le> sint (g_Timestamp g)"
  using put_all_from_empty [OF assms(1), of ps "\<lambda>_ g. 0 \<le> sint (g_Timestamp g)"] assms(2) by (auto simp: ran_def)

lemma put_all_text:
  assumes "bolt_ok bk" "\<forall>(g, ce) \<in> set ps. grant_text g" "stored bk (put_all bk ps (empty_db bk)) i = Some g"
  shows "g_GrantID g = i"
  using put_all_from_empty [OF assms(1) _ assms(3), of "\<lambda>i g. g_GrantID g = i"] assms(2) by (fastforce simp: clean_grant_text)

lemma unat_negative: "0 \<le> sint v \<Longrightarrow> sint w < 0 \<Longrightarrow> unat v < unat w" for v w :: int64
proof -
  assume v: "0 \<le> sint v" and w: "sint w < 0"
  have "uint w = (sint w + 2 ^ 64) mod 2 ^ 64" by (simp add: uint_sint take_bit_eq_mod)
  also have "\<dots> = sint w + 2 ^ 64" using w sint_ge [of w] by (intro mod_pos_pos_trivial) simp_all
  finally have "sint v < uint w" using sint_lt [of v] sint_ge [of w] by simp
  then show ?thesis using v sint_nonneg [of v] by (simp add: word_less_nat_alt [symmetric] word_less_def)
qed

lemma sorted_by_signed:
  assumes "sorted_wrt (\<lambda>x y. index_key x < index_key y) xs" "\<forall>g \<in> set (map snd xs). 0 \<le> sint (g_Timestamp g)"
  shows "sorted (map (\<lambda>g. sint (g_Timestamp g)) (map snd xs))"
  using assms
proof (induction xs)
  case (Cons x xs)
  then have "\<forall>y \<in> set xs. unat (g_Timestamp (snd x)) \<le> unat (g_Timestamp (snd y))" by (fastforce simp: tsKey_less)
  then show ?case using Cons by (auto simp: unat_le_sint)
qed simp

subsection \<open>Sample database\<close>

definition list_bolt :: "(bytes \<times> bytes) list bolt" where
  "list_bolt = \<lparr>bk_new = [], bk_get = map_of, bk_put = (\<lambda>b k v. Inr ((k, v) # b)),
     bk_keys = (\<lambda>b. sort (remdups (map fst b)))\<rparr>"

lemma list_bolt_ok [simp]: "bolt_ok list_bolt"
  by (auto simp: bolt_ok_def list_bolt_def strict_sorted_iff map_of_eq_None_iff)

subsection \<open>Properties\<close>

text \<open>C19: whatever grants were put, and whichever transactions failed, the timestamp index and the id bucket
  agree: \<^verbatim>\<open>LoadAll\<close> streams the grant of every stored id once, in timestamp order; \<^verbatim>\<open>ListSince\<close> returns the first
  \<open>limit\<close> of those from \<open>since\<close> on; \<^verbatim>\<open>RecentGrantIDs\<close> the newest ids first; \<^verbatim>\<open>MaxTimestamp\<close> the largest
  timestamp (for timestamps that are not negative). The id under which a grant is stored is its own when its strings are
  UTF-8 text, as those of every grant received from a peer are (\<open>received_grants_text\<close>).\<close>

theorem grant_store_queries:
  assumes "bolt_ok bk" "0 \<le> sint since" "\<forall>(g, ce) \<in> set ps. 0 \<le> sint (g_Timestamp g)"
  shows "let db = put_all bk ps (empty_db bk); all = snd (LoadAll bk (\<lambda>g gs. (None, gs @ [g])) db []) in
    \<exists>ids. distinct ids \<and> set ids = dom (stored bk db) \<and> all = map (the \<circ> stored bk db) ids \<and>
      sorted (map (\<lambda>g. sint (g_Timestamp g)) all) \<and>
      ListSince bk since limit db =
        take (nat (if limit \<le> 0 then 500 else limit)) (filter (\<lambda>g. sint since \<le> sint (g_Timestamp g)) all) \<and>
      RecentGrantIDs bk n db = take (nat n) (rev ids) \<and>
      sint (MaxTimestamp bk db) = Max (insert 0 (sint ` g_Timestamp ` set all)) \<and>
      ((\<forall>(g, ce) \<in> set ps. grant_text g) \<longrightarrow> ids = map g_GrantID all)"
proof -
  define db where "db = put_all bk ps (empty_db bk)"
  have inv: "db_inv bk db" using put_all_inv [OF assms(1) empty_db_inv] assms(1) by (simp add: db_def)
  let ?ids = "map fst (scan bk db)" and ?all = "map snd (scan bk db)"
  have all: "snd (LoadAll bk (\<lambda>g gs. (None, gs @ [g])) db []) = ?all"
    by (simp add: LoadAll_def load_loop_collect scan_def)
  note ids = scan_ids [OF assms(1) inv]
  have nn: "\<forall>g \<in> set ?all. 0 \<le> sint (g_Timestamp g)"
    using put_all_nonneg [OF assms(1,3)] by (simp only: ids(4)) (simp only: db_def)
  have srt: "sorted (map (\<lambda>g. sint (g_Timestamp g)) ?all)"
    using scan_sorted [OF assms(1) inv] nn by (rule sorted_by_signed)
  have flt: "filter (\<lambda>g. unat since \<le> unat (g_Timestamp g)) ?all = filter (\<lambda>g. sint since \<le> sint (g_Timestamp g)) ?all"
    using nn assms(2) by (intro filter_cong) (auto simp: unat_le_sint)
  have mx: "sint (MaxTimestamp bk db) = Max (insert 0 (sint ` g_Timestamp ` set ?all))"
  proof (rule Max_eqI [symmetric])
    have "MaxTimestamp bk db = 0 \<or> MaxTimestamp bk db \<in> g_Timestamp ` set ?all"
      using inv unfolding db_inv_def max_inv_def ids(4) by (metis imageI)
    then show "sint (MaxTimestamp bk db) \<in> insert 0 (sint ` g_Timestamp ` set ?all)"
      by (elim disjE) simp_all
  qed (use inv in \<open>auto simp: db_inv_def max_inv_def simp flip: ids(4) simp del: set_map\<close>)
  have own: "?ids = map g_GrantID ?all" if "\<forall>(g, ce) \<in> set ps. grant_text g"
    using put_all_text [OF assms(1) that] scan_index [OF assms(1) inv] by (auto simp: db_def)
  show ?thesis
    unfolding Let_def db_def [symmetric] all
    by (intro exI [of _ ?ids] conjI impI)
      (rule ids(1) ids(2) ids(3) srt mx own RecentGrantIDs_scan [OF assms(1) inv] ListSince_scan [OF assms(1) inv, of since, unfolded flt] | assumption)+
qed

theorem grant_store_queries_witness:
  "let ps = [(sample_unsigned\<lparr>g_GrantID := ''g2'', g_Timestamp := 400\<rparr>, None), (sample_unsigned, Some ''disk full''),
             (sample_unsigned, None)];
       db = put_all list_bolt ps (empty_db list_bolt);
       all = snd (LoadAll list_bolt (\<lambda>g gs. (None, gs @ [g])) db [])
   in ListSince list_bolt 500 10 db = take 10 (filter (\<lambda>g. 500 \<le> sint (g_Timestamp g)) all) \<and>
      RecentGrantIDs list_bolt 1 db = take 1 (rev (map g_GrantID all))"
proof -
  have "utf8_valid s" if "s \<in> {''g1'', ''g2'', g_QuizID sample_unsigned, g_GrantorID sample_unsigned, g_RecipientID sample_unsigned}" for s
    using that by (auto simp: sample_unsigned_def hex_plain utf8_plain)
  then show ?thesis
    using grant_store_queries [of list_bolt 500
        "[(sample_unsigned\<lparr>g_GrantID := ''g2'', g_Timestamp := 400\<rparr>, None), (sample_unsigned, Some ''disk full''),
          (sample_unsigned, None)]" 10 1]
    by (auto simp: Let_def sample_unsigned_def grant_text_def simp del: put_all.simps)
qed

text \<open>The timestamp keys are unsigned, so a negative \<open>since\<close> sorts after every grant of a
  non-negative timestamp: \<^verbatim>\<open>ListSince\<close> then returns nothing, not the grants from \<open>since\<close> on.\<close>

lemma list_since_negative:
  assumes "bolt_ok bk" "sint since < 0" "\<forall>(g, ce) \<in> set ps. 0 \<le> sint (g_Timestamp g)"
  shows "ListSince bk since limit (put_all bk ps (empty_db bk)) = []"
proof -
  let ?db = "put_all bk ps (empty_db bk)"
  have inv: "db_inv bk ?db" using put_all_inv [OF assms(1) empty_db_inv] assms(1) by simp
  have "\<forall>g \<in> set (map snd (scan bk ?db)). 0 \<le> sint (g_Timestamp g)"
    using put_all_nonneg [OF assms(1,3)] unfolding scan_ids(4) [OF assms(1) inv] .
  then show ?thesis
    using assms(2) by (simp add: ListSince_scan [OF assms(1) inv] filter_empty_conv not_le unat_negative del: filter_map)
qed

end
