(* ===== verification/ParkNode.thy ===== *)
theory ParkNode
  imports Node Quiz GrantStore
begin

text \<open>
  The application on top of a node (\<^verbatim>\<open>internal/park-node\<close>: \<^verbatim>\<open>app.go\<close>, \<^verbatim>\<open>inbound.go\<close>, \<^verbatim>\<open>grant_sync.go\<close>) and its
  encrypted channels (\<^verbatim>\<open>internal/crypto/channel\<close>). An \<open>app_env\<close> holds what a handler reads from its
  environment: the clock, fresh message ids, the traversal order of the peer map, JSON encodings, the
  database and the XChaCha20-Poly1305 cipher. What is printed is appended to \<open>a_ui\<close>, as data.
\<close>

subsection \<open>Encrypted channels\<close>

record aead =
  seal :: "bytes \<Rightarrow> bytes \<Rightarrow> bytes \<Rightarrow> bytes"
  unseal :: "bytes \<Rightarrow> bytes \<Rightarrow> bytes \<Rightarrow> bytes option"

text \<open>Documented behaviour of an authenticated cipher: opening what was sealed gives the plaintext.\<close>

definition aead_ok :: "aead \<Rightarrow> bool" where
  "aead_ok c \<longleftrightarrow> (\<forall>key nonce pt. unseal c key nonce (seal c key nonce pt) = Some pt)"

datatype channel_error = RandomError string | HexError | KeySize nat | OpenError

definition NewRandomKey :: "string + bytes \<Rightarrow> channel_error + bytes" where
  "NewRandomKey rnd = (case rnd of Inl err \<Rightarrow> Inl (RandomError err) | Inr k \<Rightarrow> Inr k)"

definition KeyToHex :: "bytes \<Rightarrow> string" where
  "KeyToHex k = EncodeToString k"

definition ParseChannelKey :: "string \<Rightarrow> channel_error + bytes" where
  "ParseChannelKey s =
     (case DecodeString s of
        None \<Rightarrow> Inl HexError
      | Some b \<Rightarrow> if length b \<noteq> 32 then Inl (KeySize (length b)) else Inr b)"

text \<open>A channel key has 32 bytes, so creating the cipher never fails; \<open>rnd\<close> is the reading of the nonce.\<close>

definition Encrypt :: "aead \<Rightarrow> string + bytes \<Rightarrow> bytes \<Rightarrow> bytes \<Rightarrow> channel_error + bytes \<times> bytes" where
  "Encrypt c rnd key plaintext =
     (case rnd of
        Inl err \<Rightarrow> Inl (RandomError err)
      | Inr nonce \<Rightarrow> Inr (nonce, seal c key nonce plaintext))"

definition Decrypt :: "aead \<Rightarrow> bytes \<Rightarrow> bytes \<Rightarrow> bytes \<Rightarrow> channel_error + bytes" where
  "Decrypt c key nonce ciphertext =
     (case unseal c key nonce ciphertext of None \<Rightarrow> Inl OpenError | Some pt \<Rightarrow> Inr pt)"

subsection \<open>Application state\<close>

datatype enc_display = EncBad | EncFailed | EncRaw bytes | EncText string string

datatype ui_line =
    Ui_text string
  | Ui_chat int64 string string
  | Ui_open string int64 string
  | Ui_points int64 int64
  | Ui_result bool int64 string
  | Ui_enc string enc_display
  | Ui_connected string string
  | Ui_disconnected string
  | Ui_you string string string string nat
  | Ui_peers "PeerSnapshot list"
  | Ui_self int64 uint64
  | Ui_scores "PointsSnapshot list"
  | Ui_leaders "Award list"
  | Ui_quizzes "Open list"
  | Ui_key string string

record 'b App =
  a_Node :: Node
  a_Points :: PointsEngine
  a_Ledger :: Ledger
  a_GrantStore :: "'b GrantDB option"
  a_Quiz :: QuizEngine
  a_encChannels :: "string \<rightharpoonup> bytes"
  a_lanStopped :: bool
  a_ui :: "ui_line list"

record 'b app_env =
  ae_cr :: crypto
  ae_bolt :: "'b bolt"
  ae_now :: gotime
  ae_msgID :: "nat \<Rightarrow> string"
  ae_peers :: "string list"
  ae_commitErr :: "nat \<Rightarrow> string option"
  ae_aead :: aead

definition print :: "ui_line \<Rightarrow> 'b App \<Rightarrow> 'b App" where
  "print l a = a\<lparr>a_ui := a_ui a @ [l]\<rparr>"

definition userIDHex :: "'b App \<Rightarrow> string" where
  "userIDHex a = EncodeToString (id_SignPub (n_id (a_Node a)))"

definition shortID :: "string \<Rightarrow> string" where
  "shortID i = (if length i > 8 then take 8 i else i)"

text \<open>\<^verbatim>\<open>New\<close>: \<open>node\<close> and \<open>store\<close> are the outcomes of \<^verbatim>\<open>NewNode\<close> and of opening the database; the persisted
  grants are replayed into the ledger.\<close>

definition NewApp :: "'b app_env \<Rightarrow> node_error + Node \<Rightarrow> string + 'b GrantDB \<Rightarrow> (node_error + string) + 'b App" where
  "NewApp e node store =
     (case node of
        Inl err \<Rightarrow> Inl (Inl err)
      | Inr n \<Rightarrow>
          (case store of
             Inl err \<Rightarrow> Inl (Inr err)
           | Inr gs \<Rightarrow>
               let name = nc_Name (n_cfg n); ident = n_id n;
                   ld = snd (LoadAll (ae_bolt e)
                          (\<lambda>g l. (None, snd (ApplyGrant (ae_cr e) (ae_now e) g l))) gs NewLedger)
               in Inr \<lparr>a_Node = n, a_Points = NewPointsEngine name (id_SignPriv ident) (id_SignPub ident),
                       a_Ledger = NoteName (EncodeToString (id_SignPub ident)) name ld, a_GrantStore = Some gs,
                       a_Quiz = NewQuizEngine name (id_SignPriv ident) (id_SignPub ident),
                       a_encChannels = Map.empty, a_lanStopped = False, a_ui = []\<rparr>))"

definition send_to :: "string \<Rightarrow> string \<Rightarrow> payload \<Rightarrow> 'b App \<Rightarrow> 'b App" where
  "send_to pid ty pl a = a\<lparr>a_Node := snd (SendToPeer pid (self_env ty pl (a_Node a)) (a_Node a))\<rparr>"

definition gossip_all :: "'b app_env \<Rightarrow> string \<Rightarrow> string \<Rightarrow> payload \<Rightarrow> 'b App \<Rightarrow> 'b App" where
  "gossip_all e gid channel body a = a\<lparr>a_Node := Broadcast (ae_peers e) (P_gossip gid channel body) (a_Node a)\<rparr>"

definition broadcastPoints :: "'b app_env \<Rightarrow> SignedPointsSnapshot \<Rightarrow> 'b App \<Rightarrow> 'b App" where
  "broadcastPoints e snap a = gossip_all e (ae_msgID e 0) ''points'' (P_points snap) a"

definition StopAll :: "'b App \<Rightarrow> 'b App" where
  "StopAll a = a\<lparr>a_lanStopped := True, a_Node := StopNode (a_Node a)\<rparr>"

subsection \<open>Grant synchronisation\<close>

definition grantSyncRecentIDs :: int where "grantSyncRecentIDs = 64"
definition grantSyncLimit :: int where "grantSyncLimit = 1000"
definition grantSyncOverlap :: int64 where "grantSyncOverlap = 300"

definition initiateGrantSync :: "'b app_env \<Rightarrow> string \<Rightarrow> 'b App \<Rightarrow> 'b App" where
  "initiateGrantSync e peerID a =
     (case a_GrantStore a of
        None \<Rightarrow> a
      | Some db \<Rightarrow>
          send_to peerID MsgGrantSyncSummary
            (P_syncSummary \<lparr>gs_MaxTimestamp = MaxTimestamp (ae_bolt e) db,
                            gs_RecentGrantIDs = RecentGrantIDs (ae_bolt e) grantSyncRecentIDs db\<rparr>) a)"

text \<open>The lower end of the requested range: the overlap is subtracted in \<^verbatim>\<open>int64\<close>.\<close>

definition sync_since :: "int64 \<Rightarrow> int64" where
  "sync_since localMax = (let since = localMax - grantSyncOverlap in if sint since < 0 then 0 else since)"

definition handleGrantSyncSummary :: "'b app_env \<Rightarrow> Envelope \<Rightarrow> 'b App \<Rightarrow> 'b App" where
  "handleGrantSyncSummary e env a =
     (case a_GrantStore a of
        None \<Rightarrow> a
      | Some db \<Rightarrow>
          (case env_Payload env of
             P_syncSummary s \<Rightarrow>
               let localMax = MaxTimestamp (ae_bolt e) db
               in if sint (gs_MaxTimestamp s) > sint localMax
                  then send_to (env_FromID env) MsgGrantSyncRequest
                         (P_syncRequest \<lparr>gr_SinceTimestamp = sync_since localMax, gr_Limit = grantSyncLimit\<rparr>) a
                  else a
           | _ \<Rightarrow> a))"

definition handleGrantSyncRequest :: "'b app_env \<Rightarrow> Envelope \<Rightarrow> 'b App \<Rightarrow> 'b App" where
  "handleGrantSyncRequest e env a =
     (case a_GrantStore a of
        None \<Rightarrow> a
      | Some db \<Rightarrow>
          (case env_Payload env of
             P_syncRequest r \<Rightarrow>
               send_to (env_FromID env) MsgGrantSyncResponse
                 (P_syncResponse (ListSince (ae_bolt e) (gr_SinceTimestamp r) (gr_Limit r) db)) a
           | _ \<Rightarrow> a))"

text \<open>One grant of a response; \<open>k\<close> numbers the transaction.\<close>

definition sync_grant :: "'b app_env \<Rightarrow> nat \<Rightarrow> QuizGrant \<Rightarrow> Ledger \<times> 'b GrantDB \<Rightarrow> Ledger \<times> 'b GrantDB" where
  "sync_grant e k g st =
     (case st of (l, db) \<Rightarrow>
        if VerifyGrant (ae_cr e) (ae_now e) g \<noteq> None then (l, db)
        else case ApplyGrant (ae_cr e) (ae_now e) g l of
               (True, l') \<Rightarrow> (l', snd (PutGrant (ae_bolt e) (ae_commitErr e k) g db))
             | (False, l') \<Rightarrow> (l', db))"

fun sync_grants :: "'b app_env \<Rightarrow> nat \<Rightarrow> QuizGrant list \<Rightarrow> Ledger \<times> 'b GrantDB \<Rightarrow> Ledger \<times> 'b GrantDB" where
  "sync_grants e k [] st = st"
| "sync_grants e k (g # gs) st = sync_grants e (Suc k) gs (sync_grant e k g st)"

definition handleGrantSyncResponse :: "'b app_env \<Rightarrow> Envelope \<Rightarrow> 'b App \<Rightarrow> 'b App" where
  "handleGrantSyncResponse e env a =
     (case a_GrantStore a of
        None \<Rightarrow> a
      | Some db \<Rightarrow>
          (case env_Payload env of
             P_syncResponse gs \<Rightarrow>
               (case sync_grants e 0 gs (a_Ledger a, db) of (l, db') \<Rightarrow> a\<lparr>a_Ledger := l, a_GrantStore := Some db'\<rparr>)
           | _ \<Rightarrow> a))"

subsection \<open>Gossip\<close>

definition sender_name :: "string \<Rightarrow> 'b App \<Rightarrow> string" where
  "sender_name i a = (let s = PeerDisplayName i (a_Node a) in if s = [] then shortID i else s)"

definition handleGlobalChat :: "Envelope \<Rightarrow> payload \<Rightarrow> 'b App \<Rightarrow> 'b App" where
  "handleGlobalChat env body a =
     (case body of
        P_chat c \<Rightarrow> print (Ui_chat (cm_Timestamp c) (sender_name (env_FromID env) a) (cm_Text c)) a
      | _ \<Rightarrow> print (Ui_text ''[CHAT] bad chat payload'') a)"

definition handlePoints :: "'b app_env \<Rightarrow> payload \<Rightarrow> 'b App \<Rightarrow> 'b App" where
  "handlePoints e body a =
     (case body of
        P_points s \<Rightarrow> a\<lparr>a_Points := snd (ApplyRemote (ae_cr e) s (a_Points a))\<rparr>
      | _ \<Rightarrow> print (Ui_text ''[POINTS] bad snapshot'') a)"

abbreviation quiz_wire :: "string \<Rightarrow> QuizWire" where
  "quiz_wire kind \<equiv> \<lparr>qw_Kind = kind, qw_Open = None, qw_Answer = None, qw_Grant = None, qw_Result = None\<rparr>"

definition handle_quiz_open :: "'b app_env \<Rightarrow> Envelope \<Rightarrow> QuizOpenSigned \<Rightarrow> 'b App \<Rightarrow> 'b App" where
  "handle_quiz_open e env s a =
     (case ObserveOpen (ae_cr e) (ae_now e) s (a_Quiz a) of
        (True, q) \<Rightarrow>
          print (Ui_open (shortID (qo_QuizID (qs_Open s))) (qo_Points (qs_Open s)) (qo_Question (qs_Open s)))
            (a\<lparr>a_Quiz := q, a_Ledger := NoteName (qo_CreatorID (qs_Open s)) (PeerDisplayName (env_FromID env) (a_Node a))
                 (a_Ledger a)\<rparr>)
      | (False, q) \<Rightarrow> a\<lparr>a_Quiz := q\<rparr>)"

definition handle_quiz_answer :: "'b app_env \<Rightarrow> Envelope \<Rightarrow> QuizAnswer \<Rightarrow> 'b App \<Rightarrow> 'b App" where
  "handle_quiz_answer e env ans a =
     (let uid = UserIDForPeer (env_FromID env) (a_Node a)
      in if uid = [] then a
         else case TryGrade (ae_cr e) (ae_msgID e 0) (ae_now e) (qa_QuizID ans) uid (qa_Answer ans) (a_Quiz a) of
           (g, q) \<Rightarrow>
             let a1 = a\<lparr>a_Quiz := q\<rparr>
             in if \<not> gr_authoritative g then a1
                else
                  let res = \<lparr>qr_QuizID = qa_QuizID ans, qr_PlayerID = uid, qr_Correct = gr_correct g,
                             qr_Delta = (if gr_correct g then g_Points (gr_grant g) else 0)\<rparr>;
                      a2 = send_to (env_FromID env) MsgGossip
                             (P_gossip (ae_msgID e 1) ''quiz'' (P_quiz ((quiz_wire ''result'')\<lparr>qw_Result := Some res\<rparr>))) a1
                  in if gr_correct g
                     then gossip_all e (g_GrantID (gr_grant g)) ''quiz''
                            (P_quiz ((quiz_wire ''grant'')\<lparr>qw_Grant := Some (gr_grant g)\<rparr>)) a2
                     else a2)"

definition store_grant :: "'b app_env \<Rightarrow> QuizGrant \<Rightarrow> 'b App \<Rightarrow> 'b App" where
  "store_grant e g a =
     (case a_GrantStore a of
        None \<Rightarrow> a
      | Some db \<Rightarrow> a\<lparr>a_GrantStore := Some (snd (PutGrant (ae_bolt e) (ae_commitErr e 0) g db))\<rparr>)"

definition handle_quiz_grant :: "'b app_env \<Rightarrow> QuizGrant \<Rightarrow> 'b App \<Rightarrow> 'b App" where
  "handle_quiz_grant e g a =
     (case ApplyGrant (ae_cr e) (ae_now e) g (a_Ledger a) of
        (False, l) \<Rightarrow> a\<lparr>a_Ledger := l\<rparr>
      | (True, l) \<Rightarrow>
          let a1 = gossip_all e (g_GrantID g) ''quiz'' (P_quiz ((quiz_wire ''grant'')\<lparr>qw_Grant := Some g\<rparr>))
                     (store_grant e g (a\<lparr>a_Ledger := l\<rparr>))
          in if g_RecipientID g = userIDHex a then print (Ui_points (g_Points g) (Total l (g_RecipientID g))) a1 else a1)"

definition handle_quiz_result :: "QuizResult \<Rightarrow> 'b App \<Rightarrow> 'b App" where
  "handle_quiz_result r a =
     (if qr_PlayerID r \<noteq> userIDHex a then a
      else print (Ui_result (qr_Correct r) (qr_Delta r) (shortID (qr_QuizID r))) a)"

definition handleQuiz :: "'b app_env \<Rightarrow> Envelope \<Rightarrow> payload \<Rightarrow> 'b App \<Rightarrow> 'b App" where
  "handleQuiz e env body a =
     (case body of
        P_quiz qw \<Rightarrow>
          if qw_Kind qw = ''open'' then (case qw_Open qw of None \<Rightarrow> a | Some s \<Rightarrow> handle_quiz_open e env s a)
          else if qw_Kind qw = ''answer'' then (case qw_Answer qw of None \<Rightarrow> a | Some s \<Rightarrow> handle_quiz_answer e env s a)
          else if qw_Kind qw = ''grant'' then (case qw_Grant qw of None \<Rightarrow> a | Some g \<Rightarrow> handle_quiz_grant e g a)
          else if qw_Kind qw = ''result'' then (case qw_Result qw of None \<Rightarrow> a | Some r \<Rightarrow> handle_quiz_result r a)
          else a
      | _ \<Rightarrow> print (Ui_text ''[QUIZ] bad payload'') a)"

definition enc_view :: "'b app_env \<Rightarrow> Envelope \<Rightarrow> payload \<Rightarrow> bytes \<Rightarrow> 'b App \<Rightarrow> enc_display" where
  "enc_view e env body key a =
     (case body of
        P_encrypted em \<Rightarrow>
          (case Decrypt (ae_aead e) key (em_Nonce em) (em_Ciphertext em) of
             Inl _ \<Rightarrow> EncFailed
           | Inr pt \<Rightarrow>
               (case decode_chat pt of
                  None \<Rightarrow> EncRaw pt
                | Some (from, text) \<Rightarrow> EncText (if from = [] then sender_name (env_FromID env) a else from) text))
      | _ \<Rightarrow> EncBad)"

definition handleEncrypted :: "'b app_env \<Rightarrow> Envelope \<Rightarrow> string \<Rightarrow> payload \<Rightarrow> 'b App \<Rightarrow> 'b App" where
  "handleEncrypted e env channel body a =
     (let chName = drop 4 channel
      in case a_encChannels a chName of
           None \<Rightarrow> a
         | Some key \<Rightarrow> print (Ui_enc chName (enc_view e env body key a)) a)"

definition app_handleEnvelope :: "'b app_env \<Rightarrow> Envelope \<Rightarrow> 'b App \<Rightarrow> 'b App" where
  "app_handleEnvelope e env a =
     (if env_Type env = MsgGossip then
        (case env_Payload env of
           P_gossip gid channel body \<Rightarrow>
             if prefix ''enc:'' channel then handleEncrypted e env channel body a
             else if channel = ''global'' then handleGlobalChat env body a
             else if channel = ''points'' then handlePoints e body a
             else if channel = ''quiz'' then handleQuiz e env body a
             else a
         | _ \<Rightarrow> a)
      else if env_Type env = MsgGrantSyncSummary then handleGrantSyncSummary e env a
      else if env_Type env = MsgGrantSyncRequest then handleGrantSyncRequest e env a
      else if env_Type env = MsgGrantSyncResponse then handleGrantSyncResponse e env a
      else a)"

text \<open>The event goroutine of \<^verbatim>\<open>Run\<close>.\<close>

definition handle_event :: "'b app_env \<Rightarrow> Event \<Rightarrow> 'b App \<Rightarrow> 'b App" where
  "handle_event e ev a =
     (case ev_Type ev of
        EventPeerConnected \<Rightarrow> initiateGrantSync e (ev_PeerID ev) (print (Ui_connected (ev_PeerName ev) (ev_PeerAddr ev)) a)
      | EventPeerDisconnected \<Rightarrow> print (Ui_disconnected (ev_PeerID ev)) a)"

definition sendEncrypted :: "'b app_env \<Rightarrow> string + bytes \<Rightarrow> string \<Rightarrow> string \<Rightarrow> 'b App \<Rightarrow> 'b App" where
  "sendEncrypted e rnd chName msg a =
     (case a_encChannels a chName of
        None \<Rightarrow> print (Ui_text ''not joined to channel'') a
      | Some key \<Rightarrow>
          (case Encrypt (ae_aead e) rnd key (encode_chat chName (nc_Name (n_cfg (a_Node a))) msg (word_of_int (Unix (ae_now e)))) of
             Inl _ \<Rightarrow> print (Ui_text ''encrypt failed'') a
           | Inr (nonce, ct) \<Rightarrow>
               gossip_all e (ae_msgID e 0) (''enc:'' @ chName) (P_encrypted \<lparr>em_Nonce = nonce, em_Ciphertext = ct\<rparr>) a))"

subsection \<open>Handlers on ledger, store and node\<close>

lemma sync_grants_ledger:
  "fst (sync_grants e k gs st) = fold (\<lambda>g l. snd (ApplyGrant (ae_cr e) (ae_now e) g l)) gs (fst st)"
proof (induction e k gs st rule: sync_grants.induct)
  case (2 e k g gs st)
  have "fst (sync_grant e k g st) = snd (ApplyGrant (ae_cr e) (ae_now e) g (fst st))"
    by (auto simp: sync_grant_def ApplyGrant_def split: prod.splits)
  with 2 show ?case by simp
qed simp

lemma sync_grants_db_inv:
  assumes "bolt_ok (ae_bolt e)" "db_inv (ae_bolt e) (snd st)"
  shows "db_inv (ae_bolt e) (snd (sync_grants e k gs st))"
  using assms
proof (induction e k gs st rule: sync_grants.induct)
  case (2 e k g gs st)
  then have "db_inv (ae_bolt e) (snd (sync_grant e k g st))"
    by (auto simp: sync_grant_def PutGrant_inv split: prod.splits bool.splits)
  with 2 show ?case by simp
qed simp

text \<open>The application's invariant joins those of its components.\<close>

definition app_inv :: "crypto \<Rightarrow> 'b bolt \<Rightarrow> 'b App \<Rightarrow> bool" where
  "app_inv cr bk a \<longleftrightarrow> node_inv cr (a_Node a) \<and> ledger_inv (a_Ledger a) \<and>
     (\<forall>db. a_GrantStore a = Some db \<longrightarrow> db_inv bk db)"

lemma app_inv_print [simp]: "app_inv cr bk (print l a) = app_inv cr bk a"
  by (simp add: app_inv_def print_def)

lemma app_inv_send [inv_intros]: "app_inv cr bk a \<Longrightarrow> app_inv cr bk (send_to p t pl a)"
  by (simp add: app_inv_def send_to_def node_inv_SendToPeer)

lemma app_inv_gossip [inv_intros]: "app_inv cr bk a \<Longrightarrow> app_inv cr bk (gossip_all e i c b a)"
  by (simp add: app_inv_def gossip_all_def Broadcast_def node_inv_relay)

lemma app_inv_engines [simp]:
  "app_inv cr bk (a\<lparr>a_Quiz := q\<rparr>) = app_inv cr bk a" "app_inv cr bk (a\<lparr>a_Points := p\<rparr>) = app_inv cr bk a"
  by (simp_all add: app_inv_def)

lemma ledger_inv_NoteName: "ledger_inv (NoteName i nm l) = ledger_inv l"
  by (simp add: NoteName_def ledger_inv_def Total_def grants_for_def)

lemma app_inv_open: "app_inv cr bk a \<Longrightarrow> app_inv cr bk (handle_quiz_open e env s a)"
  by (auto simp: handle_quiz_open_def app_inv_def print_def ledger_inv_NoteName split: prod.splits bool.splits)

lemma app_inv_answer: "app_inv cr bk a \<Longrightarrow> app_inv cr bk (handle_quiz_answer e env s a)"
  by (auto simp: handle_quiz_answer_def Let_def split: prod.splits intro!: inv_intros)

lemma app_inv_grant:
  assumes "app_inv (ae_cr e) (ae_bolt e) a" "bolt_ok (ae_bolt e)"
  shows "app_inv (ae_cr e) (ae_bolt e) (handle_quiz_grant e g a)"
proof -
  have l: "app_inv (ae_cr e) (ae_bolt e) (a\<lparr>a_Ledger := snd (ApplyGrant (ae_cr e) (ae_now e) g (a_Ledger a))\<rparr>)"
    using assms(1) ApplyGrant_inv [of "a_Ledger a"] by (simp add: app_inv_def)
  have "app_inv (ae_cr e) (ae_bolt e) (store_grant e g b)"
    if "app_inv (ae_cr e) (ae_bolt e) b" for b
    using that assms(2) by (auto simp: store_grant_def app_inv_def PutGrant_inv split: option.splits)
  with l show ?thesis
    by (cases "ApplyGrant (ae_cr e) (ae_now e) g (a_Ledger a)")
       (auto simp: handle_quiz_grant_def Let_def split: bool.splits intro!: inv_intros)
qed

lemma app_inv_sync:
  assumes "app_inv (ae_cr e) (ae_bolt e) a" "bolt_ok (ae_bolt e)"
  shows "app_inv (ae_cr e) (ae_bolt e) (handleGrantSyncResponse e env a)"
proof -
  have "app_inv (ae_cr e) (ae_bolt e) (a\<lparr>a_Ledger := l, a_GrantStore := Some db'\<rparr>)"
    if "a_GrantStore a = Some db" "sync_grants e 0 gs (a_Ledger a, db) = (l, db')" for gs db l db'
    using assms that sync_grants_ledger [of e 0 gs "(a_Ledger a, db)"] sync_grants_db_inv [of e "(a_Ledger a, db)" 0 gs]
      ApplyGrants_inv [of "a_Ledger a" "ae_cr e" "ae_now e" gs]
    by (simp add: app_inv_def)
  with assms(1) show ?thesis
    by (auto simp: handleGrantSyncResponse_def split: option.splits payload.splits prod.splits)
qed

lemma app_inv_handleEnvelope:
  assumes "app_inv (ae_cr e) (ae_bolt e) a" "bolt_ok (ae_bolt e)"
  shows "app_inv (ae_cr e) (ae_bolt e) (app_handleEnvelope e env a)"
proof -
  let ?inv = "app_inv (ae_cr e) (ae_bolt e)"
  have quiz: "?inv (handleQuiz e env' body a)" for env' body
    using assms by (simp add: handleQuiz_def app_inv_open app_inv_answer app_inv_grant handle_quiz_result_def
        split: payload.splits option.splits)
  have others: "?inv (handleEncrypted e env c body a)" "?inv (handleGlobalChat env body a)" "?inv (handlePoints e body a)"
    for c body
    using assms(1) by (simp_all add: handleEncrypted_def handleGlobalChat_def handlePoints_def Let_def
        split: payload.splits option.splits)
  have sync: "?inv (handleGrantSyncSummary e env a)" "?inv (handleGrantSyncRequest e env a)"
    using assms(1) by (simp_all add: handleGrantSyncSummary_def handleGrantSyncRequest_def Let_def app_inv_send
        split: payload.splits option.splits)
  show ?thesis
    using quiz others sync app_inv_sync [OF assms] assms(1) unfolding app_handleEnvelope_def
    by (simp split: payload.splits)
qed

subsection \<open>Restart\<close>

lemma load_loop_total:
  "load_loop byID (\<lambda>g s. (None, f g s)) ks s = (None, fold f (map snd (List.map_filter (grant_at byID) ks)) s)"
  by (induction ks arbitrary: s) (auto simp: grant_at_def Let_def List.map_filter_simps split: option.splits)

lemma LoadAll_ledger:
  "snd (LoadAll bk (\<lambda>g l. (None, snd (ApplyGrant cr now g l))) db l) =
     fold (\<lambda>g l. snd (ApplyGrant cr now g l)) (map snd (scan bk db)) l"
  by (simp add: LoadAll_def load_loop_total scan_def)

lemma NewApp_parts:
  assumes "NewApp e (Inr n) (Inr db) = Inr a"
  shows "a_Node a = n" "a_GrantStore a = Some db"
    "lg_grants (a_Ledger a) = lg_grants (fold (\<lambda>g l. snd (ApplyGrant (ae_cr e) (ae_now e) g l))
       (map snd (scan (ae_bolt e) db)) NewLedger)"
    "ledger_inv (a_Ledger a)"
proof -
  show "a_Node a = n" "a_GrantStore a = Some db" using assms by (auto simp: NewApp_def Let_def)
  obtain i nm where a: "a_Ledger a = NoteName i nm (fold (\<lambda>g l. snd (ApplyGrant (ae_cr e) (ae_now e) g l))
      (map snd (scan (ae_bolt e) db)) NewLedger)"
    using assms by (auto simp: NewApp_def Let_def LoadAll_ledger)
  show "ledger_inv (a_Ledger a)" unfolding a ledger_inv_NoteName by (rule ApplyGrants_inv [OF NewLedger_inv])
  show "lg_grants (a_Ledger a) = lg_grants (fold (\<lambda>g l. snd (ApplyGrant (ae_cr e) (ae_now e) g l))
      (map snd (scan (ae_bolt e) db)) NewLedger)"
    unfolding a by (simp add: NoteName_def)
qed

lemma app_handleEnvelope_store:
  assumes "a_GrantStore a \<noteq> None"
  shows "a_GrantStore (app_handleEnvelope e env a) \<noteq> None"
proof -
  note defs = print_def send_to_def gossip_all_def Let_def
  have "a_GrantStore (handle_quiz_open e env s a) = a_GrantStore a" "a_GrantStore (handle_quiz_result r a) = a_GrantStore a"
    "a_GrantStore (handle_quiz_answer e env s' a) = a_GrantStore a" for s r s'
    by (simp_all add: handle_quiz_open_def handle_quiz_result_def handle_quiz_answer_def defs split: prod.splits bool.splits)
  moreover have "a_GrantStore (store_grant e g b) \<noteq> None" if "a_GrantStore b \<noteq> None" for g b
    using that by (auto simp: store_grant_def)
  then have "a_GrantStore (handle_quiz_grant e g a) \<noteq> None" for g
    using assms by (simp add: handle_quiz_grant_def defs split: prod.splits bool.splits)
  ultimately have quiz: "a_GrantStore (handleQuiz e env body a) \<noteq> None" for body
    using assms by (auto simp: handleQuiz_def print_def split: payload.splits option.splits)
  have others: "a_GrantStore (handleEncrypted e env c body a) \<noteq> None" "a_GrantStore (handleGlobalChat env body a) \<noteq> None"
    "a_GrantStore (handlePoints e body a) \<noteq> None" for c body
    using assms by (simp_all add: handleEncrypted_def handleGlobalChat_def handlePoints_def defs
        split: payload.splits option.splits)
  have sync: "a_GrantStore (handleGrantSyncSummary e env a) \<noteq> None" "a_GrantStore (handleGrantSyncRequest e env a) \<noteq> None"
    "a_GrantStore (handleGrantSyncResponse e env a) \<noteq> None"
    using assms by (simp_all add: handleGrantSyncSummary_def handleGrantSyncRequest_def handleGrantSyncResponse_def defs
        split: payload.splits option.splits prod.splits)
  show ?thesis
    using quiz others sync assms unfolding app_handleEnvelope_def by (simp split: payload.splits)
qed

subsection \<open>Sample application\<close>

definition demo_aead :: aead where
  "demo_aead = \<lparr>seal = (\<lambda>k nonce pt. k @ nonce @ pt),
     unseal = (\<lambda>k nonce ct. if take (length (k @ nonce)) ct = k @ nonce then Some (drop (length (k @ nonce)) ct) else None)\<rparr>"

lemma demo_aead_ok: "aead_ok demo_aead"
  by (simp add: aead_ok_def demo_aead_def)

definition demo_env :: "(bytes \<times> bytes) list app_env" where
  "demo_env = \<lparr>ae_cr = demo_crypto, ae_bolt = list_bolt, ae_now = sample_now,
     ae_msgID = (\<lambda>k. replicate (Suc k) CHR ''m''), ae_peers = [''a'', ''b''],
     ae_commitErr = (\<lambda>_. None), ae_aead = demo_aead\<rparr>"

definition sample_db :: "(bytes \<times> bytes) list GrantDB" where
  "sample_db = put_all list_bolt [(sample_grant, None)] (empty_db list_bolt)"

definition sample_app :: "(bytes \<times> bytes) list App" where
  "sample_app = \<lparr>a_Node = sample_seed, a_Points = NewPointsEngine ''s'' [1] [1], a_Ledger = NewLedger,
     a_GrantStore = Some (empty_db list_bolt), a_Quiz = NewQuizEngine ''s'' [1] [1], a_encChannels = [''c'' \<mapsto> pad32 [9]],
     a_lanStopped = False, a_ui = []\<rparr>"

lemma sample_put: "PutGrant list_bolt None sample_grant (empty_db list_bolt) =
    ((True, None), \<lparr>db_meta = [(kMaxTS, encodeI64 1000)],
       db_byID = [(bytes_of ''g1'', Marshal_grant sample_grant)], db_byTS = [(tsKey 1000 ''g1'', [])]\<rparr>)"
  by (simp add: PutGrant_def put_tx_def empty_db_def decodeI64_def Let_def list_bolt_def)
     (simp add: sample_grant_def sample_unsigned_def)

lemma sample_text: "grant_text sample_grant"
  using hex_plain [of "pad32 [7]"] by (simp add: grant_text_def sample_grant_def sample_unsigned_def utf8_plain)

lemma sample_db_stored: "stored list_bolt sample_db = [''g1'' \<mapsto> sample_grant]"
proof
  fix i
  show "stored list_bolt sample_db i = [''g1'' \<mapsto> sample_grant] i"
    by (simp add: sample_db_def sample_put stored_def del: bytes_of_simps)
      (simp add: list_bolt_def clean_grant_text [OF sample_text] del: bytes_of_simps)
qed

subsection \<open>Properties\<close>

text \<open>C29: persisted grants survive a restart: the ledger of a new application holds exactly the stored grants
  that still verify, and every total is their sum. Grants older than a year no longer verify, so they are
  lost for the ledger although they are still stored. The strings of the grants are UTF-8 text, as those of every grant
  received from a peer are (\<open>received_grants_text\<close>).\<close>

theorem grants_survive_restart:
  assumes "bolt_ok (ae_bolt e)" "\<forall>(g, ce) \<in> set ps. grant_text g" "db = put_all (ae_bolt e) ps (empty_db (ae_bolt e))"
    "NewApp e (Inr n) (Inr db) = Inr a"
  shows "(lg_grants (a_Ledger a) i = Some g \<longleftrightarrow>
      stored (ae_bolt e) db i = Some g \<and> VerifyGrant (ae_cr e) (ae_now e) g = None) \<and>
    Total (a_Ledger a) p = sum g_Points (grants_for (a_Ledger a) p)"
proof -
  have inv: "db_inv (ae_bolt e) db" using put_all_inv [OF assms(1) empty_db_inv] assms(1,3) by simp
  let ?gs = "map snd (scan (ae_bolt e) db)" and ?ok = "\<lambda>g. VerifyGrant (ae_cr e) (ae_now e) g = None"
  have own: "stored (ae_bolt e) db j = Some h \<Longrightarrow> g_GrantID h = j" for j h
    using put_all_text [OF assms(1,2)] by (simp add: assms(3))
  have held: "h \<in> set ?gs \<longleftrightarrow> stored (ae_bolt e) db (g_GrantID h) = Some h" for h
    unfolding scan_ids(4) [OF assms(1) inv] ran_def using own by blast
  have "lg_grants (a_Ledger a) i = find (\<lambda>m. ?ok m \<and> g_GrantID m = i) ?gs"
    using NewApp_parts(3) [OF assms(4)] ledger.entries_ins_all [of "ae_cr e" "ae_now e" ?gs NewLedger i]
    by (simp add: NewLedger_def)
  moreover have "\<forall>x \<in> set ?gs. \<forall>y \<in> set ?gs. (?ok x \<and> g_GrantID x = i) \<and> ?ok y \<and> g_GrantID y = i \<longrightarrow> x = y"
    using held by (metis option.inject)
  ultimately have "lg_grants (a_Ledger a) i = Some g \<longleftrightarrow> g \<in> set ?gs \<and> ?ok g \<and> g_GrantID g = i"
    by (simp only: find_Some_unique)
  then show ?thesis
    using NewApp_parts(4) [OF assms(4)] own unfolding held by (auto simp: ledger_inv_def)
qed

theorem grants_survive_restart_witness:
  "\<exists>a. NewApp demo_env (Inr sample_seed) (Inr sample_db) = Inr a \<and> lg_grants (a_Ledger a) ''g1'' = Some sample_grant"
proof -
  obtain a where a: "NewApp demo_env (Inr sample_seed) (Inr sample_db) = Inr a" by (simp add: NewApp_def Let_def)
  have e: "ae_bolt demo_env = list_bolt" "ae_cr demo_env = demo_crypto"
    "ae_now demo_env = sample_now" by (simp_all add: demo_env_def)
  then show ?thesis
    using a grants_survive_restart [of demo_env "[(sample_grant, None)]" sample_db sample_seed a "''g1''" sample_grant]
      sample_db_stored sample_grant_valid sample_text by (simp add: sample_db_def)
qed





end
