(* ===== verification/Commands.thy ===== *)
theory Commands
  imports ParkNode
begin

text \<open>
  The command line of the application (\<^verbatim>\<open>internal/park-node/commands.go\<close>) and its help (\<^verbatim>\<open>ui.go\<close>). A command changes the application
  state and prints; \<^verbatim>\<open>/quit\<close> ends the program. Strings are ASCII. \<open>rnd\<close> is what reading random bytes gives
  (a channel key, or a nonce).
\<close>

subsection \<open>String functions\<close>

definition TrimPrefix :: "string \<Rightarrow> string \<Rightarrow> string" where
  "TrimPrefix s pre = (if prefix pre s then drop (length pre) s else s)"

text \<open>\<^verbatim>\<open>strings.SplitN(s, sep, 2)\<close> for a one-byte separator.\<close>

definition split_once :: "char \<Rightarrow> string \<Rightarrow> (string \<times> string) option" where
  "split_once sep s =
     (case dropWhile (\<lambda>c. c \<noteq> sep) s of
        [] \<Rightarrow> None
      | _ # rest \<Rightarrow> Some (takeWhile (\<lambda>c. c \<noteq> sep) s, rest))"

subsection \<open>Commands\<close>

definition cmd_say :: "'b app_env \<Rightarrow> string \<Rightarrow> 'b App \<Rightarrow> 'b App" where
  "cmd_say e line a =
     gossip_all e (ae_msgID e 0) ''global''
       (P_chat \<lparr>cm_Text = TrimSpace (TrimPrefix line ''/say''), cm_From = nc_Name (n_cfg (a_Node a)),
                cm_Timestamp = word_of_int (Unix (ae_now e))\<rparr>) a"

definition cmd_add :: "'b app_env \<Rightarrow> string \<Rightarrow> 'b App \<Rightarrow> 'b App" where
  "cmd_add e line a =
     (let arg = TrimSpace (TrimPrefix line ''/add'')
      in if arg = [] then print (Ui_text ''usage: /add <delta>'') a
         else case ParseInt64 arg of
                None \<Rightarrow> print (Ui_text ''bad delta'') a
              | Some delta \<Rightarrow>
                  (case AddSelf (ae_cr e) delta (a_Points a) of
                     (smsg, pe) \<Rightarrow>
                       broadcastPoints e smsg
                         (print (Ui_self (ps_Points (sp_Snapshot smsg)) (ps_Version (sp_Snapshot smsg)))
                           (a\<lparr>a_Points := pe\<rparr>))))"

definition cmd_lb :: "string list \<Rightarrow> 'b App \<Rightarrow> 'b App" where
  "cmd_lb ts a =
     (let a1 = a\<lparr>a_Ledger := NoteName (userIDHex a) (nc_Name (n_cfg (a_Node a))) (a_Ledger a)\<rparr>;
          lb = Leaderboard ts (a_Ledger a1)
      in if lb = [] then print (Ui_text ''no grants yet'') a1 else print (Ui_leaders lb) a1)"

datatype quizask = Ask_usage | Ask_badPts | Ask_badTTL | Ask_missing | Ask int64 int64 string string

text \<open>Parsing \<^verbatim>\<open>/quizask <pts> <ttl_s> <question> | <answer>\<close>.\<close>

definition parse_quizask :: "string \<Rightarrow> quizask" where
  "parse_quizask line =
     (case split_once CHR ''|'' (TrimSpace (TrimPrefix line ''/quizask'')) of
        None \<Rightarrow> Ask_usage
      | Some (l, r) \<Rightarrow>
          let left = TrimSpace l; answer = TrimSpace r; fields = Fields left
          in if length fields < 3 then Ask_usage
             else case ParseInt64 (fields ! 0) of
                    None \<Rightarrow> Ask_badPts
                  | Some pts \<Rightarrow>
                      (case ParseInt64 (fields ! 1) of
                         None \<Rightarrow> Ask_badTTL
                       | Some ttl \<Rightarrow>
                           let question = TrimSpace (TrimPrefix left (fields ! 0 @ '' '' @ fields ! 1))
                           in if question = [] \<or> answer = [] then Ask_missing else Ask pts ttl question answer))"

text \<open>\<^verbatim>\<open>time.Duration(ttlS)*time.Second\<close> is an \<^verbatim>\<open>int64\<close> product.\<close>

definition cmd_quizask :: "'b app_env \<Rightarrow> string \<Rightarrow> 'b App \<Rightarrow> 'b App" where
  "cmd_quizask e line a =
     (case parse_quizask line of
        Ask_usage \<Rightarrow> print (Ui_text ''usage: /quizask <pts> <ttl_s> <question> | <answer>'') a
      | Ask_badPts \<Rightarrow> print (Ui_text ''bad pts'') a
      | Ask_badTTL \<Rightarrow> print (Ui_text ''bad ttl_s'') a
      | Ask_missing \<Rightarrow> print (Ui_text ''question and answer required'') a
      | Ask pts ttl question answer \<Rightarrow>
          (case CreateOpen (ae_cr e) (ae_msgID e 0) (ae_now e) question answer pts
                  (sint (ttl * 1000000000)) (a_Quiz a) of
             (smsg, q) \<Rightarrow>
               print (Ui_open (shortID (ae_msgID e 0)) pts question)
                 (gossip_all e (ae_msgID e 1) ''quiz'' (P_quiz ((quiz_wire ''open'')\<lparr>qw_Open := Some smsg\<rparr>))
                   (a\<lparr>a_Quiz := q\<rparr>))))"

definition cmd_quizzes :: "string list \<Rightarrow> 'b App \<Rightarrow> 'b App" where
  "cmd_quizzes os a =
     (let opens = ListOpen os (a_Quiz a)
      in if opens = [] then print (Ui_text ''no open quizzes'') a else print (Ui_quizzes opens) a)"

definition cmd_quizanswer :: "'b app_env \<Rightarrow> string list \<Rightarrow> string list \<Rightarrow> string \<Rightarrow> 'b App \<Rightarrow> 'b App" where
  "cmd_quizanswer e os ls line a =
     (let fields = Fields (TrimSpace (TrimPrefix line ''/quizanswer''))
      in if length fields < 2 then print (Ui_text ''usage: /quizanswer <quiz_id> <answer>'') a
         else case ResolveQuizID os ls (fields ! 0) (a_Quiz a) of
                None \<Rightarrow> print (Ui_text ''[QUIZ] unknown or ambiguous quiz id'') a
              | Some qid \<Rightarrow>
                  print (Ui_text ''[QUIZ] answered'')
                    (gossip_all e (ae_msgID e 0) ''quiz''
                      (P_quiz ((quiz_wire ''answer'')\<lparr>qw_Answer := Some \<lparr>qa_QuizID = qid,
                         qa_Answer = TrimSpace (Join (drop 1 fields) '' ''),
                         qa_Timestamp = word_of_int (Unix (ae_now e))\<rparr>\<rparr>)) a))"

definition cmd_mkchan :: "string + bytes \<Rightarrow> string \<Rightarrow> 'b App \<Rightarrow> 'b App" where
  "cmd_mkchan rnd line a =
     (let chName = TrimSpace (TrimPrefix line ''/mkchan'')
      in if chName = [] then print (Ui_text ''usage: /mkchan <name>'') a
         else case NewRandomKey rnd of
                Inl _ \<Rightarrow> print (Ui_text ''mkchan'') a
              | Inr k \<Rightarrow> print (Ui_key chName (KeyToHex k)) (a\<lparr>a_encChannels := (a_encChannels a)(chName \<mapsto> k)\<rparr>))"

definition cmd_joinchan :: "string \<Rightarrow> 'b App \<Rightarrow> 'b App" where
  "cmd_joinchan line a =
     (let parts = Fields line
      in if length parts \<noteq> 3 then print (Ui_text ''usage: /joinchan <name> <hexkey>'') a
         else case ParseChannelKey (parts ! 2) of
                Inl _ \<Rightarrow> print (Ui_text ''joinchan'') a
              | Inr k \<Rightarrow>
                  print (Ui_text ''[CHAN] joined channel'')
                    (a\<lparr>a_encChannels := (a_encChannels a)(parts ! 1 \<mapsto> k)\<rparr>))"

definition cmd_encsay :: "'b app_env \<Rightarrow> string + bytes \<Rightarrow> string \<Rightarrow> 'b App \<Rightarrow> 'b App" where
  "cmd_encsay e rnd line a =
     (let rest = TrimSpace (TrimPrefix line ''/encsay''); parts = Fields rest
      in if length parts < 2 then print (Ui_text ''usage: /encsay <channel> <message>'') a
         else sendEncrypted e rnd (parts ! 0) (TrimSpace (TrimPrefix rest (parts ! 0))) a)"

text \<open>The traversal orders of the maps a command may list.\<close>

record cmd_orders =
  co_others :: "string list"
  co_totals :: "string list"
  co_opens :: "string list"
  co_local :: "string list"

text \<open>The whole switch; the flag tells that the program ends.\<close>

text \<open>What \<^verbatim>\<open>ui.go\<close> prints at the start.\<close>

definition command_help :: "string list" where
  "command_help =
     [''Commands:'',
      ''    /say <message>               - broadcast a chat-like message'',
      ''    /add <delta>                 - (dev) add points to yourself'',
      ''    /me                          - prints your info'',
      ''    /points                      - show current scores'',
      ''    /lb                          - show grant-based leaderboard'',
      ''    /quizask <pts> <ttl_s> <question> | <answer>  - create a quiz (answer not broadcast)'',
      ''    /quizzes                     - list open quizzes'',
      ''    /quizanswer <quiz_id> <answer>              - answer a quiz'',
      ''    /peers                       - show connected peers'',
      ''    /mkchan <name>               - make an encrypted channel'',
      ''    /joinchan <name> <hexkey>    - join an encrypted channel'',
      ''    /encsay <chan> <message>     - encrypted broadcast to channel'',
      ''    /quit                        - exit'']"

definition PrintCommands :: "'b App \<Rightarrow> 'b App" where
  "PrintCommands a = fold (\<lambda>l. print (Ui_text l)) command_help a"

definition PrintBanner :: "'b App \<Rightarrow> 'b App" where
  "PrintBanner a =
     (let n = a_Node a;
          a1 = fold (\<lambda>l. print (Ui_text l))
                 [[], ''Node started.'', ''Name:           '' @ nc_Name (n_cfg n), ''ID:             '' @ shortID (id_ID (n_id n)),
                  ''Addr:           '' @ n_addr n, []] a
      in print (Ui_text []) (PrintCommands a1))"

definition handleCommand ::
  "'b app_env \<Rightarrow> cmd_orders \<Rightarrow> string + bytes \<Rightarrow> string \<Rightarrow> 'b App \<Rightarrow> bool \<times> 'b App" where
  "handleCommand e co rnd line a =
     (if prefix ''/quit'' line \<or> prefix ''/exit'' line then (True, StopAll (print (Ui_text ''quitting...'') a))
      else (False,
        if line = ''/me'' then
          print (Ui_you (nc_Name (n_cfg (a_Node a))) (userIDHex a) (id_ID (n_id (a_Node a))) (n_addr (a_Node a))
                   (PeerCount (ae_peers e) (a_Node a))) a
        else if line = ''/peers'' then
          (if SnapshotPeers (ae_peers e) (a_Node a) = [] then print (Ui_text ''no peers connected'') a
           else print (Ui_peers (SnapshotPeers (ae_peers e) (a_Node a))) a)
        else if prefix ''/say '' line then cmd_say e line a
        else if prefix ''/add '' line then cmd_add e line a
        else if line = ''/points'' then print (Ui_scores (All_snapshots (co_others co) (a_Points a))) a
        else if line = ''/lb'' then cmd_lb (co_totals co) a
        else if prefix ''/quizask '' line then cmd_quizask e line a
        else if line = ''/quizzes'' then cmd_quizzes (co_opens co) a
        else if prefix ''/quizanswer '' line then cmd_quizanswer e (co_opens co) (co_local co) line a
        else if prefix ''/mkchan '' line then cmd_mkchan rnd line a
        else if prefix ''/joinchan '' line then cmd_joinchan line a
        else if prefix ''/encsay '' line then cmd_encsay e rnd line a
        else print (Ui_text ''unknown command'') a))"

text \<open>The help is complete: a line whose first word is none of the listed commands is an unknown command (apart from \<^verbatim>\<open>/exit\<close>, and from
  words that begin with \<^verbatim>\<open>/quit\<close> or \<^verbatim>\<open>/exit\<close>).\<close>

definition first_word :: "string \<Rightarrow> string" where
  "first_word line = takeWhile (\<lambda>c. c \<noteq> CHR '' '') line"

definition help_commands :: "string list" where
  "help_commands = map (\<lambda>l. first_word (drop 4 l)) (tl command_help)"

lemma help_commands_eq: "help_commands = [''/say'', ''/add'', ''/me'', ''/points'', ''/lb'', ''/quizask'', ''/quizzes'', ''/quizanswer'', ''/peers'',
    ''/mkchan'', ''/joinchan'', ''/encsay'', ''/quit'']"
  by (simp add: help_commands_def command_help_def first_word_def)

lemma takeWhile_word: "CHR '' '' \<notin> set w \<Longrightarrow> takeWhile (\<lambda>c. c \<noteq> CHR '' '') (w @ CHR '' '' # y) = w"
  by (induction w) auto

lemma first_word_prefix: "prefix (w @ '' '') line \<Longrightarrow> CHR '' '' \<notin> set w \<Longrightarrow> first_word line = w"
  by (auto simp: prefix_def first_word_def takeWhile_word)

lemma unlisted_command_unknown:
  assumes "first_word line \<notin> set help_commands" "\<not> prefix ''/quit'' line" "\<not> prefix ''/exit'' line"
  shows "handleCommand e co rnd line a = (False, print (Ui_text ''unknown command'') a)"
proof -
  have "\<forall>w \<in> set help_commands. CHR '' '' \<notin> set w"
    by (simp add: help_commands_eq)
  then have "\<forall>w \<in> set help_commands. \<not> prefix (w @ '' '') line"
    using assms(1) first_word_prefix by blast
  then have "\<not> prefix ''/say '' line" "\<not> prefix ''/add '' line" "\<not> prefix ''/quizask '' line" "\<not> prefix ''/quizanswer '' line"
    "\<not> prefix ''/mkchan '' line" "\<not> prefix ''/joinchan '' line" "\<not> prefix ''/encsay '' line"
    by (simp_all add: help_commands_eq)
  moreover have "line \<notin> {''/me'', ''/peers'', ''/points'', ''/lb'', ''/quizzes''}"
    using assms(1) unfolding help_commands_eq by (simp add: first_word_def) force
  ultimately show ?thesis
    using assms(2,3) by (simp add: handleCommand_def)
qed

text \<open>The loop over the lines of standard input, each with its environment.\<close>

fun readStdin :: "('b app_env \<times> cmd_orders \<times> (string + bytes) \<times> string) list \<Rightarrow> 'b App \<Rightarrow> bool \<times> 'b App" where
  "readStdin [] a = (False, a)"
| "readStdin ((e, co, rnd, raw) # ls) a =
     (let line = TrimSpace raw
      in if line = [] then readStdin ls a
         else case handleCommand e co rnd line a of
                (True, a') \<Rightarrow> (True, a')
              | (False, a') \<Rightarrow> readStdin ls a')"

subsection \<open>All inputs of the application\<close>

datatype app_input = Message Envelope | NodeEvent Event | Line cmd_orders "string + bytes" string

text \<open>A run of the application: messages, events of the node and commands, in any order.\<close>

fun app_step :: "'b app_env \<Rightarrow> app_input \<Rightarrow> 'b App \<Rightarrow> 'b App" where
  "app_step e (Message env) a = app_handleEnvelope e env a"
| "app_step e (NodeEvent ev) a = handle_event e ev a"
| "app_step e (Line co rnd line) a = snd (handleCommand e co rnd line a)"

fun app_run :: "('b app_env \<times> app_input) list \<Rightarrow> 'b App \<Rightarrow> 'b App" where
  "app_run [] a = a"
| "app_run ((e, i) # ms) a = app_run ms (app_step e i a)"

lemma app_inv_channels [simp]: "app_inv cr bk (a\<lparr>a_encChannels := m\<rparr>) = app_inv cr bk a"
  by (simp add: app_inv_def)

lemma app_inv_sendEncrypted [inv_intros]: "app_inv cr bk a \<Longrightarrow> app_inv cr bk (sendEncrypted e rnd ch m a)"
  by (auto simp: sendEncrypted_def split: option.splits sum.splits intro: inv_intros)

lemma app_inv_commands:
  assumes "app_inv cr bk a"
  shows "app_inv cr bk (cmd_say e line a)" "app_inv cr bk (cmd_add e line a)" "app_inv cr bk (cmd_lb ts a)"
    "app_inv cr bk (cmd_quizask e line a)" "app_inv cr bk (cmd_quizzes os a)"
    "app_inv cr bk (cmd_quizanswer e os ls line a)" "app_inv cr bk (cmd_mkchan rnd line a)"
    "app_inv cr bk (cmd_joinchan line a)" "app_inv cr bk (cmd_encsay e rnd line a)"
  using assms
  by (auto simp: cmd_say_def cmd_add_def cmd_quizask_def cmd_quizzes_def cmd_quizanswer_def cmd_mkchan_def
      cmd_joinchan_def cmd_encsay_def broadcastPoints_def Let_def
      split: option.splits prod.splits sum.splits quizask.splits intro!: inv_intros)
     (simp add: cmd_lb_def Let_def app_inv_def print_def ledger_inv_NoteName)

lemma app_inv_banner [simp]: "app_inv cr bk (PrintBanner a) = app_inv cr bk a"
  by (simp add: PrintBanner_def PrintCommands_def command_help_def Let_def)

lemma banner_store [simp]: "a_GrantStore (PrintBanner a) = a_GrantStore a"
  by (simp add: PrintBanner_def PrintCommands_def command_help_def Let_def print_def)

lemma app_inv_StopAll: "app_inv cr bk a \<Longrightarrow> app_inv cr bk (StopAll a)"
  by (auto simp: app_inv_def StopAll_def StopNode_def node_invD intro!: node_inv_cong [of cr "a_Node a"])

lemma app_step_inv:
  assumes "app_inv (ae_cr e) (ae_bolt e) a" "bolt_ok (ae_bolt e)"
  shows "app_inv (ae_cr e) (ae_bolt e) (app_step e i a)"
proof (cases i)
  case (Line co rnd line)
  then show ?thesis
    using assms(1) by (simp add: handleCommand_def app_inv_commands app_inv_StopAll)
next
  case (NodeEvent ev)
  then show ?thesis
    using assms(1) by (auto simp: handle_event_def initiateGrantSync_def split: EventType.splits option.splits intro!: inv_intros)
qed (use app_inv_handleEnvelope [OF assms] in simp)

lemma app_run_inv:
  assumes "app_inv cr bk a" "bolt_ok bk"
    "\<forall>(e, i) \<in> set ms. ae_cr e = cr \<and> ae_bolt e = bk"
  shows "app_inv cr bk (app_run ms a)"
  using assms
proof (induction ms a rule: app_run.induct)
  case (2 e i ms a)
  then show ?case using app_step_inv [of e a i] by simp
qed simp

lemma command_store: "a_GrantStore (snd (handleCommand e co rnd line a)) = a_GrantStore a"
proof -
  note defs = print_def send_to_def gossip_all_def broadcastPoints_def Let_def
  have "a_GrantStore (cmd_say e line a) = a_GrantStore a" "a_GrantStore (cmd_lb ts a) = a_GrantStore a"
    "a_GrantStore (cmd_add e line a) = a_GrantStore a" "a_GrantStore (cmd_quizask e line a) = a_GrantStore a"
    "a_GrantStore (cmd_quizzes os a) = a_GrantStore a" "a_GrantStore (cmd_quizanswer e os ls line a) = a_GrantStore a"
    "a_GrantStore (cmd_mkchan rnd line a) = a_GrantStore a" "a_GrantStore (cmd_joinchan line a) = a_GrantStore a"
    "a_GrantStore (cmd_encsay e rnd line a) = a_GrantStore a" for ts os ls
    by (simp_all add: cmd_say_def cmd_lb_def cmd_add_def cmd_quizask_def cmd_quizzes_def cmd_quizanswer_def cmd_mkchan_def
        cmd_joinchan_def cmd_encsay_def sendEncrypted_def defs split: option.splits prod.splits sum.splits quizask.splits)
  then show ?thesis by (simp add: handleCommand_def StopAll_def print_def)
qed

lemma app_step_store:
  assumes "a_GrantStore a \<noteq> None"
  shows "a_GrantStore (app_step e i a) \<noteq> None"
proof (cases i)
  case (NodeEvent ev)
  then show ?thesis
    using assms by (auto simp: handle_event_def initiateGrantSync_def print_def send_to_def split: EventType.splits)
qed (use assms in \<open>simp_all add: app_handleEnvelope_store [OF assms] command_store\<close>)

lemma app_run_store: "a_GrantStore a \<noteq> None \<Longrightarrow> a_GrantStore (app_run ms a) \<noteq> None"
  by (induction ms a rule: app_run.induct) (simp_all add: app_step_store)

subsection \<open>Parsing a question\<close>

definition trimmed :: "string \<Rightarrow> bool" where
  "trimmed s \<longleftrightarrow> s \<noteq> [] \<and> \<not> is_space (hd s) \<and> \<not> is_space (last s)"

lemma TrimSpace_trimmed: "trimmed s \<Longrightarrow> TrimSpace s = s"
proof -
  assume t: "trimmed s"
  have "dropWhile is_space s = s" using t by (cases s) (auto simp: trimmed_def)
  moreover have "dropWhile is_space (rev s) = rev s" using t by (cases s rule: rev_cases) (auto simp: trimmed_def)
  ultimately show ?thesis by (simp add: TrimSpace_def)
qed

lemma TrimSpace_blank: "TrimSpace ('' '' @ s) = TrimSpace s" "trimmed s \<Longrightarrow> TrimSpace (s @ '' '') = s"
proof -
  have sp: "is_space CHR '' ''" by (simp add: is_space_def)
  then show "TrimSpace ('' '' @ s) = TrimSpace s" by (simp add: TrimSpace_def)
  assume t: "trimmed s"
  then have "dropWhile is_space (s @ '' '') = s @ '' ''" by (cases s) (auto simp: trimmed_def)
  moreover have "dropWhile is_space (rev (s @ '' '')) = rev s"
    using t sp by (cases s rule: rev_cases) (auto simp: trimmed_def)
  ultimately show "TrimSpace (s @ '' '') = s" by (simp add: TrimSpace_def)
qed

lemma Fields_word_blank: "word_ok w \<Longrightarrow> Fields (w @ '' '' @ s) = w # Fields s"
  using Fields_from_word [of w "[]" "'' '' @ s"] by (simp add: Fields_def word_ok_def is_space_def)

lemma Fields_not_Nil: "trimmed s \<Longrightarrow> Fields s \<noteq> []"
proof -
  have "cur \<noteq> [] \<Longrightarrow> Fields_from cur s \<noteq> []" for cur s by (induction cur s rule: Fields_from.induct) auto
  then show "trimmed s \<Longrightarrow> Fields s \<noteq> []" by (cases s) (auto simp: trimmed_def Fields_def)
qed

lemma ParseInt64_chars:
  assumes "ParseInt64 s = Some v"
  shows "s \<noteq> []" "\<forall>c \<in> set s. \<not> is_space c \<and> c \<noteq> CHR ''|''"
proof -
  have digit: "is_digit c \<Longrightarrow> \<not> is_space c \<and> c \<noteq> CHR ''|''" for c
    by (auto simp: is_digit_def is_space_def less_eq_char_def)
  have sign: "\<not> is_space CHR ''-''" "\<not> is_space CHR ''+''" by (simp_all add: is_space_def)
  show "s \<noteq> []" using assms by (auto simp: ParseInt64_def Let_def split: if_splits)
  show "\<forall>c \<in> set s. \<not> is_space c \<and> c \<noteq> CHR ''|''"
    using assms digit sign
    by (cases s) (auto simp: ParseInt64_def Let_def list_all_iff split: if_splits)
qed

lemma split_once_first: "sep \<notin> set l \<Longrightarrow> split_once sep (l @ sep # r) = Some (l, r)"
  by (induction l) (auto simp: split_once_def split: list.splits)

subsection \<open>Properties\<close>

text \<open>A quiz command is read back as it was written: points, time to live, question and answer, for one
  space between the numbers. With two spaces the numbers become part of the question.\<close>

lemma quizask_parsed:
  assumes "ParseInt64 ps = Some pts" "ParseInt64 ts = Some ttl" "trimmed q" "CHR ''|'' \<notin> set q" "trimmed ans"
  shows "parse_quizask (''/quizask '' @ ps @ '' '' @ ts @ '' '' @ q @ '' | '' @ ans) = Ask pts ttl q ans"
proof -
  have ws: "word_ok ps" "word_ok ts" using ParseInt64_chars [OF assms(1)] ParseInt64_chars [OF assms(2)] by (auto simp: word_ok_def)
  let ?left = "ps @ '' '' @ ts @ '' '' @ q"
  have bar: "CHR ''|'' \<notin> set (?left @ '' '')"
    using ParseInt64_chars(2) [OF assms(1)] ParseInt64_chars(2) [OF assms(2)] assms(4) by auto
  have left: "trimmed ?left" and line: "trimmed (?left @ '' | '' @ ans)"
    using ws assms(3,5) by (auto simp: trimmed_def word_ok_def hd_append)
  have "TrimSpace (TrimPrefix (''/quizask '' @ ?left @ '' | '' @ ans) ''/quizask'') = (?left @ '' '') @ CHR ''|'' # '' '' @ ans"
    using TrimSpace_blank(1) [of "?left @ '' | '' @ ans"] TrimSpace_trimmed [OF line] by (simp add: TrimPrefix_def)
  moreover have "TrimSpace (?left @ '' '') = ?left" by (rule TrimSpace_blank(2) [OF left])
  moreover have "TrimSpace ('' '' @ ans) = ans" using TrimSpace_blank(1) [of ans] TrimSpace_trimmed [OF assms(5)] by simp
  moreover have "Fields ?left = ps # ts # Fields q" using Fields_word_blank ws by simp
  moreover have "TrimPrefix ?left (ps @ '' '' @ ts) = '' '' @ q" by (simp add: TrimPrefix_def)
  moreover have "TrimSpace ('' '' @ q) = q" using TrimSpace_blank(1) [of q] TrimSpace_trimmed [OF assms(3)] by simp
  ultimately show ?thesis
    using split_once_first [OF bar, of "'' '' @ ans"] Fields_not_Nil [OF assms(3)] assms
    by (simp add: parse_quizask_def Let_def trimmed_def Suc_le_eq)
qed

lemma quizask_two_spaces: "parse_quizask ''/quizask 10  60 who? | cat'' = Ask 10 60 ''10  60 who?'' ''cat''"
  by code_simp

text \<open>Whatever messages, events and commands the application handles, the totals of its ledger stay the
  sums of the verified grants it holds, the two buckets of its store stay consistent, and its node keeps its
  invariant.\<close>

lemma app_invariant:
  assumes "NewNode cr ident cfg = Inr n" "sha256_size cr" "bolt_ok bk"
    "db = put_all bk ps (empty_db bk)" "NewApp e (Inr n) (Inr db) = Inr a"
    "\<forall>(e, i) \<in> set ms. ae_cr e = cr \<and> ae_bolt e = bk"
  shows "let a' = app_run ms a in
    (\<forall>p. Total (a_Ledger a') p = sum g_Points (grants_for (a_Ledger a') p)) \<and>
    (\<exists>db'. a_GrantStore a' = Some db' \<and> db_inv bk db') \<and> peers_inv (a_Node a') \<and> dht_inv cr (n_dht (a_Node a'))"
proof -
  have "db_inv bk db" using put_all_inv [OF assms(3) empty_db_inv] assms(3,4) by simp
  then have "app_inv cr bk a"
    using NewApp_parts [OF assms(5)] NewNode_inv [OF assms(1,2)] by (simp add: app_inv_def)
  then have inv: "app_inv cr bk (app_run ms a)" by (rule app_run_inv [OF _ assms(3,6)])
  have "a_GrantStore (app_run ms a) \<noteq> None" using app_run_store NewApp_parts(2) [OF assms(5)] by blast
  with inv show ?thesis by (auto simp: Let_def app_inv_def node_inv_def ledger_inv_def)
qed

end
