(* ===== verification/NoiseConn.thy ===== *)
theory NoiseConn
  imports GoLib
begin

text \<open>
  The encrypted transport (\<^verbatim>\<open>internal/crypto/noiseconn\<close>: \<^verbatim>\<open>helpers.go\<close>, \<^verbatim>\<open>noiseconn.go\<close>). The underlying
  stream is a \<open>wire\<close>: the bytes that will still arrive, the error a read past them gives, the bytes
  written so far and how many more are accepted before a write fails. The Noise library is the
  parameter \<open>noise_lib\<close>; what the program relies on is stated by \<open>noise_sync\<close> and \<open>noise_xx\<close>. The framing of
  handshake messages (two length bytes) and of transport frames (four) are two instances of
  the locale \<open>framing\<close>.
\<close>

subsection \<open>Streams\<close>

datatype io_error = EOF | ErrUnexpectedEOF | IOError string

datatype conn_error = Underlying io_error | MessageTooLong | InvalidLength | NoiseError string | NilCipher

record wire =
  w_in :: bytes
  w_inErr :: io_error
  w_out :: bytes
  w_room :: "nat option"
  w_outErr :: io_error

text \<open>\<^verbatim>\<open>io.ReadFull\<close>: an end of file in the middle is reported as \<^verbatim>\<open>ErrUnexpectedEOF\<close>.\<close>

definition ReadFull :: "nat \<Rightarrow> wire \<Rightarrow> (conn_error + bytes) \<times> wire" where
  "ReadFull n w =
     (if n \<le> length (w_in w) then (Inr (take n (w_in w)), w\<lparr>w_in := drop n (w_in w)\<rparr>)
      else (Inl (Underlying (if w_inErr w = EOF \<and> w_in w \<noteq> [] then ErrUnexpectedEOF else w_inErr w)),
            w\<lparr>w_in := []\<rparr>))"

text \<open>\<^verbatim>\<open>io.Writer.Write\<close>: a write that is not complete returns an error.\<close>

definition write_wire :: "bytes \<Rightarrow> wire \<Rightarrow> (conn_error + unit) \<times> wire" where
  "write_wire bs w =
     (case w_room w of
        None \<Rightarrow> (Inr (), w\<lparr>w_out := w_out w @ bs\<rparr>)
      | Some k \<Rightarrow>
          if length bs \<le> k then (Inr (), w\<lparr>w_out := w_out w @ bs, w_room := Some (k - length bs)\<rparr>)
          else (Inl (Underlying (w_outErr w)), w\<lparr>w_out := w_out w @ take k bs, w_room := Some 0\<rparr>))"

text \<open>\<^verbatim>\<open>Close\<close> of the underlying connection: nothing is read or written afterwards.\<close>

definition close_wire :: "wire \<Rightarrow> wire" where
  "close_wire w = w\<lparr>w_in := [], w_inErr := IOError ''use of closed network connection'', w_room := Some 0,
     w_outErr := IOError ''use of closed network connection''\<rparr>"

text \<open>Sequencing with an early return on error, \<^verbatim>\<open>if err != nil { return err }\<close>.\<close>

definition andthen :: "('s \<Rightarrow> ('e + 'a) \<times> 's) \<Rightarrow> ('a \<Rightarrow> 's \<Rightarrow> ('e + 'b) \<times> 's) \<Rightarrow> 's \<Rightarrow> ('e + 'b) \<times> 's" where
  "andthen m f s = (case m s of (Inl e, s') \<Rightarrow> (Inl e, s') | (Inr x, s') \<Rightarrow> f x s')"

definition yields :: "('e + 'a) \<Rightarrow> 's \<Rightarrow> ('e + 'a) \<times> 's" where
  "yields r s = (r, s)"

lemma andthen_simps:
  "m s = (Inl e, s') \<Longrightarrow> andthen m f s = (Inl e, s')"
  "m s = (Inr x, s') \<Longrightarrow> andthen m f s = f x s'"
  by (simp_all add: andthen_def)

lemma andthen_Inr_iff:
  "andthen m f s = (Inr y, s'') \<longleftrightarrow> (\<exists>x s'. m s = (Inr x, s') \<and> f x s' = (Inr y, s''))"
  by (auto simp: andthen_def split: prod.splits sum.splits)

subsection \<open>Handshake messages\<close>

definition writeHandshakeMsg :: "bytes \<Rightarrow> wire \<Rightarrow> (conn_error + unit) \<times> wire" where
  "writeHandshakeMsg msg =
     (if length msg > 0xffff then yields (Inl MessageTooLong)
      else andthen (write_wire (put_be 2 (word_of_nat (length msg) :: 16 word))) (\<lambda>_. write_wire msg))"

definition readHandshakeMsg :: "wire \<Rightarrow> (conn_error + bytes) \<times> wire" where
  "readHandshakeMsg =
     andthen (ReadFull 2) (\<lambda>lenBuf.
       let n = (get_be lenBuf :: 16 word)
       in if n = 0 then yields (Inl InvalidLength) else ReadFull (unat n))"

subsection \<open>The Noise library\<close>

text \<open>A handshake state \<open>'h\<close> and a cipher state \<open>'c\<close> are opaque. \<open>nl_new\<close> takes the ephemeral randomness;
  a message operation returns the two cipher states with the last message of the pattern only.\<close>

record ('h, 'c) noise_lib =
  nl_new :: "bytes \<Rightarrow> bool \<Rightarrow> bytes \<times> bytes \<Rightarrow> string + 'h"
  nl_write :: "'h \<Rightarrow> bytes \<Rightarrow> string + bytes \<times> ('c \<times> 'c) option \<times> 'h"
  nl_read :: "'h \<Rightarrow> bytes \<Rightarrow> string + bytes \<times> ('c \<times> 'c) option \<times> 'h"
  nl_encrypt :: "'c \<Rightarrow> bytes \<Rightarrow> (string + bytes) \<times> 'c"
  nl_decrypt :: "'c \<Rightarrow> bytes \<Rightarrow> (string + bytes) \<times> 'c"

definition noise_call :: "string + 'a \<Rightarrow> 's \<Rightarrow> (conn_error + 'a) \<times> 's" where
  "noise_call r s = (case r of Inl e \<Rightarrow> Inl (NoiseError e) | Inr x \<Rightarrow> Inr x, s)"

subsection \<open>Connections\<close>

record 'c SecureConn =
  sc_underlying :: wire
  sc_readCS :: "'c option"
  sc_writeCS :: "'c option"

record 'c HandshakeResult =
  hr_Conn :: "'c SecureConn"
  hr_RemotePayload :: bytes

definition on_wire :: "(wire \<Rightarrow> (conn_error + 'a) \<times> wire) \<Rightarrow> 'c SecureConn \<Rightarrow> (conn_error + 'a) \<times> 'c SecureConn" where
  "on_wire m c = (case m (sc_underlying c) of (r, w) \<Rightarrow> (r, c\<lparr>sc_underlying := w\<rparr>))"

definition decrypt_next ::
  "('h, 'c) noise_lib \<Rightarrow> bytes \<Rightarrow> 'c SecureConn \<Rightarrow> (conn_error + bytes) \<times> 'c SecureConn" where
  "decrypt_next nl ct c =
     (case sc_readCS c of
        None \<Rightarrow> (Inl NilCipher, c)
      | Some cs \<Rightarrow>
          (case nl_decrypt nl cs ct of
             (Inl e, cs') \<Rightarrow> (Inl (NoiseError e), c\<lparr>sc_readCS := Some cs'\<rparr>)
           | (Inr pt, cs') \<Rightarrow> (Inr pt, c\<lparr>sc_readCS := Some cs'\<rparr>)))"

definition encrypt_next ::
  "('h, 'c) noise_lib \<Rightarrow> bytes \<Rightarrow> 'c SecureConn \<Rightarrow> (conn_error + bytes) \<times> 'c SecureConn" where
  "encrypt_next nl p c =
     (case sc_writeCS c of
        None \<Rightarrow> (Inl NilCipher, c)
      | Some cs \<Rightarrow>
          (case nl_encrypt nl cs p of
             (Inl e, cs') \<Rightarrow> (Inl (NoiseError e), c\<lparr>sc_writeCS := Some cs'\<rparr>)
           | (Inr ct, cs') \<Rightarrow> (Inr ct, c\<lparr>sc_writeCS := Some cs'\<rparr>)))"

text \<open>The bytes of one frame.\<close>

definition read_frame :: "wire \<Rightarrow> (conn_error + bytes) \<times> wire" where
  "read_frame =
     andthen (ReadFull 4) (\<lambda>lenBuf.
       let n = (get_be lenBuf :: 32 word)
       in if n = 0 then yields (Inl InvalidLength) else ReadFull (unat n))"

definition write_frame :: "bytes \<Rightarrow> wire \<Rightarrow> (conn_error + unit) \<times> wire" where
  "write_frame ct = andthen (write_wire (put_be 4 (word_of_nat (length ct) :: 32 word))) (\<lambda>_. write_wire ct)"

text \<open>\<^verbatim>\<open>Read(p)\<close> with \<open>len(p) = k\<close>: the bytes copied to \<open>p\<close> and whether the error is \<^verbatim>\<open>io.ErrShortBuffer\<close>.\<close>

definition SecureRead ::
  "('h, 'c) noise_lib \<Rightarrow> nat \<Rightarrow> 'c SecureConn \<Rightarrow> (conn_error + bytes \<times> bool) \<times> 'c SecureConn" where
  "SecureRead nl k =
     andthen (on_wire read_frame) (\<lambda>ct.
     andthen (decrypt_next nl ct) (\<lambda>pt.
       if length pt > k then yields (Inr (take k pt, True)) else yields (Inr (pt, False))))"

definition SecureWrite ::
  "('h, 'c) noise_lib \<Rightarrow> bytes \<Rightarrow> 'c SecureConn \<Rightarrow> (conn_error + nat) \<times> 'c SecureConn" where
  "SecureWrite nl p =
     andthen (encrypt_next nl p) (\<lambda>ct.
     andthen (on_wire (write_frame ct)) (\<lambda>_. yields (Inr (length p))))"

definition SecureClose :: "'c SecureConn \<Rightarrow> 'c SecureConn" where
  "SecureClose c = c\<lparr>sc_underlying := close_wire (sc_underlying c)\<rparr>"

subsection \<open>The handshake\<close>

definition handshake_result :: "wire \<Rightarrow> 'c option \<Rightarrow> 'c option \<Rightarrow> bytes \<Rightarrow> 'c HandshakeResult" where
  "handshake_result w recv send payload =
     \<lparr>hr_Conn = \<lparr>sc_underlying = w, sc_readCS = recv, sc_writeCS = send\<rparr>, hr_RemotePayload = payload\<rparr>"

definition NewSecureClient ::
  "('h, 'c) noise_lib \<Rightarrow> bytes \<Rightarrow> bytes \<times> bytes \<Rightarrow> bytes \<Rightarrow> wire \<Rightarrow> (conn_error + 'c HandshakeResult) \<times> wire" where
  "NewSecureClient nl rnd static localPayload =
     andthen (noise_call (nl_new nl rnd True static)) (\<lambda>hs.
     andthen (noise_call (nl_write nl hs [])) (\<lambda>(msg1, _, hs1).
     andthen (writeHandshakeMsg msg1) (\<lambda>_.
     andthen readHandshakeMsg (\<lambda>msg2.
     andthen (noise_call (nl_read nl hs1 msg2)) (\<lambda>(_, _, hs2).
     andthen (noise_call (nl_write nl hs2 localPayload)) (\<lambda>(msg3, cs, _).
     andthen (writeHandshakeMsg msg3) (\<lambda>_ w.
       (Inr (handshake_result w (map_option snd cs) (map_option fst cs) []), w))))))))"

definition NewSecureServer ::
  "('h, 'c) noise_lib \<Rightarrow> bytes \<Rightarrow> bytes \<times> bytes \<Rightarrow> wire \<Rightarrow> (conn_error + 'c HandshakeResult) \<times> wire" where
  "NewSecureServer nl rnd static =
     andthen (noise_call (nl_new nl rnd False static)) (\<lambda>hs.
     andthen readHandshakeMsg (\<lambda>msg1.
     andthen (noise_call (nl_read nl hs msg1)) (\<lambda>(_, _, hs1).
     andthen (noise_call (nl_write nl hs1 [])) (\<lambda>(msg2, _, hs2).
     andthen (writeHandshakeMsg msg2) (\<lambda>_.
     andthen readHandshakeMsg (\<lambda>msg3.
     andthen (noise_call (nl_read nl hs2 msg3)) (\<lambda>(remotePayload, cs, _) w.
       (Inr (handshake_result w (map_option fst cs) (map_option snd cs) remotePayload), w))))))))"

subsection \<open>Contracts\<close>

text \<open>A framing writes a message so that it can be read back from the front of a stream, and refuses
  a stream that ends inside a message.\<close>

definition hs_encode :: "bytes \<Rightarrow> bytes" where
  "hs_encode msg = put_be 2 (word_of_nat (length msg) :: 16 word) @ msg"

definition frame_encode :: "bytes \<Rightarrow> bytes" where
  "frame_encode ct = put_be 4 (word_of_nat (length ct) :: 32 word) @ ct"

locale framing =
  fixes put :: "bytes \<Rightarrow> wire \<Rightarrow> (conn_error + unit) \<times> wire"
    and get :: "wire \<Rightarrow> (conn_error + bytes) \<times> wire"
    and encode :: "bytes \<Rightarrow> bytes"
    and valid :: "bytes \<Rightarrow> bool"
    and hdr :: nat
  assumes put_valid: "valid m \<Longrightarrow> w_room w = None \<Longrightarrow> put m w = (Inr (), w\<lparr>w_out := w_out w @ encode m\<rparr>)"
    and get_encode: "valid m \<Longrightarrow> w_in w = encode m @ rest \<Longrightarrow> get w = (Inr m, w\<lparr>w_in := rest\<rparr>)"
    and get_cut: "valid m \<Longrightarrow> encode m = pre @ suf \<Longrightarrow> suf \<noteq> [] \<Longrightarrow> w_in w = pre \<Longrightarrow> w_inErr w = EOF \<Longrightarrow>
      fst (get w) = Inl (Underlying (if length pre \<in> {0, hdr} then EOF else ErrUnexpectedEOF))"
begin

lemma encode_prefix_free:
  assumes "valid a" "valid b" "encode a @ x = encode b @ y"
  shows "a = b \<and> x = y"
proof -
  define w where "w = \<lparr>w_in = encode a @ x, w_inErr = EOF, w_out = [], w_room = None, w_outErr = EOF\<rparr>"
  have "w_in w = encode a @ x" "w_in w = encode b @ y"
    by (simp_all add: w_def assms(3))
  then have "get w = (Inr a, w\<lparr>w_in := x\<rparr>)" "get w = (Inr b, w\<lparr>w_in := y\<rparr>)"
    using get_encode assms(1,2) by blast+
  then show ?thesis
    by (metis Pair_inject sum.inject(2) wire.select_convs(1) wire.surjective wire.update_convs(1))
qed

text \<open>What was put is got, in order.\<close>

lemma get_put:
  assumes "valid m" "w_room w = None" "put m w = (r, w')" "w_in v = drop (length (w_out w)) (w_out w') @ rest"
  shows "r = Inr () \<and> get v = (Inr m, v\<lparr>w_in := rest\<rparr>)"
  using assms put_valid [OF assms(1,2)] get_encode [OF assms(1), of v rest] by auto

end

text \<open>Both framings are a length of \<open>k\<close> bytes followed by the message.\<close>

lemma ReadFull_take: "w_in w = a @ b \<Longrightarrow> length a = n \<Longrightarrow> ReadFull n w = (Inr a, w\<lparr>w_in := b\<rparr>)"
  by (auto simp: ReadFull_def)

lemma ReadFull_cut: "length (w_in w) < n \<Longrightarrow> w_inErr w = EOF \<Longrightarrow>
    ReadFull n w = (Inl (Underlying (if w_in w = [] then EOF else ErrUnexpectedEOF)), w\<lparr>w_in := []\<rparr>)"
  by (simp add: ReadFull_def)

definition read_lv :: "nat \<Rightarrow> (bytes \<Rightarrow> nat) \<Rightarrow> wire \<Rightarrow> (conn_error + bytes) \<times> wire" where
  "read_lv k len = andthen (ReadFull k) (\<lambda>b. if len b = 0 then yields (Inl InvalidLength) else ReadFull (len b))"

lemma read_lv_encode:
  assumes "w_in w = hdr @ m @ rest" "length hdr = k" "len hdr = length m" "m \<noteq> []"
  shows "read_lv k len w = (Inr m, w\<lparr>w_in := rest\<rparr>)"
proof -
  have "ReadFull k w = (Inr hdr, w\<lparr>w_in := m @ rest\<rparr>)"
    using assms by (simp add: ReadFull_take)
  moreover have "ReadFull (length m) (w\<lparr>w_in := m @ rest\<rparr>) = (Inr m, w\<lparr>w_in := rest\<rparr>)"
    by (simp add: ReadFull_take)
  ultimately show ?thesis
    using assms by (simp add: read_lv_def andthen_simps)
qed

lemma read_lv_cut:
  assumes "hdr @ m = w_in w @ suf" "suf \<noteq> []" "length hdr = k" "len hdr = length m" "w_inErr w = EOF"
  shows "fst (read_lv k len w) = Inl (Underlying (if length (w_in w) \<in> {0, k} then EOF else ErrUnexpectedEOF))"
proof (cases "length (w_in w) < k")
  case True
  then show ?thesis
    using assms by (simp add: read_lv_def andthen_simps ReadFull_cut)
next
  case False
  then obtain b where b: "w_in w = hdr @ b" "m = b @ suf"
    using assms(1,3) by (metis append_eq_append_conv_if append_take_drop_id linorder_not_less take_all_iff)
  have "ReadFull k w = (Inr hdr, w\<lparr>w_in := b\<rparr>)"
    using b assms(3) by (simp add: ReadFull_take)
  moreover have "length b < len hdr" "len hdr \<noteq> 0"
    using b assms(2,4) by auto
  ultimately show ?thesis
    using b assms(3,5) by (auto simp: read_lv_def andthen_simps ReadFull_cut)
qed

lemma readHandshakeMsg_lv: "readHandshakeMsg = read_lv 2 (\<lambda>b. unat (get_be b :: 16 word))"
  by (simp add: readHandshakeMsg_def read_lv_def Let_def unat_eq_zero)

lemma read_frame_lv: "read_frame = read_lv 4 (\<lambda>b. unat (get_be b :: 32 word))"
  by (simp add: read_frame_def read_lv_def Let_def unat_eq_zero)

lemma get_put_length:
  "n < 65536 \<Longrightarrow> unat (get_be (put_be 2 (word_of_nat n :: 16 word)) :: 16 word) = n"
  "n < 4294967296 \<Longrightarrow> unat (get_be (put_be 4 (word_of_nat n :: 32 word)) :: 32 word) = n"
  by (simp_all add: get_be_def be_val_put_be unat_of_nat)

interpretation hsm: framing writeHandshakeMsg readHandshakeMsg hs_encode "\<lambda>m. m \<noteq> [] \<and> length m \<le> 0xffff" 2
proof
  fix m :: bytes and w :: wire
  assume "m \<noteq> [] \<and> length m \<le> 0xffff" "w_room w = None"
  then show "writeHandshakeMsg m w = (Inr (), w\<lparr>w_out := w_out w @ hs_encode m\<rparr>)"
    by (simp add: writeHandshakeMsg_def hs_encode_def andthen_def write_wire_def)
next
  fix m rest :: bytes and w :: wire
  assume "m \<noteq> [] \<and> length m \<le> 0xffff" "w_in w = hs_encode m @ rest"
  then show "readHandshakeMsg w = (Inr m, w\<lparr>w_in := rest\<rparr>)"
    unfolding readHandshakeMsg_lv by (intro read_lv_encode) (auto simp: hs_encode_def get_put_length)
next
  fix m pre suf :: bytes and w :: wire
  assume "m \<noteq> [] \<and> length m \<le> 0xffff" "hs_encode m = pre @ suf" "suf \<noteq> []" "w_in w = pre" "w_inErr w = EOF"
  then show "fst (readHandshakeMsg w) = Inl (Underlying (if length pre \<in> {0, 2} then EOF else ErrUnexpectedEOF))"
    unfolding readHandshakeMsg_lv
    using read_lv_cut [of "put_be 2 (word_of_nat (length m) :: 16 word)" m w suf 2 "\<lambda>b. unat (get_be b :: 16 word)"]
    by (simp add: hs_encode_def get_put_length)
qed

interpretation frm: framing write_frame read_frame frame_encode "\<lambda>m. m \<noteq> [] \<and> length m < 4294967296" 4
proof
  fix m :: bytes and w :: wire
  assume "m \<noteq> [] \<and> length m < 4294967296" "w_room w = None"
  then show "write_frame m w = (Inr (), w\<lparr>w_out := w_out w @ frame_encode m\<rparr>)"
    by (simp add: write_frame_def frame_encode_def andthen_def write_wire_def)
next
  fix m rest :: bytes and w :: wire
  assume "m \<noteq> [] \<and> length m < 4294967296" "w_in w = frame_encode m @ rest"
  then show "read_frame w = (Inr m, w\<lparr>w_in := rest\<rparr>)"
    unfolding read_frame_lv by (intro read_lv_encode) (auto simp: frame_encode_def get_put_length)
next
  fix m pre suf :: bytes and w :: wire
  assume "m \<noteq> [] \<and> length m < 4294967296" "frame_encode m = pre @ suf" "suf \<noteq> []" "w_in w = pre" "w_inErr w = EOF"
  then show "fst (read_frame w) = Inl (Underlying (if length pre \<in> {0, 4} then EOF else ErrUnexpectedEOF))"
    unfolding read_frame_lv
    using read_lv_cut [of "put_be 4 (word_of_nat (length m) :: 32 word)" m w suf 4 "\<lambda>b. unat (get_be b :: 32 word)"]
    by (simp add: frame_encode_def get_put_length)
qed

subsection \<open>Behaviour of the library the program relies on\<close>

text \<open>\<open>S n s r\<close>: the sending state \<open>s\<close> and the receiving state \<open>r\<close> of two parties are in step, with \<open>n\<close>
  nonces left. A message of at most \<open>L\<close> bytes is then encrypted to a non-empty frame, which the other side
  decrypts, and both advance.\<close>

definition noise_sync :: "('h, 'c) noise_lib \<Rightarrow> nat \<Rightarrow> (nat \<Rightarrow> 'c \<Rightarrow> 'c \<Rightarrow> bool) \<Rightarrow> bool" where
  "noise_sync nl L S \<longleftrightarrow>
     (\<forall>n s r p. S (Suc n) s r \<longrightarrow> length p \<le> L \<longrightarrow>
        (\<exists>ct s' r'. nl_encrypt nl s p = (Inr ct, s') \<and> ct \<noteq> [] \<and> length ct < 4294967296 \<and>
           nl_decrypt nl r ct = (Inr p, r') \<and> S n s' r'))"

text \<open>The XX pattern: three messages within the limit of the protocol, the last with a payload of at most
  65535 - 64 bytes; the writer of the last message sends with the first cipher state and receives with the second, its
  reader the other way round.\<close>

definition noise_xx :: "('h, 'c) noise_lib \<Rightarrow> nat \<Rightarrow> (nat \<Rightarrow> 'c \<Rightarrow> 'c \<Rightarrow> bool) \<Rightarrow> bool" where
  "noise_xx nl N S \<longleftrightarrow>
     (\<forall>ri ki hi rr kr hr payload.
        nl_new nl ri True ki = Inr hi \<longrightarrow> nl_new nl rr False kr = Inr hr \<longrightarrow> length payload \<le> 65471 \<longrightarrow>
        (\<exists>m1 hi1 hr1 m2 hr2 hi2 m3 hi3 hr3 a b a' b'.
           nl_write nl hi [] = Inr (m1, None, hi1) \<and> nl_read nl hr m1 = Inr ([], None, hr1) \<and>
           nl_write nl hr1 [] = Inr (m2, None, hr2) \<and> nl_read nl hi1 m2 = Inr ([], None, hi2) \<and>
           nl_write nl hi2 payload = Inr (m3, Some (a, b), hi3) \<and>
           nl_read nl hr2 m3 = Inr (payload, Some (a', b'), hr3) \<and>
           S N a a' \<and> S N b' b \<and> (\<forall>m \<in> {m1, m2, m3}. m \<noteq> [] \<and> length m \<le> 0xffff)))"

subsection \<open>Streams of messages\<close>

fun write_all :: "('h, 'c) noise_lib \<Rightarrow> bytes list \<Rightarrow> 'c SecureConn \<Rightarrow> (conn_error + unit) \<times> 'c SecureConn" where
  "write_all nl [] c = (Inr (), c)"
| "write_all nl (p # ps) c = andthen (SecureWrite nl p) (\<lambda>_. write_all nl ps) c"

text \<open>\<open>ks\<close>: the sizes of the buffers of successive calls of \<^verbatim>\<open>Read\<close>.\<close>

fun read_all ::
  "('h, 'c) noise_lib \<Rightarrow> nat list \<Rightarrow> 'c SecureConn \<Rightarrow> (conn_error + (bytes \<times> bool) list) \<times> 'c SecureConn" where
  "read_all nl [] c = (Inr [], c)"
| "read_all nl (k # ks) c =
     andthen (SecureRead nl k) (\<lambda>d. andthen (read_all nl ks) (\<lambda>ds. yields (Inr (d # ds)))) c"

text \<open>A successful write appends one frame; reading it gives as much of the message as fits.\<close>

lemma SecureWrite_step:
  assumes "sc_writeCS c = Some s" "w_room (sc_underlying c) = None"
    and "nl_encrypt nl s p = (Inr ct, s')" "ct \<noteq> []" "length ct < 4294967296"
  shows "SecureWrite nl p c = (Inr (length p), c\<lparr>sc_writeCS := Some s',
           sc_underlying := (sc_underlying c)\<lparr>w_out := w_out (sc_underlying c) @ frame_encode ct\<rparr>\<rparr>)"
  using assms frm.put_valid [of ct "sc_underlying c"]
  by (simp add: SecureWrite_def andthen_def encrypt_next_def on_wire_def yields_def)

lemma SecureRead_step:
  assumes "sc_readCS c = Some r" "w_in (sc_underlying c) = frame_encode ct @ rest"
    and "nl_decrypt nl r ct = (Inr p, r')" "ct \<noteq> []" "length ct < 4294967296"
  shows "SecureRead nl k c = (Inr (take k p, k < length p), c\<lparr>sc_readCS := Some r',
           sc_underlying := (sc_underlying c)\<lparr>w_in := rest\<rparr>\<rparr>)"
  using assms frm.get_encode [of ct "sc_underlying c" rest]
  by (simp add: SecureRead_def andthen_def decrypt_next_def on_wire_def yields_def)

lemma stream_roundtrip:
  assumes "noise_sync nl L S" "S n s r" "length ps \<le> n" "\<forall>p \<in> set ps. length p \<le> L"
    and "sc_writeCS c = Some s" "w_room (sc_underlying c) = None"
  shows "\<exists>sent c'. write_all nl ps c = (Inr (), c') \<and>
           w_out (sc_underlying c') = w_out (sc_underlying c) @ sent \<and>
           (\<forall>d ks rest. sc_readCS d = Some r \<longrightarrow> w_in (sc_underlying d) = sent @ rest \<longrightarrow> length ks = length ps \<longrightarrow>
              (\<exists>d'. read_all nl ks d = (Inr (map2 (\<lambda>k p. (take k p, k < length p)) ks ps), d') \<and>
                 w_in (sc_underlying d') = rest))"
  using assms(2-)
proof (induction ps arbitrary: n s r c)
  case (Cons p ps)
  then obtain n' where n': "n = Suc n'" "length ps \<le> n'"
    by (cases n) auto
  obtain ct s' r' where st: "nl_encrypt nl s p = (Inr ct, s')" "ct \<noteq> []" "length ct < 4294967296"
      "nl_decrypt nl r ct = (Inr p, r')" "S n' s' r'"
    using assms(1) Cons.prems(1,3) n'(1) unfolding noise_sync_def by (meson list.set_intros(1))
  let ?c = "c\<lparr>sc_writeCS := Some s', sc_underlying := (sc_underlying c)\<lparr>w_out := w_out (sc_underlying c) @ frame_encode ct\<rparr>\<rparr>"
  have w: "SecureWrite nl p c = (Inr (length p), ?c)"
    using Cons.prems st by (intro SecureWrite_step)
  obtain sent c' where ih: "write_all nl ps ?c = (Inr (), c')"
      "w_out (sc_underlying c') = w_out (sc_underlying ?c) @ sent"
      "\<And>d ks rest. sc_readCS d = Some r' \<Longrightarrow> w_in (sc_underlying d) = sent @ rest \<Longrightarrow> length ks = length ps \<Longrightarrow>
         \<exists>d'. read_all nl ks d = (Inr (map2 (\<lambda>k p. (take k p, k < length p)) ks ps), d') \<and> w_in (sc_underlying d') = rest"
    using Cons.IH [OF st(5) n'(2), of ?c] Cons.prems by auto
  have "\<exists>d'. read_all nl ks d = (Inr (map2 (\<lambda>k p. (take k p, k < length p)) ks (p # ps)), d') \<and> w_in (sc_underlying d') = rest"
    if d: "sc_readCS d = Some r" "w_in (sc_underlying d) = (frame_encode ct @ sent) @ rest"
      "length ks = length (p # ps)" for d ks rest
  proof -
    obtain k ks' where ks: "ks = k # ks'" "length ks' = length ps"
      using d(3) by (cases ks) auto
    let ?d = "d\<lparr>sc_readCS := Some r', sc_underlying := (sc_underlying d)\<lparr>w_in := sent @ rest\<rparr>\<rparr>"
    have r: "SecureRead nl k d = (Inr (take k p, k < length p), ?d)"
      using d st by (intro SecureRead_step) auto
    obtain d' where "read_all nl ks' ?d = (Inr (map2 (\<lambda>k p. (take k p, k < length p)) ks' ps), d')"
        "w_in (sc_underlying d') = rest"
      using ih(3) [of ?d rest ks'] ks(2) by auto
    then show ?thesis
      by (simp add: ks r andthen_def yields_def)
  qed
  then show ?case
    using w ih(1,2) by (intro exI [of _ "frame_encode ct @ sent"] exI [of _ c']) (simp add: andthen_simps(2))
qed simp

subsection \<open>The handshake of two parties\<close>

definition wire_in :: "bytes \<Rightarrow> wire" where
  "wire_in bs = \<lparr>w_in = bs, w_inErr = EOF, w_out = [], w_room = None, w_outErr = EOF\<rparr>"

text \<open>Both runs, whatever follows the handshake messages on the two streams.\<close>

lemma handshake_agrees:
  assumes "noise_xx nl N S" "nl_new nl ri True ki = Inr hi" "nl_new nl rr False kr = Inr hr"
    and "length payload \<le> 65471"
  shows "\<exists>toServer toClient a b a' b'. S N a a' \<and> S N b' b \<and>
     (\<forall>x. NewSecureClient nl ri ki payload (wire_in (toClient @ x)) =
        (Inr (handshake_result ((wire_in x)\<lparr>w_out := toServer\<rparr>) (Some b) (Some a) []), (wire_in x)\<lparr>w_out := toServer\<rparr>)) \<and>
     (\<forall>x. NewSecureServer nl rr kr (wire_in (toServer @ x)) =
        (Inr (handshake_result ((wire_in x)\<lparr>w_out := toClient\<rparr>) (Some a') (Some b') payload),
         (wire_in x)\<lparr>w_out := toClient\<rparr>))"
proof -
  obtain m1 hi1 hr1 m2 hr2 hi2 m3 hi3 hr3 a b a' b' where hs:
      "nl_write nl hi [] = Inr (m1, None, hi1)" "nl_read nl hr m1 = Inr ([], None, hr1)"
      "nl_write nl hr1 [] = Inr (m2, None, hr2)" "nl_read nl hi1 m2 = Inr ([], None, hi2)"
      "nl_write nl hi2 payload = Inr (m3, Some (a, b), hi3)"
      "nl_read nl hr2 m3 = Inr (payload, Some (a', b'), hr3)"
      "S N a a'" "S N b' b" "\<forall>m \<in> {m1, m2, m3}. m \<noteq> [] \<and> length m \<le> 0xffff"
    using assms(1) [unfolded noise_xx_def, rule_format, OF assms(2-4)] by (elim exE conjE) (rule that; assumption)
  note ok = hs(9) [THEN bspec, of m1, simplified] hs(9) [THEN bspec, of m2, simplified]
    hs(9) [THEN bspec, of m3, simplified]
  note run = andthen_def noise_call_def hsm.put_valid hsm.get_encode wire_in_def hs(1-6) assms(2,3)
  let ?wc = "\<lambda>x. (wire_in x)\<lparr>w_out := hs_encode m1 @ hs_encode m3\<rparr>"
  let ?ws = "\<lambda>x. (wire_in x)\<lparr>w_out := hs_encode m2\<rparr>"
  have "NewSecureClient nl ri ki payload (wire_in (hs_encode m2 @ x)) =
      (Inr (handshake_result (?wc x) (Some b) (Some a) []), ?wc x)" for x
    using ok by (simp add: NewSecureClient_def run)
  moreover have "NewSecureServer nl rr kr (wire_in ((hs_encode m1 @ hs_encode m3) @ x)) =
      (Inr (handshake_result (?ws x) (Some a') (Some b') payload), ?ws x)" for x
    using ok by (simp add: NewSecureServer_def run)
  ultimately show ?thesis
    using hs(7,8) by blast
qed

subsection \<open>Sessions\<close>

text \<open>Whatever \<open>a\<close> writes next, \<open>b\<close> reads, message by message, as far as its buffers reach.\<close>

definition delivers :: "('h, 'c) noise_lib \<Rightarrow> 'c SecureConn \<Rightarrow> 'c SecureConn \<Rightarrow> bytes list \<Rightarrow> bool" where
  "delivers nl a b ps \<longleftrightarrow>
     (\<exists>sent a'. write_all nl ps a = (Inr (), a') \<and> w_out (sc_underlying a') = w_out (sc_underlying a) @ sent \<and>
        (\<forall>ks. length ks = length ps \<longrightarrow>
           fst (read_all nl ks (b\<lparr>sc_underlying := (sc_underlying b)\<lparr>w_in := w_in (sc_underlying b) @ sent\<rparr>\<rparr>)) =
             Inr (map2 (\<lambda>k p. (take k p, k < length p)) ks ps)))"

lemma deliversI:
  assumes "noise_sync nl L S" "S n s r" "length ps \<le> n" "\<forall>p \<in> set ps. length p \<le> L"
    and "sc_writeCS a = Some s" "w_room (sc_underlying a) = None" "sc_readCS b = Some r" "w_in (sc_underlying b) = []"
  shows "delivers nl a b ps"
proof -
  obtain sent a' where w: "write_all nl ps a = (Inr (), a')" "w_out (sc_underlying a') = w_out (sc_underlying a) @ sent"
      "\<And>d ks rest. sc_readCS d = Some r \<Longrightarrow> w_in (sc_underlying d) = sent @ rest \<Longrightarrow> length ks = length ps \<Longrightarrow>
         \<exists>d'. read_all nl ks d = (Inr (map2 (\<lambda>k p. (take k p, k < length p)) ks ps), d') \<and> w_in (sc_underlying d') = rest"
    using stream_roundtrip [OF assms(1-6)] by blast
  let ?b = "b\<lparr>sc_underlying := (sc_underlying b)\<lparr>w_in := w_in (sc_underlying b) @ sent\<rparr>\<rparr>"
  have "fst (read_all nl ks ?b) = Inr (map2 (\<lambda>k p. (take k p, k < length p)) ks ps)" if "length ks = length ps" for ks
    using w(3) [of ?b "[]" ks] assms(7,8) that by auto
  then show ?thesis
    using w(1,2) unfolding delivers_def by blast
qed


text \<open>A concrete library: a message carries its number and its payload, a frame its nonce and the message.\<close>

definition demo_noise :: "(nat, nat) noise_lib" where
  "demo_noise = \<lparr>nl_new = (\<lambda>_ _ _. Inr 0),
     nl_write = (\<lambda>h p. Inr (word_of_nat h # p, if h = 2 then Some (0, 0) else None, Suc h)),
     nl_read = (\<lambda>h m. if m \<noteq> [] \<and> hd m = word_of_nat h then Inr (tl m, if h = 2 then Some (0, 0) else None, Suc h)
                 else Inl ''bad message''),
     nl_encrypt = (\<lambda>n p. (Inr (word_of_nat n # p), Suc n)),
     nl_decrypt = (\<lambda>n ct. (if ct \<noteq> [] \<and> hd ct = word_of_nat n then Inr (tl ct) else Inl ''bad tag'', Suc n))\<rparr>"

definition in_step :: "nat \<Rightarrow> nat \<Rightarrow> nat \<Rightarrow> bool" where
  "in_step n s r \<longleftrightarrow> s = r"

lemma demo_noise_ok: "noise_xx demo_noise N in_step" "noise_sync demo_noise 65519 in_step"
  by (simp_all add: noise_xx_def noise_sync_def demo_noise_def in_step_def)


end
