(* ===== verification/EnvelopeStream.thy ===== *)
theory EnvelopeStream
  imports NoiseConn Json
begin

text \<open>
  The stream of JSON envelopes on an encrypted connection, as \<^verbatim>\<open>internal/p2p/session.go\<close> reads it:
  \<^verbatim>\<open>json.NewDecoder(bufio.NewReader(conn))\<close> on the receiving side, \<^verbatim>\<open>json.Encoder\<close> (one \<^verbatim>\<open>Write\<close> per value, followed by
  a newline) on the sending side. The buffering of \<^verbatim>\<open>bufio.Reader\<close> and of \<^verbatim>\<open>json.Decoder\<close> is modelled as the standard
  library does it, because the size of the buffer that reaches \<^verbatim>\<open>SecureConn.Read\<close> decides whether a
  frame is cut. The scanner and the mapping to values are the parameter \<open>json\<close>, for which \<open>Wire\<close> puts the JSON of \<open>Json\<close> and
  \<open>Codec\<close>.
\<close>

subsection \<open>The buffered reader\<close>

datatype read_error = ConnError conn_error | ErrShortBuffer | SyntaxErr | UnmarshalErr | UnexpectedEOF | ReadTimeout

text \<open>\<open>ds_buf\<close> and \<open>ds_rerr\<close> are the unread part of the buffer and the pending error of \<^verbatim>\<open>bufio.Reader\<close>;
  \<open>ds_pending\<close>, \<open>ds_spare\<close> and \<open>ds_err\<close> the unread part of the buffer, the rest of its capacity and the sticky error of
  \<^verbatim>\<open>json.Decoder\<close>.\<close>

record 'c dstate =
  ds_conn :: "'c SecureConn"
  ds_buf :: bytes
  ds_rerr :: "read_error option"
  ds_pending :: bytes
  ds_spare :: nat
  ds_err :: "read_error option"

definition NewDecoder :: "'c SecureConn \<Rightarrow> 'c dstate" where
  "NewDecoder c = \<lparr>ds_conn = c, ds_buf = [], ds_rerr = None, ds_pending = [], ds_spare = 0, ds_err = None\<rparr>"

definition defaultBufSize :: nat where "defaultBufSize = 4096"
definition minRead :: nat where "minRead = 512"

definition conn_read :: "('h, 'c) noise_lib \<Rightarrow> nat \<Rightarrow> 'c dstate \<Rightarrow> (bytes \<times> read_error option) \<times> 'c dstate" where
  "conn_read nl k st =
     (case SecureRead nl k (ds_conn st) of
        (Inl e, c) \<Rightarrow> (([], Some (ConnError e)), st\<lparr>ds_conn := c\<rparr>)
      | (Inr (d, short), c) \<Rightarrow> ((d, if short then Some ErrShortBuffer else None), st\<lparr>ds_conn := c\<rparr>))"

definition bufio_Read :: "('h, 'c) noise_lib \<Rightarrow> nat \<Rightarrow> 'c dstate \<Rightarrow> (bytes \<times> read_error option) \<times> 'c dstate" where
  "bufio_Read nl k st =
     (if ds_buf st \<noteq> [] then ((take k (ds_buf st), None), st\<lparr>ds_buf := drop k (ds_buf st)\<rparr>)
      else case ds_rerr st of
        Some e \<Rightarrow> (([], Some e), st\<lparr>ds_rerr := None\<rparr>)
      | None \<Rightarrow>
          if k \<ge> defaultBufSize then conn_read nl k st
          else
            (case conn_read nl defaultBufSize st of
               ((d, e), st') \<Rightarrow>
                 if d = [] then (([], e), st')
                 else ((take k d, None), st'\<lparr>ds_buf := drop k d, ds_rerr := e\<rparr>)))"

subsection \<open>The decoder\<close>

record 'v json =
  j_scan :: "bytes \<Rightarrow> scan_result"
  j_unmarshal :: "bytes \<Rightarrow> 'v option"
  j_marshal :: "'v \<Rightarrow> bytes"

definition json_space :: "byte \<Rightarrow> bool" where
  "json_space b \<longleftrightarrow> b \<in> {32, 9, 13, 10}"

text \<open>The unread bytes are moved to the front; a buffer with less than \<^verbatim>\<open>minRead\<close> bytes free is doubled.\<close>

definition refill :: "('h, 'c) noise_lib \<Rightarrow> 'c dstate \<Rightarrow> read_error option \<times> 'c dstate" where
  "refill nl st =
     (let len = length (ds_pending st);
          free = (if ds_spare st < minRead then 2 * (len + ds_spare st) + minRead - len else ds_spare st)
      in case bufio_Read nl free st of
           ((d, e), st') \<Rightarrow> (e, st'\<lparr>ds_pending := ds_pending st' @ d, ds_spare := free - length d\<rparr>))"

text \<open>What is left to read: bytes on the wire, then bytes in the buffer of the reader.\<close>

abbreviation wire_left :: "'c dstate \<Rightarrow> nat" where
  "wire_left st \<equiv> length (w_in (sc_underlying (ds_conn st)))"

lemma ReadFull_left: "ReadFull n w = (r, w') \<Longrightarrow> length (w_in w') \<le> length (w_in w)"
  by (auto simp: ReadFull_def split: if_splits)

lemma read_frame_left: "read_frame w = (Inr m, w') \<Longrightarrow> length (w_in w') < length (w_in w)"
proof -
  assume "read_frame w = (Inr m, w')"
  then obtain b v where b: "ReadFull 4 w = (Inr b, v)" "length (w_in w') \<le> length (w_in v)"
    unfolding read_frame_def andthen_Inr_iff
    by (auto simp: Let_def yields_def dest: ReadFull_left split: if_splits)
  then show ?thesis
    by (auto simp: ReadFull_def split: if_splits)
qed

lemma SecureRead_left:
  "SecureRead nl k c = (Inr d, c') \<Longrightarrow> length (w_in (sc_underlying c')) < length (w_in (sc_underlying c))"
proof -
  assume "SecureRead nl k c = (Inr d, c')"
  then obtain ct c1 pt where r: "on_wire read_frame c = (Inr ct, c1)" "decrypt_next nl ct c1 = (Inr pt, c')"
    unfolding SecureRead_def andthen_Inr_iff by (auto simp: yields_def split: if_splits)
  from r(2) have "sc_underlying c' = sc_underlying c1"
    by (auto simp: decrypt_next_def split: option.splits prod.splits sum.splits)
  moreover from r(1) have "length (w_in (sc_underlying c1)) < length (w_in (sc_underlying c))"
    by (auto simp: on_wire_def dest!: read_frame_left split: prod.splits)
  ultimately show ?thesis by simp
qed

lemma SecureRead_le:
  "SecureRead nl k c = (r, c') \<Longrightarrow> length (w_in (sc_underlying c')) \<le> length (w_in (sc_underlying c)) \<and>
     (isl r \<or> length (w_in (sc_underlying c')) < length (w_in (sc_underlying c)))"
proof (cases r)
  case (Inl e)
  have fr: "length (w_in w') \<le> length (w_in w)" if "read_frame w = (x, w')" for w x w'
    using that unfolding read_frame_def andthen_def Let_def yields_def
    by (auto dest!: ReadFull_left split: prod.splits sum.splits if_splits)
  have de: "sc_underlying d' = sc_underlying d" if "decrypt_next nl ct d = (x, d')" for ct d x d'
    using that by (auto simp: decrypt_next_def split: option.splits prod.splits sum.splits)
  assume "SecureRead nl k c = (r, c')"
  then show ?thesis
    unfolding SecureRead_def andthen_def on_wire_def yields_def Inl
    by (auto dest!: fr de split: prod.splits sum.splits if_splits)
next
  case (Inr d)
  assume "SecureRead nl k c = (r, c')"
  then show ?thesis using Inr SecureRead_left [of nl k c d c'] by simp
qed

lemma refill_left:
  assumes "refill nl st = (None, st')"
  shows "wire_left st' < wire_left st \<or>
    wire_left st' = wire_left st \<and> length (ds_buf st') < length (ds_buf st)"
proof -
  let ?len = "length (ds_pending st)"
  let ?free = "if ds_spare st < minRead then 2 * (?len + ds_spare st) + minRead - ?len else ds_spare st"
  have free: "0 < ?free"
    by (simp add: minRead_def)
  obtain d st1 where b: "bufio_Read nl ?free st = ((d, None), st1)"
      "wire_left st' = wire_left st1" "ds_buf st' = ds_buf st1"
    using assms by (auto simp: refill_def Let_def split: prod.splits)
  show ?thesis
  proof (cases "ds_buf st = []")
    case True
    then have "wire_left st1 < wire_left st"
      using b(1) unfolding bufio_Read_def conn_read_def
      by (auto dest!: SecureRead_left split: if_splits option.splits sum.splits prod.splits)
    then show ?thesis
      using b by simp
  next
    case False
    then show ?thesis
      using b free by (auto simp: bufio_Read_def)
  qed
qed

text \<open>\<^verbatim>\<open>readValue\<close>: \<open>err\<close> is the error of the last read. At the end of the input a value that a space completes
  is taken (a value is not empty).\<close>

definition take_value :: "nat \<Rightarrow> 'c dstate \<Rightarrow> (read_error + bytes) \<times> 'c dstate" where
  "take_value n st = (Inr (take n (ds_pending st)),
     st\<lparr>ds_pending := drop n (ds_pending st), ds_spare := ds_spare st + min n (length (ds_pending st))\<rparr>)"

definition decoder_fails :: "read_error \<Rightarrow> 'c dstate \<Rightarrow> (read_error + bytes) \<times> 'c dstate" where
  "decoder_fails e st = (Inl e, st\<lparr>ds_err := Some e\<rparr>)"

function readValue ::
  "('h, 'c) noise_lib \<Rightarrow> 'v json \<Rightarrow> read_error option \<Rightarrow> 'c dstate \<Rightarrow> (read_error + bytes) \<times> 'c dstate" where
  "readValue nl js err st =
     (case j_scan js (ds_pending st) of
        ValueEnds n \<Rightarrow> take_value (Suc n) st
      | Malformed \<Rightarrow> decoder_fails SyntaxErr st
      | Incomplete \<Rightarrow>
          (case err of
             Some e \<Rightarrow>
               if e = ConnError (Underlying EOF) then
                 (case j_scan js (ds_pending st @ [32]) of
                    ValueEnds n \<Rightarrow> if ds_pending st = [] then decoder_fails e st else take_value (length (ds_pending st)) st
                  | _ \<Rightarrow>
                      decoder_fails (if \<exists>b \<in> set (ds_pending st). \<not> json_space b then UnexpectedEOF else e) st)
               else decoder_fails e st
           | None \<Rightarrow> (case refill nl st of (e, st') \<Rightarrow> readValue nl js e st')))"
  by pat_completeness auto
termination
  by (relation "measures [\<lambda>(_, _, err, st). if err = None then 1 else 0, \<lambda>(_, _, _, st). wire_left st,
      \<lambda>(_, _, _, st). length (ds_buf st)]")
    (auto split: prod.splits if_splits dest: refill_left)

declare readValue.simps [simp del]

definition Decode :: "('h, 'c) noise_lib \<Rightarrow> 'v json \<Rightarrow> 'c dstate \<Rightarrow> (read_error + 'v) \<times> 'c dstate" where
  "Decode nl js st =
     (case ds_err st of
        Some e \<Rightarrow> (Inl e, st)
      | None \<Rightarrow>
          (case readValue nl js None st of
             (Inl e, st') \<Rightarrow> (Inl e, st')
           | (Inr b, st') \<Rightarrow> (case j_unmarshal js b of None \<Rightarrow> (Inl UnmarshalErr, st') | Some v \<Rightarrow> (Inr v, st'))))"

text \<open>\<^verbatim>\<open>json.Encoder.Encode\<close>: one write of the value and a newline.\<close>

definition Encode :: "('h, 'c) noise_lib \<Rightarrow> 'v json \<Rightarrow> 'v \<Rightarrow> 'c SecureConn \<Rightarrow> (conn_error + nat) \<times> 'c SecureConn" where
  "Encode nl js v = SecureWrite nl (j_marshal js v @ [10])"

subsection \<open>Reading a session\<close>

text \<open>\<open>hasDeadline\<close>: the connection supports read deadlines, so that a timeout is an error of the wire;
  otherwise \<open>timedOut\<close> tells which channel of the \<^verbatim>\<open>select\<close> is ready first.\<close>

definition readEnvelopeWithTimeout ::
  "('h, 'c) noise_lib \<Rightarrow> 'v json \<Rightarrow> bool \<Rightarrow> bool \<Rightarrow> 'c dstate \<Rightarrow> (read_error + 'v) \<times> 'c dstate" where
  "readEnvelopeWithTimeout nl js hasDeadline timedOut st =
     (if hasDeadline then Decode nl js st
      else if timedOut then (Inl ReadTimeout, st\<lparr>ds_conn := SecureClose (ds_conn st)\<rparr>)
      else Decode nl js st)"

text \<open>Every value that is read shortens what is left: the wire, else the reader's buffer, else the decoder's.\<close>

definition reads_on :: "'c dstate \<Rightarrow> 'c dstate \<Rightarrow> bool" where
  "reads_on st' st \<longleftrightarrow> wire_left st' < wire_left st \<or> wire_left st' = wire_left st \<and>
     (length (ds_buf st') < length (ds_buf st) \<or>
      length (ds_buf st') = length (ds_buf st) \<and> length (ds_pending st') < length (ds_pending st))"

lemma take_value_left:
  "take_value n st = (r, st') \<Longrightarrow> 0 < n \<Longrightarrow> ds_pending st \<noteq> [] \<Longrightarrow> reads_on st' st"
  by (auto simp: take_value_def reads_on_def)

lemma refill_keeps:
  assumes "refill nl st = (e, st')"
  shows "wire_left st' < wire_left st \<or> wire_left st' = wire_left st \<and>
     (length (ds_buf st') < length (ds_buf st) \<or>
      length (ds_buf st') = length (ds_buf st) \<and> length (ds_pending st') = length (ds_pending st))"
proof (cases e)
  case None
  then show ?thesis using refill_left [of nl st st'] assms by auto
next
  case (Some x)
  have "wire_left st1 < wire_left st \<or> wire_left st1 = wire_left st \<and> ds_buf st1 = ds_buf st \<and>
      ds_pending st1 = ds_pending st \<and> d = []"
    if "bufio_Read nl k st = ((d, Some x), st1)" for k d st1
    using that unfolding bufio_Read_def conn_read_def
    by (auto dest!: SecureRead_le simp: le_less split: if_splits option.splits sum.splits prod.splits)
  then show ?thesis
    using assms Some by (fastforce simp: refill_def Let_def split: prod.splits)
qed

lemma readValue_left:
  "readValue nl js err st = (Inr b, st') \<Longrightarrow> j_scan js [] = Incomplete \<Longrightarrow> reads_on st' st"
proof (induction nl js err st rule: readValue.induct)
  case (1 nl js err st)
  show ?case
  proof (cases "j_scan js (ds_pending st)")
    case (ValueEnds n)
    moreover have "ds_pending st \<noteq> []"
      using ValueEnds 1(3) by auto
    ultimately show ?thesis
      using 1(2) by (simp add: readValue.simps [of _ _ _ st] take_value_left)
  next
    case Incomplete
    show ?thesis
    proof (cases err)
      case None
      obtain e st1 where r: "refill nl st = (e, st1)"
        by fastforce
      have v: "readValue nl js e st1 = (Inr b, st')"
        using 1(2) Incomplete None r by (simp add: readValue.simps [of _ _ _ st])
      have ih: "reads_on st' st1"
        using 1(1) [OF Incomplete None r [symmetric] v 1(3)] .
      then show ?thesis
        using refill_keeps [OF r] by (auto simp: reads_on_def)
    next
      case (Some e)
      then show ?thesis
        using 1(2) Incomplete
        by (auto simp: readValue.simps [of _ _ _ st] decoder_fails_def take_value_left
            split: if_splits scan_result.splits)
    qed
  next
    case Malformed
    then show ?thesis
      using 1(2) by (simp add: readValue.simps [of _ _ _ st] decoder_fails_def)
  qed
qed

partial_function (option) runPeerReadLoop ::
  "('h, 'c) noise_lib \<Rightarrow> 'v json \<Rightarrow> ('s \<Rightarrow> bool) \<Rightarrow> ('v \<Rightarrow> 's \<Rightarrow> 's) \<Rightarrow> 'c dstate \<Rightarrow> 's \<Rightarrow>
   (read_error option \<times> 's) option" where
  "runPeerReadLoop nl js stopped handle st s =
     (if stopped s then Some (None, s)
      else case Decode nl js st of
             (Inl e, st') \<Rightarrow> Some (Some e, s)
           | (Inr env, st') \<Rightarrow> runPeerReadLoop nl js stopped handle st' (handle env s))"

text \<open>Whatever bytes arrive, the read loop of a session returns once the stream ends: every value it decodes shortens what is
  left on the wire or in one of the two buffers, and an incomplete or malformed value, a
  decryption error or the end of the stream ends it.\<close>

lemma read_loop_returns:
  assumes "j_scan js [] = Incomplete"
  shows "\<exists>r. runPeerReadLoop nl js stopped handle st s = Some r"
proof (induction st arbitrary: s rule: wf_induct [of "measures [wire_left, \<lambda>st. length (ds_buf st), \<lambda>st. length (ds_pending st)]"])
  case (2 st)
  show ?case
  proof (cases "stopped s \<or> (\<exists>e st'. Decode nl js st = (Inl e, st'))")
    case True
    then show ?thesis by (auto simp: runPeerReadLoop.simps)
  next
    case False
    then obtain env st' where d: "Decode nl js st = (Inr env, st')"
      by (metis sum.exhaust surj_pair)
    then obtain b where "readValue nl js None st = (Inr b, st')"
      by (auto simp: Decode_def split: option.splits prod.splits sum.splits)
    then have "reads_on st' st"
      using readValue_left assms by blast
    then have "(st', st) \<in> measures [wire_left, \<lambda>st. length (ds_buf st), \<lambda>st. length (ds_pending st)]"
      by (auto simp: reads_on_def)
    then obtain r where "runPeerReadLoop nl js stopped handle st' (handle env s) = Some r"
      using 2 by blast
    then show ?thesis
      using False d by (subst runPeerReadLoop.simps) simp
  qed
qed simp

subsection \<open>Delivery\<close>

text \<open>What is used of JSON for the values \<open>V\<close>: space is no value; the text of a value, after at most one newline, is not complete before
  its last byte, complete from there on, and decodes to the value.\<close>

definition json_ok :: "'v json \<Rightarrow> 'v set \<Rightarrow> bool" where
  "json_ok js V \<longleftrightarrow>
     (\<forall>ws. (\<forall>b \<in> set ws. json_space b) \<longrightarrow> j_scan js ws = Incomplete) \<and>
     (\<forall>v \<in> V. j_marshal js v \<noteq> [] \<and>
        (\<forall>ws \<in> {[], [10]}.
           (\<forall>pre suf. ws @ j_marshal js v = pre @ suf \<longrightarrow> suf \<noteq> [] \<longrightarrow> j_scan js pre = Incomplete) \<and>
           (\<forall>y. j_scan js (ws @ j_marshal js v @ y) = ValueEnds (length ws + length (j_marshal js v) - 1)) \<and>
           j_unmarshal js (ws @ j_marshal js v) = Some v))"

lemma json_okD:
  assumes "json_ok js V" "ws \<in> {[], [10]}" "v \<in> V"
  shows "j_marshal js v \<noteq> []"
    and "ws @ j_marshal js v = pre @ suf \<Longrightarrow> suf \<noteq> [] \<Longrightarrow> j_scan js pre = Incomplete"
    and "j_scan js (ws @ j_marshal js v @ y) = ValueEnds (length ws + length (j_marshal js v) - 1)"
    and "j_unmarshal js (ws @ j_marshal js v) = Some v"
  using assms unfolding json_ok_def by blast+

lemma json_ok_space: "json_ok js V \<Longrightarrow> \<forall>b \<in> set ws. json_space b \<Longrightarrow> j_scan js ws = Incomplete"
  unfolding json_ok_def by blast

lemma json_ok_empty: "json_ok js V \<Longrightarrow> j_scan js [] = Incomplete"
  by (simp add: json_ok_space)

text \<open>Between two values the decoder has read at most the newline after the last one.\<close>

definition idle :: "'c dstate \<Rightarrow> bool" where
  "idle st \<longleftrightarrow> ds_pending st @ ds_buf st \<in> {[], [10]} \<and> ds_rerr st = None \<and> ds_err st = None"

lemma NewDecoder_idle [simp]: "idle (NewDecoder c)" "ds_conn (NewDecoder c) = c"
  by (simp_all add: idle_def NewDecoder_def)

lemma refill_buffered:
  assumes "ds_buf st \<noteq> []"
  shows "\<exists>k f. 0 < k \<and> refill nl st = (None, st\<lparr>ds_buf := drop k (ds_buf st),
           ds_pending := ds_pending st @ take k (ds_buf st), ds_spare := f\<rparr>)"
proof -
  let ?len = "length (ds_pending st)"
  let ?free = "if ds_spare st < minRead then 2 * (?len + ds_spare st) + minRead - ?len else ds_spare st"
  have "0 < ?free"
    by (simp add: minRead_def)
  moreover have "refill nl st = (None, st\<lparr>ds_buf := drop ?free (ds_buf st),
      ds_pending := ds_pending st @ take ?free (ds_buf st), ds_spare := ?free - length (take ?free (ds_buf st))\<rparr>)"
    using assms by (simp add: refill_def Let_def bufio_Read_def)
  ultimately show ?thesis by blast
qed

lemma readValue_buffered:
  assumes "json_ok js V" "ws \<in> {[], [10]}" "v \<in> V" "ds_pending st @ ds_buf st = ws @ j_marshal js v @ [10]"
  shows "\<exists>st'. readValue nl js None st = (Inr (ws @ j_marshal js v), st') \<and> ds_pending st' @ ds_buf st' = [10] \<and>
           ds_conn st' = ds_conn st \<and> ds_rerr st' = ds_rerr st \<and> ds_err st' = ds_err st"
  using assms(4)
proof (induction "length (ds_buf st)" arbitrary: st rule: less_induct)
  case less
  note j = json_okD [OF assms(1-3)]
  show ?case
  proof (cases "length (ws @ j_marshal js v) \<le> length (ds_pending st)")
    case True
    let ?n = "length (ws @ j_marshal js v)"
    define y where "y = drop ?n (ds_pending st)"
    have "take ?n (ds_pending st) = ws @ j_marshal js v" "y @ ds_buf st = [10]"
      using True arg_cong [OF less.prems, of "take ?n"] arg_cong [OF less.prems, of "drop ?n"]
      by (simp_all add: y_def)
    then have y: "ds_pending st = ws @ j_marshal js v @ y" "y @ ds_buf st = [10]"
      unfolding y_def by (metis append.assoc append_take_drop_id)+
    have "Suc (length ws + length (j_marshal js v) - 1) = length ws + length (j_marshal js v)"
      using j(1) by (cases "j_marshal js v") auto
    then show ?thesis
      using y by (simp add: readValue.simps [of _ _ _ st] j(3) take_value_def)
  next
    case False
    let ?n = "length (ds_pending st)"
    define z where "z = drop ?n (ws @ j_marshal js v)"
    have "take ?n (ws @ j_marshal js v) = ds_pending st" "z @ [10] = ds_buf st"
      using False arg_cong [OF less.prems, of "take ?n"] arg_cong [OF less.prems, of "drop ?n"]
      by (simp_all add: z_def)
    moreover have "z \<noteq> []"
      using False unfolding z_def drop_eq_Nil by simp
    ultimately have z: "ws @ j_marshal js v = ds_pending st @ z" "z \<noteq> []" "ds_buf st \<noteq> []"
      unfolding z_def by (metis append_take_drop_id, blast, fastforce)
    obtain k f where r: "0 < k" "refill nl st = (None, st\<lparr>ds_buf := drop k (ds_buf st),
        ds_pending := ds_pending st @ take k (ds_buf st), ds_spare := f\<rparr>)"
      using refill_buffered z(3) by blast
    let ?st = "st\<lparr>ds_buf := drop k (ds_buf st), ds_pending := ds_pending st @ take k (ds_buf st), ds_spare := f\<rparr>"
    have "readValue nl js None st = readValue nl js None ?st"
      using j(2) [OF z(1,2)] r(2) by (simp add: readValue.simps [of _ _ _ st])
    then show ?thesis
      using less.hyps [of ?st] less.prems r(1) z(3) by simp
  qed
qed

text \<open>The connection after a frame with \<open>rest\<close> behind it.\<close>

abbreviation after_frame :: "'c \<Rightarrow> bytes \<Rightarrow> 'c SecureConn \<Rightarrow> 'c SecureConn" where
  "after_frame r rest c \<equiv> c\<lparr>sc_readCS := Some r, sc_underlying := (sc_underlying c)\<lparr>w_in := rest\<rparr>\<rparr>"

lemma refill_frame:
  assumes "ds_buf st = []" "ds_rerr st = None" "length p \<le> 4096" "p \<noteq> []"
    and "\<And>k. SecureRead nl k (ds_conn st) = (Inr (take k p, k < length p), c)"
  shows "\<exists>st'. refill nl st = (None, st') \<and> ds_pending st' @ ds_buf st' = ds_pending st @ p \<and> ds_conn st' = c \<and>
           ds_rerr st' = None \<and> ds_err st' = ds_err st"
proof -
  have "take k p = p \<and> \<not> k < length p" if "4096 \<le> k" for k
    using that assms(3) by simp
  then show ?thesis
    using assms by (simp add: refill_def Let_def bufio_Read_def conn_read_def defaultBufSize_def not_less)
qed

lemma refill_error:
  assumes "ds_buf st = []" "ds_rerr st = None" "\<And>k. SecureRead nl k (ds_conn st) = (Inl e, c k)"
  shows "\<exists>st'. refill nl st = (Some (ConnError e), st') \<and> ds_pending st' = ds_pending st"
  using assms by (simp add: refill_def Let_def bufio_Read_def conn_read_def)

text \<open>A newline that is still in the reader's buffer is read first.\<close>

lemma Decode_unbuffer:
  assumes "json_ok js V" "idle st"
  shows "\<exists>st'. Decode nl js st = Decode nl js st' \<and> idle st' \<and> ds_buf st' = [] \<and> ds_conn st' = ds_conn st"
proof (cases "ds_buf st = []")
  case True
  then show ?thesis using assms(2) by blast
next
  case False
  then have b: "ds_pending st = []" "ds_buf st = [10]" "ds_err st = None" "ds_rerr st = None"
    using assms(2) by (auto simp: idle_def append_eq_Cons_conv)
  obtain k f where r: "0 < k" "refill nl st = (None, st\<lparr>ds_buf := drop k (ds_buf st),
      ds_pending := ds_pending st @ take k (ds_buf st), ds_spare := f\<rparr>)"
    using refill_buffered False by blast
  let ?st = "st\<lparr>ds_buf := drop k (ds_buf st), ds_pending := ds_pending st @ take k (ds_buf st), ds_spare := f\<rparr>"
  have st: "ds_buf ?st = []" "ds_pending ?st = [10]"
    using r(1) b by (cases k; simp)+
  have "readValue nl js None st = readValue nl js None ?st"
    using json_ok_empty [OF assms(1)] r(2) b(1) by (simp add: readValue.simps [of _ _ _ st])
  then have "Decode nl js st = Decode nl js ?st"
    using b by (simp add: Decode_def)
  moreover have "idle ?st"
    using st b by (simp add: idle_def)
  ultimately show ?thesis
    using st(1) by (intro exI [of _ ?st]) simp
qed

lemma Decode_frame:
  assumes "json_ok js V" "idle st" "v \<in> V" "length (j_marshal js v) < 4096"
    and "\<And>k. SecureRead nl k (ds_conn st) =
      (Inr (take k (j_marshal js v @ [10]), k < length (j_marshal js v @ [10])), c)"
  shows "\<exists>st'. Decode nl js st = (Inr v, st') \<and> idle st' \<and> ds_conn st' = c"
proof -
  obtain st0 where st0: "Decode nl js st = Decode nl js st0" "idle st0" "ds_buf st0 = []" "ds_conn st0 = ds_conn st"
    using Decode_unbuffer assms(1,2) by blast
  let ?ws = "ds_pending st0"
  have ws: "?ws \<in> {[], [10]}" "ds_rerr st0 = None" "ds_err st0 = None"
    using st0 by (auto simp: idle_def)
  note j = json_okD [OF assms(1) ws(1) assms(3)]
  obtain st1 where r: "refill nl st0 = (None, st1)" "ds_pending st1 @ ds_buf st1 = ?ws @ j_marshal js v @ [10]"
      "ds_conn st1 = c" "ds_rerr st1 = None" "ds_err st1 = ds_err st0"
    using refill_frame [OF st0(3) ws(2) _ _ assms(5) [folded st0(4)]] assms(4) by auto
  have "readValue nl js None st0 = readValue nl js None st1"
    using j(2) [of ?ws "j_marshal js v"] j(1) r(1) by (simp add: readValue.simps [of _ _ _ st0])
  then show ?thesis
    unfolding st0(1)
    using readValue_buffered [OF assms(1) ws(1) assms(3) r(2), of nl] r(3-5) ws(3) j(4)
    by (auto simp: Decode_def idle_def)
qed

subsection \<open>Streams of envelopes\<close>

fun encode_all :: "('h, 'c) noise_lib \<Rightarrow> 'v json \<Rightarrow> 'v list \<Rightarrow> 'c SecureConn \<Rightarrow> (conn_error + unit) \<times> 'c SecureConn" where
  "encode_all nl js [] c = (Inr (), c)"
| "encode_all nl js (v # vs) c = andthen (Encode nl js v) (\<lambda>_. encode_all nl js vs) c"

text \<open>\<open>decodes st vs st'\<close>: successive calls of \<^verbatim>\<open>Decode\<close> return \<open>vs\<close>.\<close>

fun decodes :: "('h, 'c) noise_lib \<Rightarrow> 'v json \<Rightarrow> 'c dstate \<Rightarrow> 'v list \<Rightarrow> 'c dstate \<Rightarrow> bool" where
  "decodes nl js st [] st' \<longleftrightarrow> st' = st"
| "decodes nl js st (v # vs) st' \<longleftrightarrow> (\<exists>st1. Decode nl js st = (Inr v, st1) \<and> decodes nl js st1 vs st')"

lemma runPeerReadLoop_decodes:
  "decodes nl js st vs st' \<Longrightarrow> runPeerReadLoop nl js (\<lambda>_. False) handle st s =
     runPeerReadLoop nl js (\<lambda>_. False) handle st' (fold handle vs s)"
  by (induction vs arbitrary: st s) (auto simp: runPeerReadLoop.simps [of _ _ _ _ st for st])

text \<open>Nothing is left: the next call ends the loop with the error of the wire.\<close>

lemma Decode_end:
  assumes "json_ok js V" "idle st" "w_in (sc_underlying (ds_conn st)) = []" "w_inErr (sc_underlying (ds_conn st)) = EOF"
  shows "fst (Decode nl js st) = Inl (ConnError (Underlying EOF))"
proof -
  obtain st0 where st0: "Decode nl js st = Decode nl js st0" "idle st0" "ds_buf st0 = []" "ds_conn st0 = ds_conn st"
    using Decode_unbuffer assms(1,2) by blast
  let ?e = "ConnError (Underlying EOF)"
  have sp: "\<forall>b \<in> set (ds_pending st0). json_space b" "ds_rerr st0 = None" "ds_err st0 = None"
    using st0(2,3) by (auto simp: idle_def json_space_def)
  have "\<exists>c'. SecureRead nl k (ds_conn st) = (Inl (Underlying EOF), c')" for k
    using assms(3,4) by (simp add: SecureRead_def andthen_def on_wire_def read_frame_def ReadFull_def)
  then obtain c' where "\<And>k. SecureRead nl k (ds_conn st) = (Inl (Underlying EOF), c' k)"
    by metis
  then obtain st1 where r: "refill nl st0 = (Some ?e, st1)" "ds_pending st1 = ds_pending st0"
    using refill_error [of st0 nl "Underlying EOF" c'] st0(3,4) sp(2) by auto
  have "j_scan js (ds_pending st0) = Incomplete" "j_scan js (ds_pending st0 @ [32]) = Incomplete"
    using assms(1) sp(1) by (simp_all add: json_ok_space json_space_def)
  then have "fst (readValue nl js None st0) = Inl ?e"
    using r sp(1) by (simp add: readValue.simps [of _ _ _ st0] readValue.simps [of _ _ _ st1] decoder_fails_def)
  then show ?thesis
    unfolding st0(1) using sp(3) by (auto simp: Decode_def split: prod.splits sum.splits)
qed

lemma encode_decodes:
  assumes "json_ok js V" "noise_sync nl L S"
    and "S n s r" "length vs \<le> n" "\<forall>v \<in> set vs. v \<in> V \<and> length (j_marshal js v) < min L 4096"
    and "sc_writeCS c = Some s" "w_room (sc_underlying c) = None"
  shows "\<exists>sent c' s' r'. encode_all nl js vs c = (Inr (), c') \<and>
           w_out (sc_underlying c') = w_out (sc_underlying c) @ sent \<and>
           sc_writeCS c' = Some s' \<and> w_room (sc_underlying c') = None \<and> S (n - length vs) s' r' \<and>
           (\<forall>st rest. idle st \<longrightarrow> sc_readCS (ds_conn st) = Some r \<longrightarrow> w_in (sc_underlying (ds_conn st)) = sent @ rest \<longrightarrow>
              (\<exists>st'. decodes nl js st vs st' \<and> idle st' \<and> ds_conn st' = after_frame r' rest (ds_conn st)))"
  using assms(3-)
proof (induction vs arbitrary: n s r c)
  case Nil
  then show ?case
    by (intro exI [of _ "[]"] exI [of _ c] exI [of _ s] exI [of _ r]) simp
next
  case (Cons v vs)
  let ?p = "j_marshal js v @ [10]"
  obtain n' where n': "n = Suc n'" "length vs \<le> n'"
    using Cons.prems(2) by (cases n) auto
  have "length ?p \<le> L"
    using Cons.prems(3) by simp
  then obtain ct s' r1 where st: "nl_encrypt nl s ?p = (Inr ct, s')" "ct \<noteq> []" "length ct < 4294967296"
      "nl_decrypt nl r ct = (Inr ?p, r1)" "S n' s' r1"
    using assms(2) Cons.prems(1) n'(1) unfolding noise_sync_def by meson
  let ?c = "c\<lparr>sc_writeCS := Some s', sc_underlying := (sc_underlying c)\<lparr>w_out := w_out (sc_underlying c) @ frame_encode ct\<rparr>\<rparr>"
  have w: "Encode nl js v c = (Inr (length ?p), ?c)"
    unfolding Encode_def using Cons.prems st by (intro SecureWrite_step)
  have pre: "\<forall>v \<in> set vs. v \<in> V \<and> length (j_marshal js v) < min L 4096" "sc_writeCS ?c = Some s'"
      "w_room (sc_underlying ?c) = None"
    using Cons.prems(3,5) by simp_all
  obtain sent c' s2 r' where ih: "encode_all nl js vs ?c = (Inr (), c')"
      "w_out (sc_underlying c') = w_out (sc_underlying ?c) @ sent"
      "sc_writeCS c' = Some s2 \<and> w_room (sc_underlying c') = None \<and> S (n' - length vs) s2 r'"
      "\<And>st rest. idle st \<Longrightarrow> sc_readCS (ds_conn st) = Some r1 \<Longrightarrow> w_in (sc_underlying (ds_conn st)) = sent @ rest \<Longrightarrow>
         \<exists>st'. decodes nl js st vs st' \<and> idle st' \<and> ds_conn st' = after_frame r' rest (ds_conn st)"
    using Cons.IH [OF st(5) n'(2) pre] by blast
  have "\<exists>st'. decodes nl js st (v # vs) st' \<and> idle st' \<and> ds_conn st' = after_frame r' rest (ds_conn st)"
    if d: "idle st" "sc_readCS (ds_conn st) = Some r"
      "w_in (sc_underlying (ds_conn st)) = (frame_encode ct @ sent) @ rest" for st rest
  proof -
    have "SecureRead nl k (ds_conn st) = (Inr (take k ?p, k < length ?p), after_frame r1 (sent @ rest) (ds_conn st))" for k
      using d st by (intro SecureRead_step) auto
    then obtain st1 where "Decode nl js st = (Inr v, st1)" "idle st1" "ds_conn st1 = after_frame r1 (sent @ rest) (ds_conn st)"
      using Decode_frame [OF assms(1) d(1), of v] Cons.prems(3) by fastforce
    then show ?thesis
      using ih(4) [of st1 rest] by auto
  qed
  then show ?case
    using w ih(1-3) n'(1)
    by (intro exI [of _ "frame_encode ct @ sent"] exI [of _ c'] exI [of _ s2] exI [of _ r']) (simp add: andthen_simps(2))
qed

text \<open>Values of less than 4096 bytes each are delivered: the first one (the hello) to the decoder of the session set-up,
  all following ones, in order and exactly once, to the read loop, although that starts with a new
  decoder and the buffered rest of the first one is dropped; the loop then ends with the end of the stream.\<close>

lemma stream_delivers:
  assumes "json_ok js (set (hello # vs))" "noise_sync nl L S" "S n s r" "length (hello # vs) \<le> n"
    and "\<forall>v \<in> set (hello # vs). length (j_marshal js v) < min L 4096"
    and "sc_writeCS a = Some s" "w_room (sc_underlying a) = None"
    and "sc_readCS b = Some r" "w_in (sc_underlying b) = []" "w_inErr (sc_underlying b) = EOF"
  shows "\<exists>sent a' st. encode_all nl js (hello # vs) a = (Inr (), a') \<and>
     w_out (sc_underlying a') = w_out (sc_underlying a) @ sent \<and>
     readEnvelopeWithTimeout nl js True False
       (NewDecoder (b\<lparr>sc_underlying := (sc_underlying b)\<lparr>w_in := sent\<rparr>\<rparr>)) = (Inr hello, st) \<and>
     runPeerReadLoop nl js (\<lambda>_. False) handle (NewDecoder (ds_conn st)) x =
       Some (Some (ConnError (Underlying EOF)), fold handle vs x)"
proof -
  have pre: "length [hello] \<le> n" "\<forall>v \<in> set [hello]. v \<in> set (hello # vs) \<and> length (j_marshal js v) < min L 4096" "length vs \<le> n - 1"
      "\<forall>v \<in> set vs. v \<in> set (hello # vs) \<and> length (j_marshal js v) < min L 4096"
    using assms(4,5) by auto
  obtain sent1 a1 s1 r1 where h: "encode_all nl js [hello] a = (Inr (), a1)"
      "w_out (sc_underlying a1) = w_out (sc_underlying a) @ sent1"
      and s1: "sc_writeCS a1 = Some s1" "w_room (sc_underlying a1) = None" "S (n - 1) s1 r1"
      and d1: "\<And>st rest. idle st \<Longrightarrow> sc_readCS (ds_conn st) = Some r \<Longrightarrow> w_in (sc_underlying (ds_conn st)) = sent1 @ rest \<Longrightarrow>
         \<exists>st'. decodes nl js st [hello] st' \<and> idle st' \<and> ds_conn st' = after_frame r1 rest (ds_conn st)"
    using encode_decodes [OF assms(1-3) pre(1,2) assms(6,7)] by auto
  obtain sent2 a2 r2 where m: "encode_all nl js vs a1 = (Inr (), a2)"
      "w_out (sc_underlying a2) = w_out (sc_underlying a1) @ sent2"
      and d2: "\<And>st rest. idle st \<Longrightarrow> sc_readCS (ds_conn st) = Some r1 \<Longrightarrow> w_in (sc_underlying (ds_conn st)) = sent2 @ rest \<Longrightarrow>
         \<exists>st'. decodes nl js st vs st' \<and> idle st' \<and> ds_conn st' = after_frame r2 rest (ds_conn st)"
    using encode_decodes [OF assms(1,2) s1(3) pre(3,4) s1(1,2)] by blast
  let ?b = "b\<lparr>sc_underlying := (sc_underlying b)\<lparr>w_in := sent1 @ sent2\<rparr>\<rparr>"
  obtain st where st: "Decode nl js (NewDecoder ?b) = (Inr hello, st)" "ds_conn st = after_frame r1 sent2 ?b"
    using d1 [OF NewDecoder_idle(1), of ?b sent2] assms(8) by auto
  obtain st' where st': "decodes nl js (NewDecoder (ds_conn st)) vs st'" "idle st'" "ds_conn st' = after_frame r2 [] (ds_conn st)"
    using d2 [OF NewDecoder_idle(1), of "ds_conn st" "[]"] st(2) by auto
  obtain e st2 where "Decode nl js st' = (Inl (ConnError (Underlying EOF)), st2)"
    using Decode_end [OF assms(1) st'(2), of nl] st'(3) st(2) assms(10) by (cases "Decode nl js st'") auto
  then have "runPeerReadLoop nl js (\<lambda>_. False) handle (NewDecoder (ds_conn st)) x =
      Some (Some (ConnError (Underlying EOF)), fold handle vs x)"
    unfolding runPeerReadLoop_decodes [OF st'(1)] by (simp add: runPeerReadLoop.simps)
  moreover have "encode_all nl js (hello # vs) a = (Inr (), a2)"
    using h(1) m(1) by (auto simp: andthen_def split: prod.splits sum.splits)
  ultimately show ?thesis
    using h(2) m(2) st(1)
    by (intro exI [of _ "sent1 @ sent2"] exI [of _ a2] exI [of _ st]) (simp add: readEnvelopeWithTimeout_def)
qed

text \<open>A frame that does not fit into the reader's buffer: the value stays incomplete and the error of the cut
  frame comes up.\<close>

lemma readValue_cut:
  assumes "json_ok js V" "v \<in> V" "ds_pending st @ ds_buf st = take k (j_marshal js v)" "k < length (j_marshal js v)"
    and "ds_rerr st = Some ErrShortBuffer"
  shows "\<exists>st'. readValue nl js None st = (Inl ErrShortBuffer, st')"
  using assms(3,5)
proof (induction "length (ds_buf st)" arbitrary: st rule: less_induct)
  case less
  have "j_marshal js v = ds_pending st @ (ds_buf st @ drop k (j_marshal js v))"
    by (metis append.assoc append_take_drop_id less.prems(1))
  then have inc: "j_scan js (ds_pending st) = Incomplete"
    using json_okD(2) [OF assms(1) _ assms(2), of "[]" "ds_pending st" "ds_buf st @ drop k (j_marshal js v)"] assms(4) by simp
  show ?case
  proof (cases "ds_buf st = []")
    case True
    then obtain st1 where "refill nl st = (Some ErrShortBuffer, st1)" "ds_pending st1 = ds_pending st"
      using less.prems(2) by (simp add: refill_def Let_def bufio_Read_def)
    then show ?thesis
      using inc by (simp add: readValue.simps [of _ _ _ st] readValue.simps [of _ _ _ st1] decoder_fails_def)
  next
    case False
    then obtain n f where r: "0 < n" "refill nl st = (None, st\<lparr>ds_buf := drop n (ds_buf st),
        ds_pending := ds_pending st @ take n (ds_buf st), ds_spare := f\<rparr>)"
      using refill_buffered by blast
    then show ?thesis
      using inc False less.prems
        less.hyps [of "st\<lparr>ds_buf := drop n (ds_buf st), ds_pending := ds_pending st @ take n (ds_buf st), ds_spare := f\<rparr>"]
      by (simp add: readValue.simps [of _ _ _ st])
  qed
qed

text \<open>A value of more than 4096 bytes as the first one of a read loop is not delivered: \<^verbatim>\<open>SecureConn.Read\<close> cuts its frame
  at the 4096 bytes of the buffered reader, and the session ends with \<^verbatim>\<open>io.ErrShortBuffer\<close>, whatever follows.\<close>

lemma long_value_ends_session:
  assumes "json_ok js {v}" "4096 < length (j_marshal js v)" "\<not> stopped x"
    and "nl_decrypt nl r ct = (Inr (j_marshal js v @ [10]), r')" "ct \<noteq> []" "length ct < 4294967296"
    and "sc_readCS c = Some r" "w_in (sc_underlying c) = frame_encode ct @ rest"
  shows "runPeerReadLoop nl js stopped handle (NewDecoder c) x = Some (Some ErrShortBuffer, x)"
proof -
  let ?m = "j_marshal js v"
  have rd: "SecureRead nl 4096 c = (Inr (take 4096 ?m, True), after_frame r' rest c)"
    using SecureRead_step [OF assms(7,8,4-6), of 4096] assms(2) by simp
  let ?d = "take 4096 ?m"
  let ?st = "\<lparr>ds_conn = after_frame r' rest c, ds_buf = drop 512 ?d, ds_rerr = Some ErrShortBuffer,
    ds_pending = take 512 ?d, ds_spare = 0, ds_err = None\<rparr>"
  have "refill nl (NewDecoder c) = (None, ?st)"
    using rd assms(2)
    by (auto simp: refill_def bufio_Read_def conn_read_def NewDecoder_def defaultBufSize_def minRead_def min_def)
  then have "readValue nl js None (NewDecoder c) = readValue nl js None ?st"
    using json_ok_empty [OF assms(1)] by (subst readValue.simps) (simp add: NewDecoder_def)
  moreover obtain st' where "readValue nl js None ?st = (Inl ErrShortBuffer, st')"
    using readValue_cut [OF assms(1), of v ?st 4096] assms(2) by (auto simp del: take_take)
  ultimately have "Decode nl js (NewDecoder c) = (Inl ErrShortBuffer, st')"
    by (simp add: Decode_def NewDecoder_def)
  then show ?thesis
    using assms(3) by (simp add: runPeerReadLoop.simps)
qed

end
