(* ===== verification/Wire.thy ===== *)
theory Wire
  imports EnvelopeStream Codec
begin

text \<open>
  The bytes on the wire: the JSON codecs of \<open>Codec\<close> as the parameter of the envelope stream, and the delivery of envelopes with
  nothing left open about JSON.
\<close>

subsection \<open>JSON of an object\<close>

definition go_json :: "('v \<Rightarrow> json_value) \<Rightarrow> (json_value \<Rightarrow> 'v option) \<Rightarrow> 'v json" where
  "go_json enc dec =
     \<lparr>j_scan = (\<lambda>bs. scan_from 0 scan_init (string_of bs)), j_unmarshal = Unmarshal_bytes dec, j_marshal = Marshal_bytes enc\<rparr>"

text \<open>An object that decodes to what it encodes.\<close>

definition object_codec :: "('v \<Rightarrow> json_value) \<Rightarrow> (json_value \<Rightarrow> 'v option) \<Rightarrow> 'v \<Rightarrow> bool" where
  "object_codec enc dec v \<longleftrightarrow>
     (\<exists>ms. enc v = JObject ms) \<and> json_wf (enc v) \<and> json_text (enc v) \<and> depth (enc v) \<le> maxNestingDepth \<and> dec (enc v) = Some v"

lemma json_space_blank: "json_space b \<longleftrightarrow> json_blank (char_of (unat b))"
proof -
  have "b = 32 \<longleftrightarrow> unat b = 32" "b = 9 \<longleftrightarrow> unat b = 9" "b = 13 \<longleftrightarrow> unat b = 13" "b = 10 \<longleftrightarrow> unat b = 10"
    by (simp_all add: word_unat_eq_iff)
  then show ?thesis
    by (simp add: json_space_def json_blank_def char_of_eq_iff take_bit_nat_eq_self)
qed

lemma string_of_simps [simp]: "string_of (xs @ ys) = string_of xs @ string_of ys" "length (string_of xs) = length xs"
  by (simp_all add: string_of_def)

lemma go_json_ok: "(\<And>v. v \<in> V \<Longrightarrow> object_codec enc dec v) \<Longrightarrow> json_ok (go_json enc dec) V"
  unfolding json_ok_def
proof (intro conjI allI ballI impI)
  fix ws :: bytes
  assume "\<forall>b \<in> set ws. json_space b"
  then show "j_scan (go_json enc dec) ws = Incomplete"
    using scan_spaces [of "string_of ws" 0] by (simp add: go_json_def string_of_def json_space_blank)
next
  fix v
  assume "\<And>v. v \<in> V \<Longrightarrow> object_codec enc dec v" "v \<in> V"
  then show "j_marshal (go_json enc dec) v \<noteq> []"
    by (fastforce simp: object_codec_def go_json_def Marshal_bytes_def)
next
  fix v ws and pre suf y :: bytes
  assume V: "\<And>v. v \<in> V \<Longrightarrow> object_codec enc dec v" and v: "v \<in> V" and ws: "ws \<in> {[], [10 :: byte]}"
  obtain ms where ms: "enc v = JObject ms" "json_wf (JObject ms)" "depth (JObject ms) \<le> maxNestingDepth" "clean (JObject ms) = JObject ms"
      "dec (JObject ms) = Some v"
    using V [OF v] clean_text(1) [of "enc v"] by (auto simp: object_codec_def)
  have blank: "\<forall>c \<in> set (string_of ws). json_blank c"
    using ws by (auto simp: string_of_def json_blank_def char_of_eq_iff take_bit_nat_eq_self)
  let ?m = "j_marshal (go_json enc dec) v"
  have m: "?m = bytes_of (print_json (JObject ms))" "string_of ?m = print_json (JObject ms)"
    by (simp_all add: go_json_def Marshal_bytes_def ms(1) del: print_json.simps)
  show "j_scan (go_json enc dec) (ws @ ?m @ y) = ValueEnds (length ws + length ?m - 1)"
    using scan_print [OF ms(2,3) blank, of "string_of y"] m by (simp add: go_json_def del: print_json.simps)
  show "j_unmarshal (go_json enc dec) (ws @ ?m) = Some v"
    using parse_print [OF ms(2,3) blank] m ms(4,5) by (simp add: go_json_def Unmarshal_bytes_def del: print_json.simps clean.simps)
  show "j_scan (go_json enc dec) pre = Incomplete" if "ws @ ?m = pre @ suf" "suf \<noteq> []"
  proof -
    have "string_of ws @ print_json (JObject ms) = string_of pre @ string_of suf" "string_of suf \<noteq> []"
      using arg_cong [OF that(1), of string_of] that(2) m by (auto simp: string_of_def simp del: print_json.simps)
    then show ?thesis
      using scan_proper_prefix [OF ms(2,3) blank] by (simp add: go_json_def)
  qed
qed

subsection \<open>Envelopes\<close>

definition envelope_json :: "Envelope json" where
  "envelope_json = go_json enc_envelope dec_envelope"

text \<open>The envelopes the program sends, apart from the length of their text: the payload is of the kind that the type
  announces, and the strings are UTF-8 text.\<close>

definition sendable :: "Envelope \<Rightarrow> bool" where
  "sendable env \<longleftrightarrow> payload_fits (env_Type env) (env_Payload env) \<and> json_text (enc_envelope env)"

lemma envelope_codec: "sendable env \<Longrightarrow> object_codec enc_envelope dec_envelope env"
  by (simp add: sendable_def object_codec_def depth_envelope dec_envelope_enc) (simp add: enc_envelope_def)

lemma envelope_json_ok: "\<forall>v \<in> V. sendable v \<Longrightarrow> json_ok envelope_json V"
  unfolding envelope_json_def by (rule go_json_ok) (simp add: envelope_codec)

lemma envelope_json_simps:
  "j_scan envelope_json bs = scan_from 0 scan_init (string_of bs)"
  "j_unmarshal envelope_json = Unmarshal_bytes dec_envelope"
  "j_marshal envelope_json = Marshal_bytes enc_envelope"
  by (simp_all add: envelope_json_def go_json_def)


text \<open>C15: Whatever bytes arrive, the read loop of a session returns once the stream ends: every value it decodes shortens what is
  left on the wire or in one of the two buffers, and an incomplete or malformed value, a
  decryption error or the end of the stream ends it.\<close>

theorem read_loop_terminates: "\<exists>r. runPeerReadLoop nl envelope_json stopped handle st s = Some r"
  by (rule read_loop_returns) (simp add: envelope_json_simps string_of_def)

text \<open>C9: Envelopes of less than 4096 bytes each are delivered: the first one (the hello) to the decoder of the session set-up,
  all following ones, in order and exactly once, to the read loop, although that starts with a new
  decoder and the buffered rest of the first one is dropped; the loop then ends with the end of the stream.\<close>

theorem envelopes_delivered:
  assumes "\<forall>v \<in> set (hello # vs). sendable v" "noise_sync nl L S" "S n s r" "length (hello # vs) \<le> n"
    and "\<forall>v \<in> set (hello # vs). length (Marshal_bytes enc_envelope v) < min L 4096"
    and "sc_writeCS a = Some s" "w_room (sc_underlying a) = None"
    and "sc_readCS b = Some r" "w_in (sc_underlying b) = []" "w_inErr (sc_underlying b) = EOF"
  shows "\<exists>sent a' st. encode_all nl envelope_json (hello # vs) a = (Inr (), a') \<and>
     w_out (sc_underlying a') = w_out (sc_underlying a) @ sent \<and>
     readEnvelopeWithTimeout nl envelope_json True False
       (NewDecoder (b\<lparr>sc_underlying := (sc_underlying b)\<lparr>w_in := sent\<rparr>\<rparr>)) = (Inr hello, st) \<and>
     runPeerReadLoop nl envelope_json (\<lambda>_. False) handle (NewDecoder (ds_conn st)) x =
       Some (Some (ConnError (Underlying EOF)), fold handle vs x)"
  by (rule stream_delivers [OF envelope_json_ok [OF assms(1)] assms(2-4) _ assms(6-)]) (use assms(5) in \<open>simp add: envelope_json_simps\<close>)

text \<open>C39: An envelope of more than 4096 bytes as the first one of a read loop is not delivered: \<^verbatim>\<open>SecureConn.Read\<close> cuts its frame
  at the 4096 bytes of the buffered reader, and the session ends with \<^verbatim>\<open>io.ErrShortBuffer\<close>, whatever follows.\<close>

theorem large_envelope_ends_session:
  assumes "sendable v" "4096 < length (Marshal_bytes enc_envelope v)" "\<not> stopped x"
    and "nl_decrypt nl r ct = (Inr (Marshal_bytes enc_envelope v @ [10]), r')" "ct \<noteq> []" "length ct < 4294967296"
    and "sc_readCS c = Some r" "w_in (sc_underlying c) = frame_encode ct @ rest"
  shows "runPeerReadLoop nl envelope_json stopped handle (NewDecoder c) x = Some (Some ErrShortBuffer, x)"
  using long_value_ends_session [of envelope_json v, OF envelope_json_ok] assms by (simp add: envelope_json_simps)

subsection \<open>Sample envelopes\<close>

definition demo_conn :: "bytes \<Rightarrow> nat SecureConn" where
  "demo_conn bs = \<lparr>sc_underlying = wire_in bs, sc_readCS = Some 0, sc_writeCS = Some 0\<rparr>"

definition sample_hello :: Envelope where
  "sample_hello = \<lparr>env_Type = MsgHello, env_FromID = ''a1'',
     env_Payload = P_hello \<lparr>h_Name = ''alice'', h_Listen = '':4001'', h_Protocol = ''p2p''\<rparr>\<rparr>"

definition sample_chat :: "string \<Rightarrow> Envelope" where
  "sample_chat t = \<lparr>env_Type = MsgGossip, env_FromID = ''a1'',
     env_Payload = P_gossip ''m1'' ''global'' (P_chat \<lparr>cm_Text = t, cm_From = ''alice'', cm_Timestamp = 17\<rparr>)\<rparr>"

lemma sample_sendable: "sendable sample_hello" "utf8_valid t \<Longrightarrow> sendable (sample_chat t)"
  by (simp_all add: sendable_def sample_hello_def sample_chat_def payload_fits_def body_fits_def enc_envelope_def enc_hello_def enc_chat_def
      enc_int64_def msg_type_defs)

lemma sample_length:
  "length (Marshal_bytes enc_envelope sample_hello) = 90"
  "plain t \<Longrightarrow> length (Marshal_bytes enc_envelope (sample_chat t)) = 122 + length t"
  by (simp_all add: Marshal_bytes_def sample_hello_def sample_chat_def enc_envelope_def enc_hello_def enc_chat_def enc_int64_def
      msg_type_defs quote_def escape_plain plain_char_def escape_char_def FormatInt_def FormatUint.simps)


theorem envelopes_delivered_witness:
  "\<exists>sent a' st. encode_all demo_noise envelope_json [sample_hello, sample_chat ''hi'', sample_chat ''bye''] (demo_conn []) = (Inr (), a') \<and>
     w_out (sc_underlying a') = sent \<and>
     readEnvelopeWithTimeout demo_noise envelope_json True False (NewDecoder (demo_conn sent)) = (Inr sample_hello, st) \<and>
     runPeerReadLoop demo_noise envelope_json (\<lambda>_. False) (\<lambda>v s. s @ [v]) (NewDecoder (ds_conn st)) [] =
       Some (Some (ConnError (Underlying EOF)), [sample_chat ''hi'', sample_chat ''bye''])"
  using envelopes_delivered [OF _ demo_noise_ok(2), of sample_hello "[sample_chat ''hi'', sample_chat ''bye'']" 4 0 0 "demo_conn []" "demo_conn []"
      "\<lambda>v s. s @ [v]" "[]"]
  by (simp add: in_step_def sample_sendable sample_length plain_char_def escape_char_def demo_conn_def wire_in_def)

theorem large_envelope_ends_session_witness:
  "runPeerReadLoop demo_noise envelope_json (\<lambda>_. False) (\<lambda>v s. s @ [v])
     (NewDecoder (demo_conn (frame_encode (0 # Marshal_bytes enc_envelope (sample_chat (replicate 5000 CHR ''a'')) @ [10])))) [] =
   Some (Some ErrShortBuffer, [])"
proof -
  let ?v = "sample_chat (replicate 5000 CHR ''a'')"
  have p: "plain (replicate 5000 CHR ''a'')"
    by (simp add: plain_char_def escape_char_def)
  have "length (Marshal_bytes enc_envelope ?v) = 5122"
    using sample_length(2) [OF p] by simp
  then show ?thesis
    by (intro large_envelope_ends_session [of ?v _ _ _ 0 _ 1 _ "[]"] sample_sendable(2) utf8_plain p)
      (simp_all add: demo_noise_def demo_conn_def wire_in_def)
qed

end
