(* ===== verification/Session.thy ===== *)
theory Session
  imports Node Wire
begin

text \<open>
  Setting up a session over a raw connection (\<^verbatim>\<open>internal/p2p/session.go\<close>, \<^verbatim>\<open>establishPeer\<close>): the Noise
  handshake of \<open>NoiseConn\<close>, the hello messages on the envelope stream of \<open>Wire\<close>, and the peer table of \<open>Node\<close>.
  \<open>negotiate\<close> computes from the bytes on the wire the outcome that \<open>establishPeer\<close> takes as its argument. The
  accept loop (\<^verbatim>\<open>accept.go\<close>) and the TCP network (\<^verbatim>\<open>internal/netx\<close>) follow.
\<close>

subsection \<open>From bytes to a session\<close>

definition conn_err_text :: "conn_error \<Rightarrow> string" where
  "conn_err_text e =
     (case e of
        Underlying EOF \<Rightarrow> ''EOF''
      | Underlying ErrUnexpectedEOF \<Rightarrow> ''unexpected EOF''
      | Underlying (IOError s) \<Rightarrow> s
      | MessageTooLong \<Rightarrow> ''handshake message too long''
      | InvalidLength \<Rightarrow> ''invalid handshake message length''
      | NoiseError s \<Rightarrow> s
      | NilCipher \<Rightarrow> ''invalid memory address or nil pointer dereference'')"

definition read_err_text :: "read_error \<Rightarrow> string" where
  "read_err_text e =
     (case e of
        ConnError c \<Rightarrow> (if c = InvalidLength then ''invalid frame length'' else conn_err_text c)
      | ErrShortBuffer \<Rightarrow> ''short buffer''
      | SyntaxErr \<Rightarrow> ''invalid character''
      | UnmarshalErr \<Rightarrow> ''cannot unmarshal''
      | UnexpectedEOF \<Rightarrow> ''unexpected EOF''
      | ReadTimeout \<Rightarrow> ''read timeout'')"

text \<open>The identity payload of the handshake as JSON.\<close>

definition zero_identity :: NoiseIdentityPayload where
  "zero_identity = \<lparr>np_Name = [], np_UserPub = []\<rparr>"

definition enc_identity :: "NoiseIdentityPayload \<Rightarrow> json_value" where
  "enc_identity x = JObject [(''name'', JString (np_Name x)), (''user_pub'', enc_bytes (np_UserPub x))]"

definition identity_fields :: "NoiseIdentityPayload field list" where
  "identity_fields = [(''name'', fld np_Name np_Name_update dec_string), (''user_pub'', fld np_UserPub np_UserPub_update dec_bytes)]"

definition dec_identity :: "NoiseIdentityPayload decoder" where
  "dec_identity = dec_struct identity_fields"

lemma dec_identity_enc [field_laws]: "dec_identity (enc_identity x) zero_identity = Some x"
  by (cases x) (simp add: dec_identity_def enc_identity_def identity_fields_def zero_identity_def struct_laws field_laws)

definition identity_json :: "NoiseIdentityPayload json" where
  "identity_json = go_json enc_identity (\<lambda>j. dec_identity j zero_identity)"

lemma identity_json_ok: "\<forall>x \<in> V. utf8_valid (np_Name x) \<Longrightarrow> json_ok identity_json V"
  unfolding identity_json_def
  by (rule go_json_ok) (simp add: object_codec_def dec_identity_enc, simp add: enc_identity_def maxNestingDepth_def)

text \<open>\<open>tr_timedOut\<close> matters only for a connection without read deadlines.\<close>

record ('h, 'c) transport =
  tr_noise :: "('h, 'c) noise_lib"
  tr_rnd :: bytes
  tr_hasDeadline :: bool
  tr_timedOut :: bool
  tr_remoteAddr :: string

definition local_payload :: "Node \<Rightarrow> bytes" where
  "local_payload n =
     j_marshal identity_json \<lparr>np_Name = nc_Name (n_cfg n), np_UserPub = id_SignPub (n_id n)\<rparr>"

definition handshake ::
  "('h, 'c) transport \<Rightarrow> bool \<Rightarrow> Node \<Rightarrow> wire \<Rightarrow> (conn_error + 'c HandshakeResult) \<times> wire" where
  "handshake tr inbound n =
     (let static = (id_NoisePriv (n_id n), id_NoisePub (n_id n))
      in if inbound then NewSecureServer (tr_noise tr) (tr_rnd tr) static
         else NewSecureClient (tr_noise tr) (tr_rnd tr) static (local_payload n))"

text \<open>The outcome of each step of \<^verbatim>\<open>establishPeer\<close> up to the received hello, and the connection then; a step
  that is not reached has the outcome of success.\<close>

definition payload_outcome :: "bytes \<Rightarrow> NoiseIdentityPayload option option" where
  "payload_outcome p = (if p = [] then None else Some (j_unmarshal identity_json p))"

definition negotiate ::
  "('h, 'c) transport \<Rightarrow> bool \<Rightarrow> Node \<Rightarrow> wire \<Rightarrow> session_io \<times> 'c SecureConn option" where
  "negotiate tr inbound n w =
     (let io = \<lparr>si_handshake = Inr None, si_helloErr = None, si_hello = Inl [], si_remoteAddr = tr_remoteAddr tr\<rparr>
      in case handshake tr inbound n w of
           (Inl e, _) \<Rightarrow> (io\<lparr>si_handshake := Inl (conn_err_text e)\<rparr>, None)
         | (Inr hs, _) \<Rightarrow>
             let rp = payload_outcome (hr_RemotePayload hs);
                 io = io\<lparr>si_handshake := Inr rp\<rparr>
             in if rp = Some None then (io, Some (SecureClose (hr_Conn hs)))
                else case Encode (tr_noise tr) envelope_json (sendHello n) (hr_Conn hs) of
                       (Inl e, c) \<Rightarrow> (io\<lparr>si_helloErr := Some (conn_err_text e)\<rparr>, Some (SecureClose c))
                     | (Inr _, c) \<Rightarrow>
                         (case readEnvelopeWithTimeout (tr_noise tr) envelope_json (tr_hasDeadline tr) (tr_timedOut tr)
                                 (NewDecoder c) of
                            (Inl e, st) \<Rightarrow> (io\<lparr>si_hello := Inl (read_err_text e)\<rparr>, Some (SecureClose (ds_conn st)))
                          | (Inr env, st) \<Rightarrow> (io\<lparr>si_hello := Inr env\<rparr>, Some (ds_conn st))))"

definition establish_session ::
  "crypto \<Rightarrow> (nat \<Rightarrow> gotime) \<Rightarrow> store_io \<Rightarrow> ('h, 'c) transport \<Rightarrow> bool \<Rightarrow> wire \<Rightarrow> nat \<Rightarrow> Node \<Rightarrow>
   (session_error + nat option) \<times> Node" where
  "establish_session cr clock sio tr inbound w r n = establishPeer cr clock sio (fst (negotiate tr inbound n w)) r n"

text \<open>What a node sends during the set-up.\<close>

definition session_sends :: "('h, 'c) transport \<Rightarrow> bool \<Rightarrow> Node \<Rightarrow> wire \<Rightarrow> bytes" where
  "session_sends tr inbound n w =
     (case negotiate tr inbound n w of
        (_, Some c) \<Rightarrow> w_out (sc_underlying c)
      | (_, None) \<Rightarrow> w_out (snd (handshake tr inbound n w)))"

subsection \<open>The TCP network and the accept loop\<close>

text \<open>The state of a \<^verbatim>\<open>tcpNetwork\<close> is its listener, if any; the outcomes of the system calls are arguments.\<close>

datatype accept_error = ErrClosed | AcceptError string

record 'l tcpNetwork =
  tn_listener :: "'l option"

definition NewTCPNetwork :: "'l tcpNetwork" where
  "NewTCPNetwork = \<lparr>tn_listener = None\<rparr>"

definition tcp_Listen :: "string + 'l \<times> string \<Rightarrow> 'l tcpNetwork \<Rightarrow> (string + string) \<times> 'l tcpNetwork" where
  "tcp_Listen sys t =
     (case sys of Inl err \<Rightarrow> (Inl err, t) | Inr (l, addr) \<Rightarrow> (Inr addr, t\<lparr>tn_listener := Some l\<rparr>))"

definition tcp_Accept :: "('l \<Rightarrow> accept_error + 'conn) \<Rightarrow> 'l tcpNetwork \<Rightarrow> accept_error + 'conn" where
  "tcp_Accept sys t = (case tn_listener t of None \<Rightarrow> Inl ErrClosed | Some l \<Rightarrow> sys l)"

definition tcp_Dial :: "(string \<Rightarrow> string + 'conn) \<Rightarrow> string \<Rightarrow> string + 'conn" where
  "tcp_Dial sys addr = (case sys addr of Inl err \<Rightarrow> Inl err | Inr c \<Rightarrow> Inr c)"

definition tcp_Close :: "('l \<Rightarrow> string option) \<Rightarrow> 'l tcpNetwork \<Rightarrow> string option \<times> 'l tcpNetwork" where
  "tcp_Close sys t =
     (case tn_listener t of
        Some l \<Rightarrow> (sys l, t\<lparr>tn_listener := None\<rparr>)
      | None \<Rightarrow> (None, t))"

definition closed_error :: "accept_error \<Rightarrow> bool" where
  "closed_error e \<longleftrightarrow>
     (case e of ErrClosed \<Rightarrow> True | AcceptError s \<Rightarrow> sublist ''use of closed network connection'' s)"

text \<open>Each iteration: whether the node is stopped, and what \<^verbatim>\<open>Accept\<close> returned. The result is the connections handed to
  \<^verbatim>\<open>handleConn\<close>, and whether the loop has ended.\<close>

fun acceptLoop :: "(bool \<times> (accept_error + 'conn)) list \<Rightarrow> 'conn list \<times> bool" where
  "acceptLoop [] = ([], False)"
| "acceptLoop ((stopped, Inl err) # its) =
     (if stopped then ([], True) else if closed_error err then ([], True) else acceptLoop its)"
| "acceptLoop ((stopped, Inr c) # its) = (case acceptLoop its of (cs, ended) \<Rightarrow> (c # cs, ended))"

text \<open>A transient error never loses a connection and does not end the loop; closing the network does.\<close>

lemma acceptLoop_running:
  "\<forall>(stopped, r) \<in> set its. isl r \<longrightarrow> \<not> stopped \<and> \<not> closed_error (projl r) \<Longrightarrow>
   acceptLoop (its @ its') = (case acceptLoop its' of (cs, ended) \<Rightarrow> (map projr (filter (\<lambda>r. \<not> isl r) (map snd its)) @ cs, ended))"
  by (induction its rule: acceptLoop.induct) (auto split: prod.splits)

lemma acceptLoop_ends_after_Close:
  assumes "\<forall>(stopped, r) \<in> set its. isl r \<longrightarrow> \<not> stopped \<and> \<not> closed_error (projl r)"
  shows "acceptLoop (its @ (stopped, tcp_Accept sys (snd (tcp_Close csys t))) # its') =
    (map projr (filter (\<lambda>r. \<not> isl r) (map snd its)), True)"
  using acceptLoop_running [OF assms]
  by (simp add: tcp_Accept_def tcp_Close_def closed_error_def split: option.splits)

subsection \<open>Two nodes\<close>

text \<open>One side of a set-up in which the handshake succeeds and the hello of the other side arrives.\<close>

lemma negotiate_ok:
  assumes "handshake tr inbound n (wire_in inn) =
      (Inr (handshake_result ((wire_in (frame_encode ct))\<lparr>w_out := out\<rparr>) (Some rd) (Some wr) p), w')"
    and "payload_outcome p \<noteq> Some None" "json_ok envelope_json V" "env \<in> V" "tr_hasDeadline tr"
    and enc: "nl_encrypt (tr_noise tr) wr (j_marshal envelope_json (sendHello n) @ [10]) = (Inr ct', wr')"
      "ct' \<noteq> []" "length ct' < 4294967296"
    and dec: "nl_decrypt (tr_noise tr) rd ct = (Inr (j_marshal envelope_json env @ [10]), rd')"
      "ct \<noteq> []" "length ct < 4294967296" "length (j_marshal envelope_json env) < 4096"
  shows "\<exists>c. negotiate tr inbound n (wire_in inn) =
     (\<lparr>si_handshake = Inr (payload_outcome p), si_helloErr = None, si_hello = Inr env,
       si_remoteAddr = tr_remoteAddr tr\<rparr>, Some c) \<and> w_out (sc_underlying c) = out @ frame_encode ct'"
proof -
  let ?c = "\<lparr>sc_underlying = (wire_in (frame_encode ct))\<lparr>w_out := out\<rparr>, sc_readCS = Some rd, sc_writeCS = Some wr\<rparr>"
  let ?c1 = "?c\<lparr>sc_writeCS := Some wr', sc_underlying := (sc_underlying ?c)\<lparr>w_out := out @ frame_encode ct'\<rparr>\<rparr>"
  have w: "Encode (tr_noise tr) envelope_json (sendHello n) ?c = (Inr (length (j_marshal envelope_json (sendHello n) @ [10])), ?c1)"
    unfolding Encode_def using SecureWrite_step [of ?c wr, OF _ _ enc] by (simp add: wire_in_def)
  have rd: "SecureRead (tr_noise tr) k ?c1 = (Inr (take k (j_marshal envelope_json env @ [10]),
      k < length (j_marshal envelope_json env @ [10])), after_frame rd' [] ?c1)" for k
    by (intro SecureRead_step) (use dec in \<open>simp_all add: wire_in_def\<close>)
  obtain st where st: "Decode (tr_noise tr) envelope_json (NewDecoder ?c1) = (Inr env, st)" "ds_conn st = after_frame rd' [] ?c1"
    using Decode_frame [OF assms(3) NewDecoder_idle(1) assms(4) dec(4), unfolded NewDecoder_idle(2), OF rd] by blast
  have "hr_Conn (handshake_result ((wire_in (frame_encode ct))\<lparr>w_out := out\<rparr>) (Some rd) (Some wr) p) = ?c"
    "hr_RemotePayload (handshake_result ((wire_in (frame_encode ct))\<lparr>w_out := out\<rparr>) (Some rd) (Some wr) p) = p"
    by (simp_all add: handshake_result_def)
  then show ?thesis
    unfolding negotiate_def Let_def assms(1) readEnvelopeWithTimeout_def
    using assms(2,5) w st by simp
qed

lemma establishPeer_ok:
  assumes "si_handshake io = Inr rp" "remote_identity rp = Some (rname, rpub, ruid)" "si_helloErr io = None"
    and "si_hello io = Inr (sendHello m)" "n_peers n (id_ID (n_id m)) = None" "id_ID (n_id m) \<noteq> id_ID (n_id n)"
  shows "\<exists>n' p. establishPeer cr clock sio io r n = (Inr (Some r), n') \<and> n_peers n' = (n_peers n)(id_ID (n_id m) \<mapsto> r) \<and>
     n_heap n' r = Some p \<and> pr_id p = id_ID (n_id m) \<and> pr_addr p = n_addr m \<and> pr_name p = rname \<and>
     pr_userPub p = rpub \<and> pr_userID p = ruid"
  using assms by (simp add: establishPeer_def sendHello_def self_env_def addPeer_def emit_def)

text \<open>The strings a node sends in its hello and in its identity payload are UTF-8 text.\<close>

definition node_text :: "Node \<Rightarrow> bool" where
  "node_text n \<longleftrightarrow> utf8_valid (nc_Name (n_cfg n)) \<and> utf8_valid (nc_Protocol (n_cfg n)) \<and> utf8_valid (n_addr n) \<and> utf8_valid (id_ID (n_id n))"

lemma hello_sendable: "node_text n \<Longrightarrow> sendable (sendHello n)"
  by (simp add: node_text_def sendable_def sendHello_def self_env_def payload_fits_def enc_envelope_def enc_hello_def msg_type_defs)

text \<open>C10: A node that dials another one gets a session: with streams that carry to each side exactly what the other side sends, both
  ends of \<^verbatim>\<open>establishPeer\<close> succeed, and each node files the other one under its identifier with its listen address. The
  side that accepted learns the name and the user key of the dialling node from the handshake; the dialling side
  learns neither.\<close>

theorem sessions_established:
  assumes "noise_xx nl (Suc N) S" "noise_sync nl L S" "node_text A" "node_text B"
    and "tr_noise trA = nl" "tr_noise trB = nl"
    and "tr_hasDeadline trA" "tr_hasDeadline trB"
    and "nl_new nl (tr_rnd trA) True (id_NoisePriv (n_id A), id_NoisePub (n_id A)) = Inr hA"
      "nl_new nl (tr_rnd trB) False (id_NoisePriv (n_id B), id_NoisePub (n_id B)) = Inr hB"
    and "length (local_payload A) \<le> 65471"
      "length (Marshal_bytes enc_envelope (sendHello A)) < min L 4096" "length (Marshal_bytes enc_envelope (sendHello B)) < min L 4096"
    and "id_ID (n_id A) \<noteq> id_ID (n_id B)" "n_peers A (id_ID (n_id B)) = None" "n_peers B (id_ID (n_id A)) = None"
  shows "\<exists>inA inB A' B' pA pB.
     inA = session_sends trB True B (wire_in inB) \<and> inB = session_sends trA False A (wire_in inA) \<and>
     establish_session cr clock sio trA False (wire_in inA) r A = (Inr (Some r), A') \<and>
     establish_session cr' clock' sio' trB True (wire_in inB) r' B = (Inr (Some r'), B') \<and>
     n_peers A' (id_ID (n_id B)) = Some r \<and> n_heap A' r = Some pB \<and> pr_addr pB = n_addr B \<and>
     pr_name pB = [] \<and> pr_userPub pB = [] \<and> pr_userID pB = [] \<and>
     n_peers B' (id_ID (n_id A)) = Some r' \<and> n_heap B' r' = Some pA \<and> pr_addr pA = n_addr A \<and>
     pr_name pA = nc_Name (n_cfg A) \<and> pr_userPub pA = id_SignPub (n_id A) \<and>
     pr_userID pA = EncodeToString (id_SignPub (n_id A))"
proof -
  let ?pl = "local_payload A" and ?mA = "Marshal_bytes enc_envelope (sendHello A)" and ?mB = "Marshal_bytes enc_envelope (sendHello B)"
  obtain toServer toClient a b a' b' where st: "S (Suc N) a a'" "S (Suc N) b' b"
      and client: "\<And>x. NewSecureClient nl (tr_rnd trA) (id_NoisePriv (n_id A), id_NoisePub (n_id A)) ?pl (wire_in (toClient @ x)) =
        (Inr (handshake_result ((wire_in x)\<lparr>w_out := toServer\<rparr>) (Some b) (Some a) []), (wire_in x)\<lparr>w_out := toServer\<rparr>)"
      and server: "\<And>x. NewSecureServer nl (tr_rnd trB) (id_NoisePriv (n_id B), id_NoisePub (n_id B)) (wire_in (toServer @ x)) =
        (Inr (handshake_result ((wire_in x)\<lparr>w_out := toClient\<rparr>) (Some a') (Some b') ?pl), (wire_in x)\<lparr>w_out := toClient\<rparr>)"
    using handshake_agrees [OF assms(1,9-11)] by (elim exE conjE) (rule that; blast)
  have "length (?mA @ [10]) \<le> L" "length (?mB @ [10]) \<le> L"
    using assms(12,13) by simp_all
  then obtain ctA wA rA ctB wB rB where
      ctA: "nl_encrypt nl a (?mA @ [10]) = (Inr ctA, wA)" "ctA \<noteq> []" "length ctA < 4294967296" "nl_decrypt nl a' ctA = (Inr (?mA @ [10]), rA)"
      and ctB: "nl_encrypt nl b' (?mB @ [10]) = (Inr ctB, wB)" "ctB \<noteq> []" "length ctB < 4294967296" "nl_decrypt nl b ctB = (Inr (?mB @ [10]), rB)"
    using assms(2) st unfolding noise_sync_def by meson
  let ?inA = "toClient @ frame_encode ctB" and ?inB = "toServer @ frame_encode ctA"
  have pl: "payload_outcome ?pl = Some (Some \<lparr>np_Name = nc_Name (n_cfg A), np_UserPub = id_SignPub (n_id A)\<rparr>)"
    using json_okD(1,4) [OF identity_json_ok, of "{\<lparr>np_Name = nc_Name (n_cfg A), np_UserPub = id_SignPub (n_id A)\<rparr>}" "[]"] assms(3)
    by (simp add: payload_outcome_def local_payload_def node_text_def)
  have ok: "json_ok envelope_json {sendHello A, sendHello B}"
    using assms(3,4) by (simp add: envelope_json_ok hello_sendable)
  obtain cA where A: "negotiate trA False A (wire_in ?inA) = (\<lparr>si_handshake = Inr None, si_helloErr = None,
      si_hello = Inr (sendHello B), si_remoteAddr = tr_remoteAddr trA\<rparr>, Some cA)" "w_out (sc_underlying cA) = ?inB"
    using negotiate_ok [of trA False A ?inA toServer ctB b a "[]" _ "{sendHello A, sendHello B}" "sendHello B" ctA wA rB] client [of "frame_encode ctB"] ctA ctB ok assms(5,7,13)
    by (auto simp: handshake_def payload_outcome_def envelope_json_simps)
  obtain cB where B: "negotiate trB True B (wire_in ?inB) = (\<lparr>si_handshake = Inr (payload_outcome ?pl), si_helloErr = None,
      si_hello = Inr (sendHello A), si_remoteAddr = tr_remoteAddr trB\<rparr>, Some cB)" "w_out (sc_underlying cB) = ?inA"
    using negotiate_ok [of trB True B ?inB toClient ctA a' b' ?pl _ "{sendHello A, sendHello B}" "sendHello A" ctB wB rA] server [of "frame_encode ctA"] ctA ctB pl ok assms(6,8,12)
    by (auto simp: handshake_def envelope_json_simps)
  obtain A' pB where A': "establish_session cr clock sio trA False (wire_in ?inA) r A = (Inr (Some r), A')"
      "n_peers A' = (n_peers A)(id_ID (n_id B) \<mapsto> r)" "n_heap A' r = Some pB" "pr_addr pB = n_addr B"
      "pr_name pB = []" "pr_userPub pB = []" "pr_userID pB = []"
    using establishPeer_ok [of "fst (negotiate trA False A (wire_in ?inA))" None "[]" "[]" "[]" B A cr clock sio r] A(1) assms(14,15)
    by (auto simp: establish_session_def remote_identity_def)
  obtain B' pA where B': "establish_session cr' clock' sio' trB True (wire_in ?inB) r' B = (Inr (Some r'), B')"
      "n_peers B' = (n_peers B)(id_ID (n_id A) \<mapsto> r')" "n_heap B' r' = Some pA" "pr_addr pA = n_addr A"
      "pr_name pA = nc_Name (n_cfg A)" "pr_userPub pA = id_SignPub (n_id A)" "pr_userID pA = EncodeToString (id_SignPub (n_id A))"
    using establishPeer_ok [of "fst (negotiate trB True B (wire_in ?inB))" "payload_outcome ?pl" _ _ _ A B cr' clock' sio' r'] B(1) pl assms(14,16)
    by (auto simp: establish_session_def remote_identity_def)
  show ?thesis
    by (intro exI [of _ ?inA] exI [of _ ?inB] exI [of _ A'] exI [of _ B'] exI [of _ pA] exI [of _ pB])
      (use A' B' A B in \<open>simp add: session_sends_def\<close>)
qed

text \<open>Two sample nodes.\<close>

definition sample_dialler :: Node where
  "sample_dialler = sample_seed\<lparr>n_id := \<lparr>id_SignPriv = [3], id_SignPub = [3], id_NoisePriv = [4], id_NoisePub = [4], id_ID = ''d''\<rparr>,
     n_addr := '':4001'', n_peers := Map.empty, n_heap := Map.empty\<rparr>"

definition sample_transport :: "(nat, nat) transport" where
  "sample_transport = \<lparr>tr_noise = demo_noise,
     tr_rnd = [], tr_hasDeadline = True, tr_timedOut = False, tr_remoteAddr = ''10.0.0.9:5000''\<rparr>"

theorem sessions_established_witness:
  "\<exists>inA inB A' B' pA pB.
     inA = session_sends sample_transport True sample_seed (wire_in inB) \<and>
     inB = session_sends sample_transport False sample_dialler (wire_in inA) \<and>
     establish_session demo_crypto (\<lambda>_. 5) ([], True) sample_transport False (wire_in inA) 0 sample_dialler = (Inr (Some 0), A') \<and>
     establish_session demo_crypto (\<lambda>_. 5) ([], True) sample_transport True (wire_in inB) 7 sample_seed = (Inr (Some 7), B') \<and>
     n_peers A' (sample_peer 0) = Some 0 \<and> n_heap A' 0 = Some pB \<and> pr_addr pB = [] \<and>
     pr_name pB = [] \<and> pr_userPub pB = [] \<and> pr_userID pB = [] \<and>
     n_peers B' ''d'' = Some 7 \<and> n_heap B' 7 = Some pA \<and> pr_addr pA = '':4001'' \<and>
     pr_name pA = ''s'' \<and> pr_userPub pA = [3] \<and> pr_userID pA = EncodeToString [3]"
proof -
  have ids: "n_id sample_seed = \<lparr>id_SignPriv = [1], id_SignPub = [1], id_NoisePriv = [2], id_NoisePub = [2], id_ID = sample_peer 0\<rparr>"
    "n_id sample_dialler = \<lparr>id_SignPriv = [3], id_SignPub = [3], id_NoisePriv = [4], id_NoisePub = [4], id_ID = ''d''\<rparr>"
    "nc_Name (n_cfg sample_dialler) = ''s''" "n_addr sample_dialler = '':4001''" "n_addr sample_seed = []"
    "n_peers sample_dialler = Map.empty" "n_peers sample_seed ''d'' = None" "sample_peer 0 \<noteq> ''d''"
    using sample_peer_long [of 0] by (auto simp: sample_seed_def sample_dialler_def)
  have txts: "node_text sample_dialler" "node_text sample_seed"
    using hex_plain by (auto simp: node_text_def sample_dialler_def sample_seed_def sample_peer_def utf8_plain)
  have len: "length (local_payload sample_dialler) \<le> 65471"
    "length (Marshal_bytes enc_envelope (sendHello sample_dialler)) < min 65519 4096"
    "length (Marshal_bytes enc_envelope (sendHello sample_seed)) < min 65519 4096"
    using escape_plain [OF b64_plain [of "[3]"]] escape_plain [OF hex_plain [of "sample_id 0"]] sample_peer_long [of 0]
    by (simp_all add: local_payload_def identity_json_def go_json_def enc_identity_def enc_bytes_def Marshal_bytes_def sendHello_def self_env_def
        enc_envelope_def enc_hello_def msg_type_defs sample_dialler_def sample_seed_def sample_peer_def quote_def
        escape_plain plain_char_def escape_char_def)
  have tr: "tr_noise sample_transport = demo_noise" "tr_hasDeadline sample_transport"
    by (simp_all add: sample_transport_def)
  show ?thesis
    using sessions_established [OF demo_noise_ok(1) [of "Suc 0"] demo_noise_ok(2) txts tr(1) tr(1) tr(2) tr(2) _ _ len, of 0 0 demo_crypto "\<lambda>_. 5" "([], True)" 0 demo_crypto "\<lambda>_. 5" "([], True)" 7]
    by (simp add: ids(1-6) ids(7,8) ids(8) [symmetric] demo_noise_def)
qed

end
