(* ===== verification/Discovery.thy ===== *)
theory Discovery
  imports Node
begin

text \<open>
  Finding peers: LAN discovery over UDP broadcast (\<^verbatim>\<open>internal/discovery/lan.go\<close>, \<^verbatim>\<open>helpers.go\<close>), the discovery
  manager (\<^verbatim>\<open>manager.go\<close>) and the one-shot bootstrap (\<^verbatim>\<open>internal/bootstrap\<close>). What the sockets and the interface
  table do are arguments.
\<close>

subsection \<open>Configuration and messages\<close>

record LANConfig =
  lc_Port :: int
  lc_Timeout :: int

definition DefaultLANConfig :: LANConfig where
  "DefaultLANConfig = \<lparr>lc_Port = 42042, lc_Timeout = second\<rparr>"

record lanMessage =
  lm_Type :: string
  lm_Name :: string
  lm_Listen :: string

text \<open>A \<^verbatim>\<open>*net.UDPAddr\<close>: its IP in 16-byte form (or nil) and its port.\<close>

record UDPAddr =
  ua_IP :: "bytes option"
  ua_Port :: int

text \<open>The discovery message as JSON.\<close>

definition zero_lan :: lanMessage where
  "zero_lan = \<lparr>lm_Type = [], lm_Name = [], lm_Listen = []\<rparr>"

definition enc_lan :: "lanMessage \<Rightarrow> json_value" where
  "enc_lan x = JObject [(''type'', JString (lm_Type x)), (''name'', JString (lm_Name x)), (''listen'', JString (lm_Listen x))]"

definition lan_fields :: "lanMessage field list" where
  "lan_fields =
     [(''type'', fld lm_Type lm_Type_update dec_string), (''name'', fld lm_Name lm_Name_update dec_string),
      (''listen'', fld lm_Listen lm_Listen_update dec_string)]"

definition dec_lan :: "lanMessage decoder" where
  "dec_lan = dec_struct lan_fields"

definition marshal_lan :: "lanMessage \<Rightarrow> bytes" where
  "marshal_lan m = Marshal_bytes enc_lan m"

definition unmarshal_lan :: "bytes \<Rightarrow> lanMessage option" where
  "unmarshal_lan = Unmarshal_bytes (\<lambda>j. dec_lan j zero_lan)"

definition lan_text :: "lanMessage \<Rightarrow> bool" where
  "lan_text m \<longleftrightarrow> utf8_valid (lm_Type m) \<and> utf8_valid (lm_Name m) \<and> utf8_valid (lm_Listen m)"

lemma unmarshal_marshal_lan: "lan_text m \<Longrightarrow> unmarshal_lan (marshal_lan m) = Some m"
proof -
  assume t: "lan_text m"
  let ?ms = "[(''type'', JString (lm_Type m)), (''name'', JString (lm_Name m)), (''listen'', JString (lm_Listen m))]"
  have "json_wf (JObject ?ms)" "depth (JObject ?ms) \<le> maxNestingDepth"
    by (simp_all add: maxNestingDepth_def)
  from parse_print [OF this, of "[]"]
  have "parse_json (print_json (enc_lan m)) = Some (enc_lan m)"
    using t by (simp add: enc_lan_def lan_text_def sanitize_valid del: print_json.simps)
  moreover have "dec_lan (enc_lan m) zero_lan = Some m"
    by (cases m) (simp add: dec_lan_def enc_lan_def lan_fields_def zero_lan_def struct_laws field_laws)
  ultimately show ?thesis
    by (simp add: marshal_lan_def unmarshal_lan_def Marshal_bytes_def Unmarshal_bytes_def)
qed

subsection \<open>Addresses\<close>

definition JoinHostPort :: "string \<Rightarrow> string \<Rightarrow> string" where
  "JoinHostPort host port =
     (if colon \<in> set host then ''['' @ host @ '']:'' @ port else host @ '':'' @ port)"

definition listenPortOnly :: "string \<Rightarrow> string" where
  "listenPortOnly listenAddr =
     (case SplitHostPort listenAddr of
        Some (_, port) \<Rightarrow> if port \<noteq> [] then '':'' @ port else listenAddr
      | None \<Rightarrow> listenAddr)"

definition normalizeListenFromPong :: "UDPAddr option \<Rightarrow> string \<Rightarrow> string" where
  "normalizeListenFromPong sender listen =
     (case sender of
        Some u \<Rightarrow>
          (case ua_IP u of
             Some ip \<Rightarrow>
               if listen \<noteq> [] \<and> hd listen = colon then JoinHostPort (IP_String ip) (tl listen) else listen
           | None \<Rightarrow> listen)
      | None \<Rightarrow> listen)"

text \<open>Interfaces: the flag bits, and the addresses (\<open>None\<close>: an error). An address is a network with its IP (4 or 16
  bytes, or nil) and mask, or something else.\<close>

record ipnet =
  in_IP :: "bytes option"
  in_Mask :: bytes

record iface =
  if_Flags :: "32 word"
  if_Addrs :: "ipnet option list option"

definition FlagUp :: nat where "FlagUp = 0"
definition FlagPointToPoint :: nat where "FlagPointToPoint = 3"

definition ip_To4 :: "bytes \<Rightarrow> bytes option" where
  "ip_To4 ip = (if length ip = 4 then Some ip else To4 ip)"

definition broadcast_ip :: "bytes \<Rightarrow> bytes \<Rightarrow> bytes" where
  "broadcast_ip ip4 netmask = v4InV6Prefix @ map2 (\<lambda>i m. i OR NOT m) ip4 netmask"

definition net_broadcast :: "int \<Rightarrow> ipnet option \<Rightarrow> UDPAddr list" where
  "net_broadcast port a =
     (case a of
        None \<Rightarrow> []
      | Some ipn \<Rightarrow>
          (case in_IP ipn of
             None \<Rightarrow> []
           | Some ip \<Rightarrow>
               (case ip_To4 ip of
                  None \<Rightarrow> []
                | Some ip4 \<Rightarrow>
                    if length (in_Mask ipn) \<noteq> 4 then []
                    else [\<lparr>ua_IP = Some (broadcast_ip ip4 (in_Mask ipn)), ua_Port = port\<rparr>])))"

definition interfaceBroadcastAddrs :: "iface list option \<Rightarrow> int \<Rightarrow> UDPAddr list" where
  "interfaceBroadcastAddrs ifaces port =
     (case ifaces of
        None \<Rightarrow> []
      | Some its \<Rightarrow>
          concat (map (\<lambda>it.
            if \<not> bit (if_Flags it) FlagUp then []
            else if bit (if_Flags it) FlagPointToPoint then []
            else case if_Addrs it of None \<Rightarrow> [] | Some addrs \<Rightarrow> concat (map (net_broadcast port) addrs)) its))"

subsection \<open>Responder\<close>

text \<open>What a read on the socket gives: a datagram, of which the buffer takes 1024 bytes, or an error.\<close>

definition lan_buf :: nat where "lan_buf = 1024"

definition lan_reply :: "string \<Rightarrow> string \<Rightarrow> bytes \<Rightarrow> bytes option" where
  "lan_reply listenAddr name datagram =
     (case unmarshal_lan (take lan_buf datagram) of
        None \<Rightarrow> None
      | Some msg \<Rightarrow>
          if lm_Type msg \<noteq> ''ping'' then None
          else Some (marshal_lan \<lparr>lm_Type = ''pong'', lm_Name = name, lm_Listen = listenPortOnly listenAddr\<rparr>))"

text \<open>\<^verbatim>\<open>StartLANResponder\<close>: \<open>listenErr\<close> is the error of opening the socket; \<open>reads\<close> are the outcomes of the reads
  until the stop channel is closed, and the result the datagrams it sends.\<close>

fun responder_loop :: "string \<Rightarrow> string \<Rightarrow> (bytes \<times> UDPAddr) option list \<Rightarrow> (bytes \<times> UDPAddr) list" where
  "responder_loop listenAddr name [] = []"
| "responder_loop listenAddr name (None # reads) = responder_loop listenAddr name reads"
| "responder_loop listenAddr name (Some (datagram, addr) # reads) =
     (case lan_reply listenAddr name datagram of
        None \<Rightarrow> responder_loop listenAddr name reads
      | Some data \<Rightarrow> (data, addr) # responder_loop listenAddr name reads)"

definition StartLANResponder ::
  "string option \<Rightarrow> (bytes \<times> UDPAddr) option list \<Rightarrow> string \<Rightarrow> string \<Rightarrow> string + (bytes \<times> UDPAddr) list" where
  "StartLANResponder listenErr reads listenAddr name =
     (case listenErr of
        Some e \<Rightarrow> Inl (''lan responder listen: '' @ e)
      | None \<Rightarrow> Inr (responder_loop listenAddr name reads))"

subsection \<open>Discovery\<close>

text \<open>The reply loop: it ends at the first read error (the deadline, usually).\<close>

fun collect_pongs ::
  "string \<Rightarrow> string set \<Rightarrow> (bytes \<times> UDPAddr) option list \<Rightarrow> string list" where
  "collect_pongs listenAddr seen [] = []"
| "collect_pongs listenAddr seen (None # reads) = []"
| "collect_pongs listenAddr seen (Some (datagram, from) # reads) =
     (case unmarshal_lan (take lan_buf datagram) of
        None \<Rightarrow> collect_pongs listenAddr seen reads
      | Some msg \<Rightarrow>
          if lm_Type msg \<noteq> ''pong'' then collect_pongs listenAddr seen reads
          else
            let full = normalizeListenFromPong (Some from) (lm_Listen msg)
            in if full = [] \<or> full = listenAddr \<or> lm_Listen msg = listenAddr then collect_pongs listenAddr seen reads
               else if lm_Listen msg \<in> seen then collect_pongs listenAddr seen reads
               else full # collect_pongs listenAddr (insert (lm_Listen msg) seen) reads)"

record send_err =
  se_text :: string
  se_addrNotAvail :: bool

text \<open>The environment of one discovery: the error of opening the socket, the interfaces, the outcome of writing to each
  target, the error of setting the deadline, and the reads.\<close>

record lan_env =
  le_listenErr :: "string option"
  le_ifaces :: "iface list option"
  le_write :: "UDPAddr \<Rightarrow> send_err option"
  le_deadlineErr :: "string option"
  le_reads :: "(bytes \<times> UDPAddr) option list"

definition lan_targets :: "LANConfig \<Rightarrow> iface list option \<Rightarrow> UDPAddr list" where
  "lan_targets cfg ifaces =
     (let targets = interfaceBroadcastAddrs ifaces (lc_Port cfg)
      in if targets = [] then [\<lparr>ua_IP = Some (v4InV6Prefix @ [255, 255, 255, 255]), ua_Port = lc_Port cfg\<rparr>] else targets)"

text \<open>The result, and the addresses the ping was sent to.\<close>

definition DiscoverLANPeers ::
  "lan_env \<Rightarrow> LANConfig \<Rightarrow> string \<Rightarrow> string \<Rightarrow> (string + string list) \<times> (bytes \<times> UDPAddr) list" where
  "DiscoverLANPeers env cfg listenAddr name =
     (case le_listenErr env of
        Some e \<Rightarrow> (Inl (''lan discover listen: '' @ e), [])
      | None \<Rightarrow>
          let data = marshal_lan \<lparr>lm_Type = ''ping'', lm_Name = name, lm_Listen = listenAddr\<rparr>;
              targets = lan_targets cfg (le_ifaces env);
              err = le_write env (last targets);
              loop = \<lparr>ua_IP = Some (v4InV6Prefix @ [127, 0, 0, 1]), ua_Port = lc_Port cfg\<rparr>
          in case (case err of Some e \<Rightarrow> if se_addrNotAvail e then None else Some e | None \<Rightarrow> None) of
               Some e \<Rightarrow> (Inl (''lan discover broadcast: '' @ se_text e), map (Pair data) targets)
             | None \<Rightarrow>
                 (case le_deadlineErr env of
                    Some d \<Rightarrow> (Inl (''lan discover set deadline: '' @ d), map (Pair data) (targets @ [loop]))
                  | None \<Rightarrow> (Inr (collect_pongs listenAddr {} (le_reads env)), map (Pair data) (targets @ [loop]))))"

subsection \<open>The discovery manager\<close>

definition DefaultSeeds :: "string list" where
  "DefaultSeeds = []"

definition SeedStrategyDiscover :: "string list" where
  "SeedStrategyDiscover = [] @ DefaultSeeds"

record Manager =
  mg_Store :: PeerStore
  mg_LANConfig :: LANConfig
  mg_Seeds :: "string list"
  mg_Interval :: int
  mg_MaxFailures :: int

definition NewManager :: "PeerStore \<Rightarrow> LANConfig \<Rightarrow> Manager" where
  "NewManager store lanCfg =
     \<lparr>mg_Store = store, mg_LANConfig = lanCfg, mg_Seeds = DefaultSeeds, mg_Interval = 30 * second, mg_MaxFailures = 5\<rparr>"

text \<open>The addresses of one round: \<open>lan\<close> is what \<^verbatim>\<open>DiscoverLANPeers\<close> returned (nil with an error), \<open>ks\<close> the order in which the
  peer store is ranged over.\<close>

fun round_dedupe :: "string \<Rightarrow> string set \<Rightarrow> string list \<Rightarrow> string list" where
  "round_dedupe listenAddr seen [] = []"
| "round_dedupe listenAddr seen (a # addrs) =
     (if a = [] \<or> a = listenAddr then round_dedupe listenAddr seen addrs
      else if a \<in> seen then round_dedupe listenAddr seen addrs
      else a # round_dedupe listenAddr (insert a seen) addrs)"

definition round_addrs :: "string + string list \<Rightarrow> string list \<Rightarrow> string \<Rightarrow> Manager \<Rightarrow> string list" where
  "round_addrs lan ks listenAddr m =
     round_dedupe listenAddr {}
       ((case lan of Inl _ \<Rightarrow> [] | Inr addrs \<Rightarrow> addrs) @ peer_candidates ks (mg_MaxFailures m) (mg_Store m) @ mg_Seeds m)"

text \<open>The goroutine of one address. \<open>note a\<close>: the time, the order of the map and whether the file is written when its result
  is noted.\<close>

definition dial_note ::
  "(string \<Rightarrow> string option) \<Rightarrow> (string \<Rightarrow> gotime \<times> string list \<times> bool) \<Rightarrow> string \<Rightarrow> Manager \<times> Node \<Rightarrow> Manager \<times> Node" where
  "dial_note net note a = (\<lambda>(m, n).
     case ConnectTo net a n of
       (Some err, n') \<Rightarrow> (m\<lparr>mg_Store := dial_failure a (note a) (mg_Store m)\<rparr>, n')
     | (None, n') \<Rightarrow> (m\<lparr>mg_Store := dial_success a (note a) (mg_Store m)\<rparr>, n'))"

text \<open>One round of \<^verbatim>\<open>Run\<close>; \<open>order\<close> is the order in which its goroutines get to run.\<close>

definition manager_round ::
  "(string \<Rightarrow> string option) \<Rightarrow> (string \<Rightarrow> gotime \<times> string list \<times> bool) \<Rightarrow> string list \<Rightarrow> Manager \<times> Node \<Rightarrow> Manager \<times> Node" where
  "manager_round net note order s = fold (dial_note net note) order s"

subsection \<open>Bootstrap\<close>

record BootConfig =
  bc_MaxConnectPerRound :: int
  bc_PerAddrTimeout :: int

definition DefaultBootConfig :: BootConfig where
  "DefaultBootConfig = \<lparr>bc_MaxConnectPerRound = 12, bc_PerAddrTimeout = 2 * second\<rparr>"

datatype PeerSource =
    LANSource LANConfig string string
  | PeerStoreSource PeerStore int int
  | StaticSource "string list" string

fun SourceName :: "PeerSource \<Rightarrow> string" where
  "SourceName (LANSource cfg listenAddr name) = ''lan''"
| "SourceName (PeerStoreSource store maxFailures limit) = ''peerstore''"
| "SourceName (StaticSource addrs label) = (if label \<noteq> [] then label else ''static'')"

definition lan_source_discover :: "lan_env \<Rightarrow> LANConfig \<Rightarrow> string \<Rightarrow> string \<Rightarrow> string + string list" where
  "lan_source_discover env cfg listenAddr name =
     (case fst (DiscoverLANPeers env cfg listenAddr name) of Inl err \<Rightarrow> Inl err | Inr addrs \<Rightarrow> Inr addrs)"

definition peerstore_source_discover :: "string list \<Rightarrow> PeerStore \<Rightarrow> int \<Rightarrow> int \<Rightarrow> string + string list" where
  "peerstore_source_discover ks store maxFailures limit =
     (let c = peer_candidates ks maxFailures store
      in Inr (if limit > 0 \<and> int (length c) > limit then take (nat limit) c else c))"

definition static_source_discover :: "string list \<Rightarrow> string + string list" where
  "static_source_discover addrs = Inr addrs"

fun SourceDiscover :: "lan_env \<Rightarrow> string list \<Rightarrow> PeerSource \<Rightarrow> string + string list" where
  "SourceDiscover env ks (LANSource cfg listenAddr name) = lan_source_discover env cfg listenAddr name"
| "SourceDiscover env ks (PeerStoreSource store maxFailures limit) = peerstore_source_discover ks store maxFailures limit"
| "SourceDiscover env ks (StaticSource addrs label) = static_source_discover addrs"

definition gather :: "(PeerSource \<Rightarrow> lan_env \<times> string list) \<Rightarrow> PeerSource list \<Rightarrow> string list" where
  "gather env sources =
     concat (map (\<lambda>s. case SourceDiscover (fst (env s)) (snd (env s)) s of Inl err \<Rightarrow> [] | Inr addrs \<Rightarrow> addrs) sources)"

text \<open>The connecting loop of \<^verbatim>\<open>RunOnce\<close> on the shuffled candidates. A failed attempt counts as well.\<close>

fun connect_loop ::
  "(string \<Rightarrow> string option) \<Rightarrow> BootConfig \<Rightarrow> string set \<Rightarrow> int \<Rightarrow> string list \<Rightarrow> Node \<Rightarrow> Node" where
  "connect_loop net cfg seen conns [] n = n"
| "connect_loop net cfg seen conns (a # cands) n =
     (if conns \<ge> bc_MaxConnectPerRound cfg then n
      else if a \<in> seen then connect_loop net cfg seen conns cands n
      else connect_loop net cfg (insert a seen) (conns + 1) cands (snd (ConnectTo net a n)))"

text \<open>\<open>shuffle\<close> is what \<^verbatim>\<open>rand.Shuffle\<close> does to the candidates.\<close>

definition RunOnce ::
  "(PeerSource \<Rightarrow> lan_env \<times> string list) \<Rightarrow> (string list \<Rightarrow> string list) \<Rightarrow> (string \<Rightarrow> string option) \<Rightarrow>
   BootConfig \<Rightarrow> PeerSource list \<Rightarrow> Node \<Rightarrow> Node" where
  "RunOnce env shuffle net cfg sources n = connect_loop net cfg {} 0 (shuffle (gather env sources)) n"

subsection \<open>The first element of every key\<close>

fun first_by :: "('a \<Rightarrow> 'k) \<Rightarrow> 'k set \<Rightarrow> 'a list \<Rightarrow> 'a list" where
  "first_by key seen [] = []"
| "first_by key seen (x # xs) =
     (if key x \<in> seen then first_by key seen xs else x # first_by key (insert (key x) seen) xs)"

lemma first_by_keys: "key ` set (first_by key seen xs) = key ` set xs - seen"
  by (induction seen xs rule: first_by.induct [of _ key]) auto

lemma first_by_subset: "set (first_by key seen xs) \<subseteq> set xs"
  by (induction seen xs rule: first_by.induct [of _ key]) auto

lemma first_by_distinct: "distinct (map key (first_by key seen xs))"
  using first_by_keys [of key] by (induction seen xs rule: first_by.induct [of _ key]) (auto simp: image_iff)

lemma set_first_by_id: "set (first_by (\<lambda>x. x) seen xs) = set xs - seen"
  using first_by_keys [of "\<lambda>x. x" seen xs] by simp

lemma distinct_first_by_id: "distinct (first_by (\<lambda>x. x) seen xs)"
  using first_by_distinct [of "\<lambda>x. x" seen xs] by simp

lemma round_dedupe_eq:
  "round_dedupe la seen addrs = first_by (\<lambda>x. x) seen (filter (\<lambda>a. a \<noteq> [] \<and> a \<noteq> la) addrs)"
  by (induction la seen addrs rule: round_dedupe.induct) auto

subsection \<open>Dialling\<close>

lemma ConnectTo_conns: "n_conns (snd (ConnectTo net a n)) = n_conns n @ (if net a = None then [a] else [])"
  by (simp add: ConnectTo_def split: option.splits)

lemma connect_loop_eq:
  "connect_loop net cfg seen conns cands n =
     fold (\<lambda>a n. snd (ConnectTo net a n)) (take (nat (bc_MaxConnectPerRound cfg - conns)) (first_by (\<lambda>x. x) seen cands)) n"
proof (induction net cfg seen conns cands n rule: connect_loop.induct)
  case (2 net cfg seen conns a cands n)
  have "nat (bc_MaxConnectPerRound cfg - conns) = Suc (nat (bc_MaxConnectPerRound cfg - (conns + 1)))"
    if "\<not> bc_MaxConnectPerRound cfg \<le> conns"
    using that by linarith
  then show ?case
    using 2 by (simp add: not_le)
qed simp

lemma fold_ConnectTo_conns:
  "n_conns (fold (\<lambda>a n. snd (ConnectTo net a n)) as n) = n_conns n @ filter (\<lambda>a. net a = None) as"
  by (induction as arbitrary: n) (auto simp: ConnectTo_conns)

lemma manager_round_store:
  "mg_Store (fst (manager_round net note order (m, n))) =
     peer_book.replay (map (\<lambda>a. (a, note a, net a = None)) order) (mg_Store m)"
  unfolding manager_round_def peer_book.replay_def
  by (induction order arbitrary: m n) (auto simp: dial_note_def ConnectTo_def split: option.splits)

lemma manager_round_node:
  "snd (manager_round net note order (m, n)) = fold (\<lambda>a n. snd (ConnectTo net a n)) order n"
  unfolding manager_round_def
  by (induction order arbitrary: m n) (auto simp: dial_note_def ConnectTo_def split: option.splits)

text \<open>C30: A round of the discovery manager dials every address that LAN discovery, the peer store (up to the allowed failures) or the
  seed list names, each once, and neither the empty nor its own address; reachable addresses become
  connections. Whatever the order in which the dials end, the peer store then has no failures for the reached addresses, one more
  for the others, and is unchanged elsewhere.\<close>

theorem discovery_round_correct:
  assumes "mset order = mset (round_addrs lan ks listenAddr m)" "enumerates ks (ps_peers (mg_Store m))"
    and "(m', n') = manager_round net note order (m, n)"
  shows "set order = ((case lan of Inl _ \<Rightarrow> {} | Inr addrs \<Rightarrow> set addrs) \<union> set (mg_Seeds m) \<union>
       {a. \<exists>c. peer_failures (mg_Store m) a = Some c \<and> c \<le> mg_MaxFailures m}) - {[], listenAddr} \<and>
     distinct order \<and>
     n_conns n' = n_conns n @ filter (\<lambda>a. net a = None) order \<and>
     peer_failures (mg_Store m') a =
       (if a \<notin> set order then peer_failures (mg_Store m) a
        else Some (if net a = None then 0 else (case peer_failures (mg_Store m) a of None \<Rightarrow> 0 | Some c \<Rightarrow> c) + 1))"
proof (intro conjI)
  have cand: "set (peer_candidates ks (mg_MaxFailures m) (mg_Store m)) =
      {a. \<exists>c. peer_failures (mg_Store m) a = Some c \<and> c \<le> mg_MaxFailures m}"
    using enumerates_set [OF assms(2)]
    by (auto simp: peer_candidates_def peer_failures_def not_less domIff split: option.splits)
  show set: "set order = ((case lan of Inl _ \<Rightarrow> {} | Inr addrs \<Rightarrow> set addrs) \<union> set (mg_Seeds m) \<union>
       {a. \<exists>c. peer_failures (mg_Store m) a = Some c \<and> c \<le> mg_MaxFailures m}) - {[], listenAddr}"
    using mset_eq_setD [OF assms(1)]
    by (auto simp: round_addrs_def round_dedupe_eq set_first_by_id cand split: sum.splits)
  show dist: "distinct order"
    using mset_eq_imp_distinct_iff [OF assms(1)] by (simp add: round_addrs_def round_dedupe_eq distinct_first_by_id)
  show "n_conns n' = n_conns n @ filter (\<lambda>a. net a = None) order"
    using arg_cong [OF assms(3), of snd] by (simp add: manager_round_node fold_ConnectTo_conns)
  have "map_of (map (\<lambda>a. (a, note a, net a = None)) order) a =
      (if a \<in> set order then Some (note a, net a = None) else None)"
    by (induction order) auto
  then show "peer_failures (mg_Store m') a =
       (if a \<notin> set order then peer_failures (mg_Store m) a
        else Some (if net a = None then 0 else (case peer_failures (mg_Store m) a of None \<Rightarrow> 0 | Some c \<Rightarrow> c) + 1))"
    using peer_book.failures_distinct [of "map (\<lambda>a. (a, note a, net a = None)) order" "mg_Store m" a] dist
      arg_cong [OF assms(3), of fst]
    by (simp add: comp_def manager_round_store)
qed

text \<open>One bootstrap run tries the first \<^verbatim>\<open>MaxConnectPerRound\<close> distinct addresses of the shuffled candidates, whether they answer or
  not, each once; the connections are the reachable ones among them. Every candidate comes from a source that did not fail.\<close>

lemma bootstrap_run_exact:
  assumes "\<And>xs. mset (shuffle xs) = mset xs"
  shows "\<exists>tried. n_conns (RunOnce env shuffle net cfg sources n) = n_conns n @ filter (\<lambda>a. net a = None) tried \<and>
     distinct tried \<and> set tried \<subseteq> set (gather env sources) \<and>
     length tried = min (nat (bc_MaxConnectPerRound cfg)) (card (set (gather env sources))) \<and>
     (\<forall>a \<in> set tried. \<exists>s \<in> set sources. \<exists>addrs. SourceDiscover (fst (env s)) (snd (env s)) s = Inr addrs \<and> a \<in> set addrs)"
proof -
  let ?c = "gather env sources"
  let ?f = "first_by (\<lambda>x. x) {} (shuffle ?c)"
  have f: "set ?f = set ?c" "distinct ?f"
    using mset_eq_setD [OF assms] by (simp_all add: set_first_by_id distinct_first_by_id)
  have sub: "set (take k ?f) \<subseteq> set ?c" for k
    using set_take_subset [of k ?f] f(1) by simp
  have "n_conns (RunOnce env shuffle net cfg sources n) =
      n_conns n @ filter (\<lambda>a. net a = None) (take (nat (bc_MaxConnectPerRound cfg)) ?f)"
    by (simp add: RunOnce_def connect_loop_eq fold_ConnectTo_conns)
  moreover have "length (take (nat (bc_MaxConnectPerRound cfg)) ?f) = min (nat (bc_MaxConnectPerRound cfg)) (card (set ?c))"
    using distinct_card [OF f(2)] f(1) by (simp add: min.commute)
  moreover have src: "\<exists>s \<in> set sources. \<exists>addrs. SourceDiscover (fst (env s)) (snd (env s)) s = Inr addrs \<and> a \<in> set addrs"
    if "a \<in> set ?c" for a
    using that by (auto simp: gather_def split: sum.splits) metis
  ultimately show ?thesis
    using sub f(2) src [OF subsetD [OF sub]]
    by (intro exI [of _ "take (nat (bc_MaxConnectPerRound cfg)) ?f"] conjI ballI) (assumption | simp)+
qed

subsection \<open>LAN discovery\<close>

text \<open>A broadcast address lies in the network of the interface and has all host bits set.\<close>

lemma broadcast_ip_network:
  assumes "length ip4 = 4" "length netmask = 4"
  shows "\<exists>b. ip_To4 (broadcast_ip ip4 netmask) = Some b \<and> map2 (AND) b netmask = map2 (AND) ip4 netmask \<and>
    map2 (OR) b netmask = replicate 4 (- 1)"
proof -
  have *: "(i OR NOT m) AND m = i AND m" "(i OR NOT m) OR m = - 1" for i m :: byte
    by (auto simp: bit_eq_iff bit_simps)
  obtain i j k l where "ip4 = [i, j, k, l]"
    using assms(1) by (auto simp: numeral_eq_Suc length_Suc_conv)
  moreover obtain m n p q where "netmask = [m, n, p, q]"
    using assms(2) by (auto simp: numeral_eq_Suc length_Suc_conv)
  ultimately show ?thesis
    by (simp add: broadcast_ip_def ip_To4_def To4_def v4InV6Prefix_def * numeral_eq_Suc)
qed

text \<open>A LAN peer: the address its node listens on, its name, and the address its replies come from.\<close>

record lan_peer =
  lp_listen :: string
  lp_name :: string
  lp_from :: UDPAddr

definition lan_pong :: "bytes \<Rightarrow> lan_peer \<Rightarrow> (bytes \<times> UDPAddr) option" where
  "lan_pong ping p = map_option (\<lambda>d. (d, lp_from p)) (lan_reply (lp_listen p) (lp_name p) ping)"

definition peer_port :: "lan_peer \<Rightarrow> string" where
  "peer_port p = (case SplitHostPort (lp_listen p) of Some (_, port) \<Rightarrow> port | None \<Rightarrow> [])"

definition peer_addr :: "lan_peer \<Rightarrow> string" where
  "peer_addr p = (case ua_IP (lp_from p) of Some ip \<Rightarrow> JoinHostPort (IP_String ip) (peer_port p) | None \<Rightarrow> [])"

lemma JoinHostPort_not_Nil [simp]: "JoinHostPort h p \<noteq> []"
  by (simp add: JoinHostPort_def)

definition pong_of :: "lan_peer \<Rightarrow> lanMessage" where
  "pong_of p = \<lparr>lm_Type = ''pong'', lm_Name = lp_name p, lm_Listen = '':'' @ peer_port p\<rparr>"

text \<open>The messages \<open>M\<close> are UTF-8 text and fit into the receive buffer.\<close>

definition lan_fits :: "lanMessage set \<Rightarrow> bool" where
  "lan_fits M \<longleftrightarrow> (\<forall>m \<in> M. lan_text m \<and> length (marshal_lan m) \<le> lan_buf)"

definition lan_ping :: "string \<Rightarrow> string \<Rightarrow> lanMessage" where
  "lan_ping la name = \<lparr>lm_Type = ''ping'', lm_Name = name, lm_Listen = la\<rparr>"

lemma collect_lan_pongs:
  assumes "lan_fits (insert (lan_ping la name) (pong_of ` set ps))"
    and "\<forall>p \<in> set ps. peer_port p \<noteq> [] \<and> ua_IP (lp_from p) \<noteq> None \<and> peer_addr p \<noteq> la \<and> '':'' @ peer_port p \<noteq> la"
  shows "collect_pongs la ((\<lambda>port. '':'' @ port) ` seen) (map (lan_pong (marshal_lan (lan_ping la name))) ps @ [None]) =
    map peer_addr (first_by peer_port seen ps)"
  using assms
proof (induction ps arbitrary: seen)
  case (Cons p ps)
  obtain ip where ip: "ua_IP (lp_from p) = Some ip"
    using Cons.prems by auto
  have lst: "listenPortOnly (lp_listen p) = '':'' @ peer_port p"
    using Cons.prems by (auto simp: listenPortOnly_def peer_port_def split: option.splits)
  have pong: "lan_pong (marshal_lan (lan_ping la name)) p = Some (marshal_lan (pong_of p), lp_from p)"
    using Cons.prems(1) lst by (simp add: lan_pong_def lan_reply_def lan_fits_def lan_ping_def pong_of_def unmarshal_marshal_lan)
  have read: "unmarshal_lan (take lan_buf (marshal_lan (pong_of p))) = Some (pong_of p)"
    using Cons.prems(1) by (simp add: lan_fits_def unmarshal_marshal_lan)
  have full: "normalizeListenFromPong (Some (lp_from p)) ('':'' @ peer_port p) = peer_addr p" "peer_addr p \<noteq> []"
    using ip by (simp_all add: normalizeListenFromPong_def peer_addr_def colon_def)
  have seen: "'':'' @ peer_port p \<in> (\<lambda>port. '':'' @ port) ` seen \<longleftrightarrow> peer_port p \<in> seen"
    by auto
  have fits: "lan_fits (insert (lan_ping la name) (pong_of ` set ps))"
    using Cons.prems(1) by (auto simp: lan_fits_def)
  show ?case
    using Cons.IH [OF fits, of "insert (peer_port p) seen"] Cons.IH [OF fits, of seen] Cons.prems(2) pong read full seen
    by (simp add: pong_of_def)
qed simp

text \<open>C40: LAN discovery finds the peers that answer its ping, each under the address its reply came from and the port it listens on, in the
  order of the replies; but only the first one of every port: the replies carry no more than the port, and they are
  deduplicated by it.\<close>

theorem lan_discovery_one_per_port:
  assumes "lan_fits (insert (lan_ping la name) (pong_of ` set ps))"
    and "\<forall>p \<in> set ps. peer_port p \<noteq> [] \<and> ua_IP (lp_from p) \<noteq> None \<and> peer_addr p \<noteq> la \<and> '':'' @ peer_port p \<noteq> la"
    and "le_listenErr env = None" "le_write env = (\<lambda>_. None)" "le_deadlineErr env = None"
    and "le_reads env = map (lan_pong (marshal_lan (lan_ping la name))) ps @ [None]"
  shows "fst (DiscoverLANPeers env cfg la name) = Inr (map peer_addr (first_by peer_port {} ps))"
  using collect_lan_pongs [OF assms(1,2), of "{}"] assms(3-6) by (simp add: DiscoverLANPeers_def lan_ping_def Let_def)

text \<open>Two hosts that listen on the same port.\<close>

definition host_a :: lan_peer where
  "host_a = \<lparr>lp_listen = '':4001'', lp_name = ''a'', lp_from = \<lparr>ua_IP = Some (v4InV6Prefix @ [10, 0, 0, 1]), ua_Port = 42042\<rparr>\<rparr>"

definition host_b :: lan_peer where
  "host_b = \<lparr>lp_listen = '':4001'', lp_name = ''b'', lp_from = \<lparr>ua_IP = Some (v4InV6Prefix @ [10, 0, 0, 2]), ua_Port = 42042\<rparr>\<rparr>"

lemma host_addrs: "peer_port host_a = ''4001''" "peer_port host_b = ''4001''" "peer_addr host_a = ''10.0.0.1:4001''"
  "peer_addr host_b = ''10.0.0.2:4001''" 
  "ua_IP (lp_from host_a) = Some (v4InV6Prefix @ [10, 0, 0, 1])" "ua_IP (lp_from host_b) = Some (v4InV6Prefix @ [10, 0, 0, 2])"
  by code_simp+

theorem lan_discovery_one_per_port_witness:
  "fst (DiscoverLANPeers \<lparr>le_listenErr = None, le_ifaces = Some [], le_write = (\<lambda>_. None), le_deadlineErr = None,
      le_reads = map (lan_pong (marshal_lan (lan_ping ''10.0.0.3:5000'' ''c''))) [host_a, host_b] @ [None]\<rparr>
      DefaultLANConfig ''10.0.0.3:5000'' ''c'') = Inr [''10.0.0.1:4001'']"
proof -
  have msgs: "pong_of host_a = \<lparr>lm_Type = ''pong'', lm_Name = ''a'', lm_Listen = '':4001''\<rparr>"
    "pong_of host_b = \<lparr>lm_Type = ''pong'', lm_Name = ''b'', lm_Listen = '':4001''\<rparr>"
    by (simp_all add: pong_of_def host_addrs) (simp_all add: host_a_def host_b_def)
  have "lan_fits (insert (lan_ping ''10.0.0.3:5000'' ''c'') (pong_of ` set [host_a, host_b]))"
    by (simp add: lan_fits_def msgs lan_ping_def lan_text_def lan_buf_def marshal_lan_def Marshal_bytes_def enc_lan_def quote_def
        escape_plain plain_char_def escape_char_def)
  then show ?thesis
    by (subst lan_discovery_one_per_port [of _ _ "[host_a, host_b]"]) (simp_all add: host_addrs)
qed

definition sample_manager :: Manager where
  "sample_manager = (NewManager (NewPeerStore (Some [(new_peer ''p:1'')\<lparr>pr_FailureCount := 5\<rparr>, (new_peer ''q:1'')\<lparr>pr_FailureCount := 6\<rparr>]))
     DefaultLANConfig)\<lparr>mg_Seeds := [''s:1'', ''me:1'']\<rparr>"

abbreviation sample_net :: "string \<Rightarrow> string option" where
  "sample_net \<equiv> \<lambda>a. if a = ''s:1'' then None else Some ''refused''"

theorem discovery_round_correct_witness:
  "n_conns (snd (manager_round sample_net (\<lambda>_. (9, [], False)) [''s:1'', ''l:1'', ''p:1''] (sample_manager, sample_seed))) = [''s:1''] \<and>
   peer_failures (mg_Store (fst (manager_round sample_net (\<lambda>_. (9, [], False)) [''s:1'', ''l:1'', ''p:1'']
     (sample_manager, sample_seed)))) ''p:1'' = Some 6"
proof -
  have ks: "enumerates [''p:1'', ''q:1''] (ps_peers (mg_Store sample_manager))"
    by (auto simp: enumerates_def sample_manager_def NewManager_def NewPeerStore_def load_peers_def new_peer_def)
  have order: "mset [''s:1'', ''l:1'', ''p:1''] = mset (round_addrs (Inr [''l:1'', ''s:1'']) [''p:1'', ''q:1''] ''me:1'' sample_manager)"
    by (simp add: round_addrs_def sample_manager_def NewManager_def NewPeerStore_def load_peers_def new_peer_def peer_candidates_def)
  have "peer_failures (mg_Store sample_manager) ''p:1'' = Some 5" "n_conns sample_seed = []"
    by (simp_all add: sample_manager_def NewManager_def NewPeerStore_def load_peers_def new_peer_def peer_failures_def sample_seed_def)
  then show ?thesis
    using discovery_round_correct [OF order ks, of _ _ sample_net "\<lambda>_. (9, [], False)" sample_seed, OF surjective_pairing [symmetric], of "''p:1''"]
    by simp
qed

end
