(* ===== verification/Platform.thy ===== *)
theory Platform
  imports Quiz NetAddr "HOL-Library.Sublist"
begin

text \<open>
  The small platform packages: data directories (\<^verbatim>\<open>internal/appdata\<close>, \<^verbatim>\<open>internal/paths\<close>) with the part of \<^verbatim>\<open>path/filepath\<close>
  they use (Unix separators), terminal colours (\<^verbatim>\<open>internal/uiutil\<close>), the counters of the DHT
  (\<^verbatim>\<open>internal/dht/metrics_atomic.go\<close>), message identifiers (\<^verbatim>\<open>internal/p2p/msgid.go\<close>) and the bootstrap list on the command line
  (\<^verbatim>\<open>cmd/park-node/main.go\<close>).
\<close>

subsection \<open>path/filepath\<close>

definition slash :: char where "slash = CHR ''/''"

fun split_on :: "char \<Rightarrow> string \<Rightarrow> string list" where
  "split_on sep [] = [[]]"
| "split_on sep (c # s) =
     (if c = sep then [] # split_on sep s
      else case split_on sep s of p # ps \<Rightarrow> (c # p) # ps | [] \<Rightarrow> [[c]])"

fun join_with :: "char \<Rightarrow> string list \<Rightarrow> string" where
  "join_with sep [] = []"
| "join_with sep [p] = p"
| "join_with sep (p # q # ps) = p @ sep # join_with sep (q # ps)"

text \<open>The elements of a cleaned path, last first in \<open>acc\<close>.\<close>

fun clean_elems :: "bool \<Rightarrow> string list \<Rightarrow> string list \<Rightarrow> string list" where
  "clean_elems rooted acc [] = rev acc"
| "clean_elems rooted acc (p # ps) =
     (if p = [] \<or> p = ''.'' then clean_elems rooted acc ps
      else if p = ''..'' then
        (case acc of
           [] \<Rightarrow> if rooted then clean_elems rooted [] ps else clean_elems rooted [p] ps
         | q # acc' \<Rightarrow> if q = ''..'' then clean_elems rooted (p # acc) ps else clean_elems rooted acc' ps)
      else clean_elems rooted (p # acc) ps)"

definition rooted :: "string \<Rightarrow> bool" where
  "rooted p \<longleftrightarrow> p \<noteq> [] \<and> hd p = slash"

definition render :: "bool \<Rightarrow> string list \<Rightarrow> string" where
  "render r es = (if r then slash # join_with slash es else if es = [] then ''.'' else join_with slash es)"

definition Clean :: "string \<Rightarrow> string" where
  "Clean p = render (rooted p) (clean_elems (rooted p) [] (split_on slash p))"

definition JoinPath :: "string \<Rightarrow> string \<Rightarrow> string" where
  "JoinPath a b = (if a = [] then if b = [] then [] else Clean b else Clean (a @ slash # b))"

text \<open>\<^verbatim>\<open>filepath.Dir\<close>: everything up to the last separator, cleaned.\<close>

definition DirOf :: "string \<Rightarrow> string" where
  "DirOf p = Clean (rev (dropWhile (\<lambda>c. c \<noteq> slash) (rev p)))"

subsection \<open>Data directories\<close>

text \<open>The process environment; \<open>pe_mkdirErr d\<close> is the error of creating \<open>d\<close>.\<close>

record proc_env =
  pe_dataDirVar :: string
  pe_executable :: "string option"
  pe_getwd :: "string option"
  pe_userConfigDir :: "string option"
  pe_mkdirErr :: "string \<Rightarrow> string option"
  pe_windows :: bool

definition mustGetwd :: "proc_env \<Rightarrow> string" where
  "mustGetwd e = (case pe_getwd e of None \<Rightarrow> ''.'' | Some wd \<Rightarrow> wd)"

definition defaultCWDDataDir :: "proc_env \<Rightarrow> string" where
  "defaultCWDDataDir e = JoinPath (mustGetwd e) ''.p2p-park''"

definition looksLikeGoRunTempBinary :: "proc_env \<Rightarrow> string \<Rightarrow> bool" where
  "looksLikeGoRunTempBinary e exe \<longleftrightarrow>
     (let lower = ToLower exe
      in if sublist (slash # ''go-build'') lower then True
         else if pe_windows e then sublist (CHR 0x5C # ''go-build'') lower
         else False)"

definition compute_dir :: "proc_env \<Rightarrow> string" where
  "compute_dir e =
     (let v = TrimSpace (pe_dataDirVar e)
      in if v \<noteq> [] then Clean v
         else case pe_executable e of
                None \<Rightarrow> defaultCWDDataDir e
              | Some exe0 \<Rightarrow>
                  let exe = Clean exe0;
                      base = (if looksLikeGoRunTempBinary e exe then mustGetwd e else DirOf exe)
                  in JoinPath base ''.p2p-park'')"

text \<open>\<^verbatim>\<open>sync.Once\<close>: the package state is the directory, once it is computed. The second component is the new state.\<close>

definition Dir :: "proc_env \<Rightarrow> string option \<Rightarrow> string \<times> string option" where
  "Dir e cached =
     (case cached of
        Some d \<Rightarrow> (d, cached)
      | None \<Rightarrow> let d = compute_dir e in (d, Some d))"

definition Path :: "proc_env \<Rightarrow> string \<Rightarrow> string option \<Rightarrow> string \<times> string option" where
  "Path e filename cached = (case Dir e cached of (d, c) \<Rightarrow> (JoinPath d (Clean filename), c))"

definition DefaultDataDir :: "proc_env \<Rightarrow> string" where
  "DefaultDataDir e =
     (case pe_userConfigDir e of
        Some dir \<Rightarrow> if dir \<noteq> [] then JoinPath dir ''p2p-park'' else ''.p2p-park''
      | None \<Rightarrow> ''.p2p-park'')"

definition EnsureDir :: "proc_env \<Rightarrow> string \<Rightarrow> string + string" where
  "EnsureDir e dir =
     (case pe_mkdirErr e (Clean dir) of Some err \<Rightarrow> Inl err | None \<Rightarrow> Inr (Clean dir))"

subsection \<open>Colours\<close>

definition esc :: "string \<Rightarrow> string" where
  "esc s = CHR 0x1B # s"

definition AnsiReset :: string where "AnsiReset = esc ''[0m''"

definition nameColors :: "string list" where
  "nameColors = map esc [''[31m'', ''[32m'', ''[33m'', ''[34m'', ''[35m'', ''[36m'']"

definition color_hash :: "string \<Rightarrow> 32 word" where
  "color_hash s = fold (\<lambda>c h. (h * 16777619) XOR word_of_nat (of_char c)) s 0"

definition PickColor :: "string \<Rightarrow> string" where
  "PickColor s = (if s = [] then AnsiReset else nameColors ! unat (color_hash s mod word_of_nat (length nameColors)))"

definition ShortName :: "string \<Rightarrow> string" where
  "ShortName i = (if length i > 8 then take 8 i else i)"

definition FormatName :: "string \<Rightarrow> string \<Rightarrow> string" where
  "FormatName name fallback =
     (let display = (if name = [] then ShortName fallback else name)
      in PickColor display @ display @ AnsiReset)"

subsection \<open>Counters\<close>

record AtomicMetrics =
  am_rpcOK :: uint64
  am_rpcFail :: uint64
  am_lookups :: uint64
  am_lookupOK :: uint64
  am_lookupFail :: uint64
  am_lookupQueries :: uint64
  am_rtSize :: int64

datatype metric_event = IncRPC string bool | ObserveLookup string int bool | SetRoutingTableSize int | SetBucketOccupancy int int

fun observe :: "metric_event \<Rightarrow> AtomicMetrics \<Rightarrow> AtomicMetrics" where
  "observe (IncRPC kind ok) m =
     (if ok then m\<lparr>am_rpcOK := am_rpcOK m + 1\<rparr> else m\<lparr>am_rpcFail := am_rpcFail m + 1\<rparr>)"
| "observe (ObserveLookup kind queries ok) m =
     (let m = m\<lparr>am_lookups := am_lookups m + 1, am_lookupQueries := am_lookupQueries m + word_of_int queries\<rparr>
      in if ok then m\<lparr>am_lookupOK := am_lookupOK m + 1\<rparr> else m\<lparr>am_lookupFail := am_lookupFail m + 1\<rparr>)"
| "observe (SetRoutingTableSize n) m = m\<lparr>am_rtSize := word_of_int n\<rparr>"
| "observe (SetBucketOccupancy b n) m = m"

definition Snapshot :: "AtomicMetrics \<Rightarrow> (string \<times> uint64) list" where
  "Snapshot m = [(''rpc_ok'', am_rpcOK m), (''rpc_fail'', am_rpcFail m), (''lookups'', am_lookups m),
     (''lookup_ok'', am_lookupOK m), (''lookup_fail'', am_lookupFail m), (''lookup_queries'', am_lookupQueries m)]"

subsection \<open>Identifiers and arguments\<close>

text \<open>\<open>rnd\<close>: what \<^verbatim>\<open>rand.Read\<close> left in the 16-byte buffer (its error is ignored).\<close>

definition NewMsgID :: "bytes \<Rightarrow> string" where
  "NewMsgID rnd = EncodeToString (take 16 (rnd @ replicate 16 0))"

definition parse_bootstraps :: "string \<Rightarrow> string list" where
  "parse_bootstraps s =
     (if s \<noteq> [] then filter (\<lambda>p. p \<noteq> []) (map TrimSpace (split_on CHR '','' s)) else [])"

subsection \<open>Splitting and joining\<close>

lemma split_on_not_Nil [simp]: "split_on sep s \<noteq> []"
  by (cases s) (auto split: list.splits)

lemma split_on_sep_free: "p \<in> set (split_on sep s) \<Longrightarrow> sep \<notin> set p"
  by (induction s arbitrary: p) (auto split: if_splits list.splits)

lemma split_on_word: "sep \<notin> set w \<Longrightarrow> split_on sep w = [w]"
  by (induction w) auto

lemma split_on_append_sep: "sep \<notin> set w \<Longrightarrow> split_on sep (w @ sep # s) = w # split_on sep s"
  by (induction w) auto

lemma split_on_join: "ps \<noteq> [] \<Longrightarrow> \<forall>p \<in> set ps. sep \<notin> set p \<Longrightarrow> split_on sep (join_with sep ps) = ps"
  by (induction sep ps rule: join_with.induct) (auto simp: split_on_word split_on_append_sep)

lemma parse_bootstraps_join:
  assumes "addrs \<noteq> []" "\<forall>a \<in> set addrs. a \<noteq> [] \<and> CHR '','' \<notin> set a \<and> TrimSpace a = a"
  shows "parse_bootstraps (join_with CHR '','' addrs) = addrs"
proof -
  have "join_with CHR '','' addrs \<noteq> []"
    using assms by (cases addrs; cases "tl addrs") auto
  moreover have "map TrimSpace addrs = addrs" "filter (\<lambda>p. p \<noteq> []) addrs = addrs"
    using assms(2) by (simp_all add: map_idI)
  ultimately show ?thesis
    using split_on_join [of addrs "CHR '',''"] assms by (simp add: parse_bootstraps_def)
qed

subsection \<open>Cleaned paths\<close>

text \<open>The elements of a cleaned path: no empty element, no dot; parent elements only in front of a relative path.\<close>

definition elem_ok :: "string \<Rightarrow> bool" where
  "elem_ok p \<longleftrightarrow> p \<noteq> [] \<and> p \<noteq> ''.'' \<and> slash \<notin> set p"

definition canonical :: "bool \<Rightarrow> string list \<Rightarrow> bool" where
  "canonical r es \<longleftrightarrow> (\<forall>p \<in> set es. elem_ok p) \<and> ''..'' \<notin> set (dropWhile (\<lambda>p. p = ''..'') es) \<and>
     (r \<longrightarrow> ''..'' \<notin> set es)"

lemma canonical_Nil [simp]: "canonical r []"
  by (simp add: canonical_def)

lemma canonical_snoc: "canonical r es \<Longrightarrow> elem_ok p \<Longrightarrow> p \<noteq> ''..'' \<Longrightarrow> canonical r (es @ [p])"
  by (auto simp: canonical_def dropWhile_append)

lemma last_dropWhile: "dropWhile P xs \<noteq> [] \<Longrightarrow> last (dropWhile P xs) = last xs"
  by (induction xs) auto

lemma canonical_up: "canonical False es \<Longrightarrow> es = [] \<or> last es = ''..'' \<Longrightarrow> canonical False (es @ [''..''])"
proof -
  assume c: "canonical False es" "es = [] \<or> last es = ''..''"
  have "dropWhile (\<lambda>p. p = ''..'') es = []"
  proof (rule ccontr)
    assume "dropWhile (\<lambda>p. p = ''..'') es \<noteq> []"
    then have "last (dropWhile (\<lambda>p. p = ''..'') es) = ''..''" "dropWhile (\<lambda>p. p = ''..'') es \<noteq> []"
      using c(2) by (auto simp: last_dropWhile)
    then show False
      using c(1) last_in_set unfolding canonical_def by metis
  qed
  then show ?thesis
    using c(1) by (auto simp: canonical_def elem_ok_def slash_def dropWhile_append dropWhile_eq_Nil_conv)
qed

lemma canonical_butlast: "canonical r (es @ [p]) \<Longrightarrow> canonical r es"
proof -
  have "set (dropWhile P es) \<subseteq> set (dropWhile P (es @ [p]))" for P
    by (induction es) auto
  then show "canonical r (es @ [p]) \<Longrightarrow> canonical r es"
    by (auto simp: canonical_def)
qed

lemma clean_elems_canonical:
  "canonical r (rev acc) \<Longrightarrow> \<forall>p \<in> set ps. slash \<notin> set p \<Longrightarrow> canonical r (clean_elems r acc ps)"
proof (induction r acc ps rule: clean_elems.induct)
  case (2 r acc p ps)
  show ?case
  proof (cases "p = [] \<or> p = ''.''")
    case False
    show ?thesis
    proof (cases "p = ''..''")
      case True
      show ?thesis
      proof (cases acc)
        case Nil
        then show ?thesis
          using 2 True False canonical_up [of "[]"] by (cases r) simp_all
      next
        case (Cons q acc')
        show ?thesis
        proof (cases "q = ''..''")
          case up: True
          then have "\<not> r"
            using "2.prems"(1) Cons by (auto simp: canonical_def)
          then show ?thesis
            using 2 True False Cons up canonical_up [of "rev acc"] by simp
        next
          case name: False
          then show ?thesis
            using 2 True False Cons canonical_butlast [of r "rev acc'" q] by simp
        qed
      qed
    next
      case no_up: False
      then show ?thesis
        using 2 False canonical_snoc [of r "rev acc" p] by (simp add: elem_ok_def)
    qed
  qed (use 2 in simp)
qed simp

lemma clean_elems_id:
  "canonical r (rev acc @ es) \<Longrightarrow> clean_elems r acc es = rev acc @ es"
proof (induction es arbitrary: acc)
  case (Cons p es)
  have p: "p \<noteq> []" "p \<noteq> ''.''"
    using Cons.prems by (auto simp: canonical_def elem_ok_def)
  show ?case
  proof (cases "p = ''..''")
    case True
    then have "\<not> r" "\<forall>q \<in> set acc. q = ''..''"
      using Cons.prems by (auto simp: canonical_def dropWhile_append split: if_splits)
    then show ?thesis
      using Cons True by (cases acc) auto
  qed (use p Cons in simp)
qed simp

lemma rooted_render: "(\<forall>p \<in> set es. elem_ok p) \<Longrightarrow> rooted (render r es) = r"
proof -
  assume ok: "\<forall>p \<in> set es. elem_ok p"
  have "join_with slash es \<noteq> [] \<and> hd (join_with slash es) \<noteq> slash" if "es \<noteq> []"
  proof -
    note ne = that
    obtain c q es' where es: "es = (c # q) # es'" "c \<noteq> slash"
      using ne ok by (cases es; cases "hd es") (auto simp: elem_ok_def)
    then show ?thesis by (cases es') simp_all
  qed
  then show ?thesis
    by (auto simp: rooted_def render_def slash_def)
qed

lemma split_render: "canonical r es \<Longrightarrow> clean_elems r [] (split_on slash (render r es)) = es"
proof -
  assume c: "canonical r es"
  then have free: "\<forall>p \<in> set es. slash \<notin> set p"
    by (simp add: canonical_def elem_ok_def)
  show ?thesis
  proof (cases "es = []")
    case True
    then show ?thesis by (simp add: render_def slash_def)
  next
    case False
    then show ?thesis
      using split_on_join [OF False free] clean_elems_id [of r "[]" es] c by (cases r) (simp_all add: render_def)
  qed
qed

text \<open>Cleaning is idempotent, and a name without parent elements stays below the directory it is joined to.\<close>

lemma Clean_canonical: "\<exists>es. Clean p = render (rooted p) es \<and> canonical (rooted p) es"
  using clean_elems_canonical [of "rooted p" "[]" "split_on slash p"] split_on_sep_free [of _ slash p]
  by (auto simp: Clean_def)

lemma Clean_render: "canonical r es \<Longrightarrow> Clean (render r es) = render r es"
  by (simp add: Clean_def rooted_render split_render canonical_def [of r es])

lemma Clean_idem: "Clean (Clean p) = Clean p"
  using Clean_canonical [of p] Clean_render by metis

lemma clean_elems_append: "clean_elems r acc (xs @ ys) = clean_elems r (rev (clean_elems r acc xs)) ys"
  by (induction r acc xs rule: clean_elems.induct) (auto split: list.splits)

lemma clean_elems_names: "\<forall>p \<in> set ps. p \<noteq> ''..'' \<Longrightarrow> clean_elems r acc ps = rev acc @ filter (\<lambda>p. p \<noteq> [] \<and> p \<noteq> ''.'') ps"
  by (induction ps arbitrary: acc) auto

lemma split_on_append_path: "split_on sep (a @ sep # b) = split_on sep a @ split_on sep b"
  by (induction a) (auto split: list.splits)

definition elems_of :: "string \<Rightarrow> string list" where
  "elems_of p = clean_elems (rooted p) [] (split_on slash p)"

lemma Clean_elems: "Clean p = render (rooted p) (elems_of p)"
  by (simp add: Clean_def elems_of_def)

lemma elems_of_render: "canonical r es \<Longrightarrow> elems_of (render r es) = es"
  by (simp add: elems_of_def rooted_render split_render canonical_def [of r es])

text \<open>A data file whose name has no parent element lies below the data directory.\<close>

lemma Path_below_Dir:
  assumes "''..'' \<notin> set (elems_of filename)"
  shows "fst (Path e filename cached) = render (rooted (fst (Dir e cached))) (elems_of (fst (Dir e cached)) @ elems_of filename)
    \<or> fst (Dir e cached) = []"
proof (cases "fst (Dir e cached) = []")
  case False
  let ?d = "fst (Dir e cached)" and ?f = "Clean filename"
  have can: "canonical (rooted filename) (elems_of filename)"
    using clean_elems_canonical [of "rooted filename" "[]" "split_on slash filename"] split_on_sep_free [of _ slash filename]
    by (auto simp: elems_of_def)
  let ?ps = "split_on slash ?f"
  have fe: "clean_elems (rooted filename) [] ?ps = elems_of filename"
    using split_render [OF can] by (simp add: Clean_elems)
  have no_up: "\<forall>p \<in> set ?ps. p \<noteq> ''..''"
  proof (cases "elems_of filename = []")
    case True
    then show ?thesis by (simp add: Clean_elems render_def slash_def)
  next
    case False
    then show ?thesis
      using split_on_join [OF False, of slash] can assms by (auto simp: Clean_elems render_def canonical_def elem_ok_def)
  qed
  have "filter (\<lambda>p. p \<noteq> [] \<and> p \<noteq> ''.'') ?ps = elems_of filename"
    using clean_elems_names [OF no_up, of "rooted filename" "[]"] fe by simp
  then have "clean_elems (rooted ?d) [] (split_on slash (?d @ slash # ?f)) = elems_of ?d @ elems_of filename"
    by (simp add: split_on_append_path clean_elems_append clean_elems_names [OF no_up] elems_of_def [of ?d])
  moreover have "rooted (?d @ slash # ?f) = rooted ?d"
    using False by (simp add: rooted_def)
  ultimately have "Clean (?d @ slash # ?f) = render (rooted ?d) (elems_of ?d @ elems_of filename)"
    by (simp add: Clean_elems [of "?d @ slash # ?f"] elems_of_def [of "?d @ slash # ?f"])
  then show ?thesis
    using False by (simp add: Path_def JoinPath_def case_prod_beta)
qed simp

lemma Dir_once: "Dir e cached = (d, c) \<Longrightarrow> Dir e' c = (d, c)"
  by (auto simp: Dir_def Let_def split: option.splits)

subsection \<open>Colours and counters\<close>

lemma PickColor_range: "s \<noteq> [] \<Longrightarrow> PickColor s \<in> set nameColors"
proof -
  assume "s \<noteq> []"
  have len: "length nameColors = 6"
    by (simp add: nameColors_def)
  have "color_hash s mod 6 < 6"
    by (rule word_mod_less_divisor) simp
  then have "unat (color_hash s mod 6) < length nameColors"
    by (simp add: word_less_nat_alt len)
  then show ?thesis
    using \<open>s \<noteq> []\<close> by (simp add: PickColor_def len nth_mem)
qed

text \<open>The counters agree, wrap-around included: every lookup is counted once as successful or failed.\<close>

lemma observe_consistent:
  assumes "am_lookups m = am_lookupOK m + am_lookupFail m"
  shows "am_lookups (fold observe evs m) = am_lookupOK (fold observe evs m) + am_lookupFail (fold observe evs m)"
  using assms
proof (induction evs arbitrary: m)
  case (Cons e evs)
  have "am_lookups (observe e m) = am_lookupOK (observe e m) + am_lookupFail (observe e m)"
    using Cons.prems by (cases e) (simp_all add: Let_def)
  then show ?case using Cons.IH by simp
qed simp

lemma NewMsgID_length [simp]: "length (NewMsgID rnd) = 32"
  by (simp add: NewMsgID_def)

end
