(* ===== verification/Program.thy ===== *)
theory Program
  imports Commands Session Discovery Platform
begin

text \<open>
  The program as a whole: the command line and configuration (\<^verbatim>\<open>cmd/park-node/main.go\<close>, \<^verbatim>\<open>internal/park-node/config.go\<close>),
  \<^verbatim>\<open>New\<close>, \<^verbatim>\<open>Start\<close> and \<^verbatim>\<open>Run\<close> of the application (\<^verbatim>\<open>app.go\<close>), and its state under everything that happens: messages, events and
  commands of the application, the goroutines of the node, sessions set up from the bytes of a connection, and
  the discovery manager.
\<close>

subsection \<open>Configuration\<close>

record Config =
  cf_DataDir :: string
  cf_Name :: string
  cf_Bind :: string
  cf_IsSeed :: bool
  cf_Bootstraps :: "string list"
  cf_Debug :: bool

text \<open>The flags, with their defaults where they are absent.\<close>

record flags =
  fl_name :: "string option"
  fl_bind :: "string option"
  fl_seed :: bool
  fl_bootstrap :: "string option"
  fl_debug :: bool
  fl_data :: "string option"

definition main_config :: "flags \<Rightarrow> Config" where
  "main_config f =
     \<lparr>cf_DataDir = (case fl_data f of None \<Rightarrow> [] | Some d \<Rightarrow> d),
      cf_Name = (case fl_name f of None \<Rightarrow> ''anon'' | Some n \<Rightarrow> n),
      cf_Bind = (case fl_bind f of None \<Rightarrow> '':0'' | Some b \<Rightarrow> b), cf_IsSeed = fl_seed f,
      cf_Bootstraps = parse_bootstraps (case fl_bootstrap f of None \<Rightarrow> [] | Some s \<Rightarrow> s), cf_Debug = fl_debug f\<rparr>"

definition node_config :: "Config \<Rightarrow> NodeConfig" where
  "node_config cfg =
     \<lparr>nc_Name = cf_Name cfg, nc_Bootstraps = cf_Bootstraps cfg, nc_Protocol = ''park-p2p/0.1.0'', nc_IsSeed = cf_IsSeed cfg\<rparr>"

text \<open>The path of the grant database; an error of \<^verbatim>\<open>EnsureDir\<close> is ignored.\<close>

definition db_path :: "proc_env \<Rightarrow> Config \<Rightarrow> string" where
  "db_path pe cfg =
     (let dir0 = (if cf_DataDir cfg = [] then DefaultDataDir pe else cf_DataDir cfg);
          dir = (case EnsureDir pe dir0 of Inr d \<Rightarrow> d | Inl _ \<Rightarrow> dir0)
      in JoinPath dir ''grants.bolt'')"

subsection \<open>Starting\<close>

definition create_app ::
  "'b app_env \<Rightarrow> proc_env \<Rightarrow> string + Identity \<Rightarrow> (string \<Rightarrow> string + 'b GrantDB) \<Rightarrow> Config \<Rightarrow> (node_error + string) + 'b App" where
  "create_app e pe ident open_db cfg = NewApp e (NewNode (ae_cr e) ident (node_config cfg)) (open_db (db_path pe cfg))"

text \<open>What \<^verbatim>\<open>App.Start\<close> meets: the outcome of listening, the dials, the discovery socket and what arrives on it, and
  the files.\<close>

record start_env =
  st_listen :: "string + string"
  st_net :: "string \<Rightarrow> string option"
  st_seeds :: "string list"
  st_lanErr :: "string option"
  st_lanReads :: "(bytes \<times> UDPAddr) option list"
  st_proc :: proc_env
  st_files :: "string \<Rightarrow> peerRecord list option"

definition DefaultPeerStorePath :: "proc_env \<Rightarrow> string" where
  "DefaultPeerStorePath pe = fst (Path pe ''peers.json'' None)"

text \<open>\<^verbatim>\<open>App.Start\<close>: the node, the LAN responder (what it sends, or its error, which is only logged), the discovery manager with
  the peer store read from its file, and the broadcast of the own points.\<close>

definition StartApp ::
  "'b app_env \<Rightarrow> start_env \<Rightarrow> 'b App \<Rightarrow> string + 'b App \<times> Manager \<times> (string + (bytes \<times> UDPAddr) list)" where
  "StartApp e se a =
     (case StartNode (st_listen se) (st_net se) (st_seeds se) (a_Node a) of
        (Some err, _) \<Rightarrow> Inl err
      | (None, n) \<Rightarrow>
          let lanCfg = DefaultLANConfig;
              lan = StartLANResponder (st_lanErr se) (st_lanReads se) (n_addr n) (nc_Name (n_cfg n));
              mgr = NewManager (NewPeerStore (st_files se (DefaultPeerStorePath (st_proc se)))) lanCfg;
              a1 = a\<lparr>a_Node := n\<rparr>
          in Inr (broadcastPoints e (SnapshotSelf (ae_cr e) (a_Points a1)) a1, mgr, lan))"

text \<open>The inbound loop of \<^verbatim>\<open>Run\<close>: \<open>None\<close> is the end of the context or a closed channel.\<close>

fun inbound_loop :: "('b app_env \<times> Envelope) option list \<Rightarrow> 'b App \<Rightarrow> 'b App" where
  "inbound_loop [] a = a"
| "inbound_loop (None # xs) a = a"
| "inbound_loop (Some (e, env) # xs) a = inbound_loop xs (app_handleEnvelope e env a)"

subsection \<open>The running program\<close>

text \<open>A session whose bytes are on the wire is set up, then the usual greetings are sent.\<close>

definition session_on_wire ::
  "crypto \<Rightarrow> (nat \<Rightarrow> gotime) \<Rightarrow> store_io \<Rightarrow> ('h, 'c) transport \<Rightarrow> bool \<Rightarrow> wire \<Rightarrow> string list \<Rightarrow> nat \<Rightarrow> Node \<Rightarrow> Node" where
  "session_on_wire cr clock sio tr inbound w ks r n =
     snd (conn_start cr clock sio (fst (negotiate tr inbound n w)) ks r n)"

lemma session_on_wire_step: "n_heap n r = None \<Longrightarrow> node_step cr n (session_on_wire cr clock sio tr inbound w ks r n)"
  unfolding session_on_wire_def by (rule node_step.session)

text \<open>One step is an input of the application, an action of the node (a session set up from bytes among them), or a round of the
  discovery manager.\<close>

inductive park_step ::
  "crypto \<Rightarrow> 'b bolt \<Rightarrow> 'b App \<times> Manager \<Rightarrow> 'b App \<times> Manager \<Rightarrow> bool" for cr bk where
  app: "ae_cr e = cr \<Longrightarrow> ae_bolt e = bk \<Longrightarrow> park_step cr bk (a, m) (app_step e i a, m)"
| node: "node_step cr (a_Node a) n \<Longrightarrow> park_step cr bk (a, m) (a\<lparr>a_Node := n\<rparr>, m)"
| round: "manager_round net note order (m, a_Node a) = (m', n) \<Longrightarrow> park_step cr bk (a, m) (a\<lparr>a_Node := n\<rparr>, m')"

inductive park_reach :: "crypto \<Rightarrow> 'b bolt \<Rightarrow> 'b App \<times> Manager \<Rightarrow> bool" for cr bk where
  start: "create_app e pe ident open_db cfg = Inr a \<Longrightarrow> ae_cr e = cr \<Longrightarrow> ae_bolt e = bk \<Longrightarrow>
    (\<And>path db. open_db path = Inr db \<Longrightarrow> db_inv bk db) \<Longrightarrow>
    StartApp e se a = Inr (a', m, lan) \<Longrightarrow> park_reach cr bk (PrintBanner a', m)"
| step: "park_reach cr bk s \<Longrightarrow> park_step cr bk s s' \<Longrightarrow> park_reach cr bk s'"

inductive_cases park_stepE: "park_step cr bk (a, m) s"

lemma node_inv_manager_round:
  assumes "node_inv cr n" "manager_round net note order (m, n) = (m', n')"
  shows "node_inv cr n'"
proof -
  have "n' = fold (\<lambda>a n. snd (ConnectTo net a n)) order n"
    using manager_round_node [of net "note" order m n] assms(2) by simp
  then show ?thesis
    using assms(1) by (auto intro: node_inv_fold node_inv_ConnectTo)
qed

lemma app_inv_node: "app_inv cr bk a \<Longrightarrow> node_inv cr n \<Longrightarrow> app_inv cr bk (a\<lparr>a_Node := n\<rparr>)"
  by (simp add: app_inv_def)

lemma create_app_inv:
  assumes "create_app e pe ident open_db cfg = Inr a" "sha256_size (ae_cr e)"
    and "\<And>path db. open_db path = Inr db \<Longrightarrow> db_inv (ae_bolt e) db"
  shows "app_inv (ae_cr e) (ae_bolt e) a \<and> a_GrantStore a \<noteq> None"
proof -
  obtain n db where n: "NewNode (ae_cr e) ident (node_config cfg) = Inr n" and db: "open_db (db_path pe cfg) = Inr db"
      and a: "NewApp e (Inr n) (Inr db) = Inr a"
    using assms(1) by (auto simp: create_app_def NewApp_def split: sum.splits)
  show ?thesis
    using NewApp_parts [OF a] NewNode_inv [OF n assms(2)] assms(3) [OF db] by (simp add: app_inv_def)
qed

lemma StartApp_inv:
  assumes "StartApp e se a = Inr (a', m, lan)" "app_inv cr bk a" "a_GrantStore a \<noteq> None" "sha256_size cr"
  shows "app_inv cr bk a' \<and> a_GrantStore a' \<noteq> None"
proof -
  obtain n where n: "StartNode (st_listen se) (st_net se) (st_seeds se) (a_Node a) = (None, n)"
      "a' = broadcastPoints e (SnapshotSelf (ae_cr e) (a_Points a)) (a\<lparr>a_Node := n\<rparr>)"
    using assms(1) by (auto simp: StartApp_def Let_def split: prod.splits option.splits)
  have "node_inv cr n"
    using node_step_inv [OF node_step.start [of cr "a_Node a" "st_listen se" "st_net se" "st_seeds se"], OF _ assms(4)] n(1) assms(2) by (simp add: app_inv_def)
  then show ?thesis
    using n(2) assms(2,3) by (auto simp: broadcastPoints_def gossip_all_def Broadcast_def intro!: app_inv_node node_inv_relay)
qed

lemma park_step_inv:
  assumes "park_step cr bk (a, m) (a', m')" "app_inv cr bk a" "a_GrantStore a \<noteq> None" "sha256_size cr" "bolt_ok bk"
  shows "app_inv cr bk a' \<and> a_GrantStore a' \<noteq> None"
  using assms(1)
proof (cases rule: park_step.cases)
  case (app e i)
  then show ?thesis
    using app_step_inv [of e a i] app_step_store [OF assms(3), of e i] assms by simp
next
  case (node n)
  then show ?thesis
    using assms(2,3) node_step_inv [OF node(3) _ assms(4)] by (simp add: app_inv_def)
next
  case (round net "note" order n)
  then show ?thesis
    using assms(2,3) node_inv_manager_round [OF _ round(2)] by (simp add: app_inv_def)
qed

subsection \<open>The program's invariant\<close>


lemma sample_New: "\<exists>n. NewNode demo_crypto (Inr (n_id sample_seed)) cfg = Inr n"
  using sample_seed_New by (auto simp: NewNode_def split: sum.splits)

definition sample_proc :: proc_env where
  "sample_proc = \<lparr>pe_dataDirVar = [], pe_executable = None, pe_getwd = Some ''/tmp'', pe_userConfigDir = Some ''/home/u/.config'',
     pe_mkdirErr = (\<lambda>_. None), pe_windows = False\<rparr>"

definition sample_config :: Config where
  "sample_config = main_config \<lparr>fl_name = Some ''ann'', fl_bind = None, fl_seed = False, fl_bootstrap = Some ''a:1, b:2'', fl_debug = False,
     fl_data = None\<rparr>"

definition sample_start :: start_env where
  "sample_start = \<lparr>st_listen = Inr '':4001'', st_net = (\<lambda>_. Some ''refused''), st_seeds = [],
     st_lanErr = None, st_lanReads = [], st_proc = sample_proc, st_files = (\<lambda>_. None)\<rparr>"

lemma sample_config_paths: "db_path sample_proc sample_config = ''/home/u/.config/p2p-park/grants.bolt'' \<and>
    cf_Bootstraps sample_config = [''a:1'', ''b:2'']"
  by code_simp


end
