(* ===== verification/Sim.thy ===== *)
theory Sim
  imports Lookup
begin

text \<open>
  A network of DHT engines (\<^verbatim>\<open>internal/dht/sim/sim.go\<close>), in which messages are delivered by calling the handler of the
  addressee, and the periodic refresh of the routing table (\<^verbatim>\<open>internal/dht/refresh.go\<close>). The network composes two engines:
  a request, the handler of the other side, its reply and the waiter of the request.
\<close>

subsection \<open>The network\<close>

record SimNode =
  sn_peerID :: string
  sn_addr :: string
  sn_name :: string
  sn_dht :: DHT

text \<open>Latency only delays; whether a message is dropped is part of \<open>hop\<close>, with what the handler reads from its environment.\<close>

type_synonym SimNetwork = "string \<rightharpoonup> SimNode"

record hop =
  hp_clock :: "nat \<Rightarrow> gotime"
  hp_ping :: "NodeInfo \<Rightarrow> bool"
  hp_io :: store_io
  hp_dropped :: bool

definition NewNetwork :: SimNetwork where
  "NewNetwork = Map.empty"

definition AddNode :: "SimNode \<Rightarrow> SimNetwork \<Rightarrow> SimNetwork" where
  "AddNode node nw = nw(sn_peerID node \<mapsto> node)"

definition NewSimNode :: "string \<Rightarrow> string \<Rightarrow> string \<Rightarrow> DHT \<Rightarrow> SimNetwork \<Rightarrow> SimNetwork" where
  "NewSimNode peerID addr name d nw =
     AddNode \<lparr>sn_peerID = peerID, sn_addr = addr, sn_name = name, sn_dht = d\<rparr> nw"

text \<open>A reply is sent to the sender of the request, through the network again: one hop per message. Two hops are enough, because
  a reply is never answered.\<close>

fun sim_deliver :: "crypto \<Rightarrow> hop list \<Rightarrow> SimNode \<Rightarrow> string \<Rightarrow> Envelope \<Rightarrow> SimNetwork \<Rightarrow> string option \<times> SimNetwork" where
  "sim_deliver cr [] from toPeerID env nw = (None, nw)"
| "sim_deliver cr (h # hs) from toPeerID env nw =
     (case nw toPeerID of
        None \<Rightarrow> (Some (''sim: unknown peer '' @ toPeerID), nw)
      | Some to \<Rightarrow>
          if hp_dropped h then (None, nw)
          else
            (case HandleDHT cr (hp_clock h) (hp_ping h) (hp_io h) (sn_peerID from) (sn_addr from) (sn_name from) env (sn_dht to) of
               (d, reply) \<Rightarrow>
                 let to' = to\<lparr>sn_dht := d\<rparr>; nw' = nw(toPeerID \<mapsto> to')
                 in case reply of
                      None \<Rightarrow> (None, nw')
                    | Some w \<Rightarrow>
                        (None, snd (sim_deliver cr hs to' (sn_peerID from)
                           \<lparr>env_Type = MsgDHT, env_FromID = sn_peerID to', env_Payload = P_dht w\<rparr> nw'))))"

declare sim_deliver.simps [simp del]

subsection \<open>Refreshing the routing table\<close>

text \<open>\<open>rnd\<close>: what \<^verbatim>\<open>rand.Read\<close> left in the identifier.\<close>

definition RandomNodeID :: "bytes \<Rightarrow> bytes" where
  "RandomNodeID rnd = take 32 (rnd @ replicate 32 0)"

definition refresh_interval :: "int \<Rightarrow> int" where
  "refresh_interval interval = (if interval \<le> 0 then 30 * minute else interval)"

definition refresh_tick :: "crypto \<Rightarrow> lookup_env \<Rightarrow> bytes \<Rightarrow> DHT \<Rightarrow> DHT" where
  "refresh_tick cr e rnd d =
     (case IterativeFindNode cr e (Hex (RandomNodeID rnd)) DefaultLookupConfig (d_rt d) of (_, _, rt) \<Rightarrow> d\<lparr>d_rt := rt\<rparr>)"

subsection \<open>Requests through the network\<close>

lemma handle_request_kind:
  "handle_request cr clock w d = (d', Some r) \<Longrightarrow>
     w_RPCID r = w_RPCID w \<and> w_Kind r \<in> {''NODES'', ''PONG'', ''VALUE'', ''STORE_RESULT''}"
  by (auto simp: handle_request_def handle_find_node_def handle_store_def store_result_def handle_find_value_def Let_def
      split: if_splits sum.splits option.splits prod.splits)

lemma reply_unanswered:
  assumes "as_dht (env_Payload env) = Some w" "w_Kind w \<in> {''NODES'', ''PONG'', ''VALUE'', ''STORE_RESULT''}"
  shows "snd (HandleDHT cr clock ping io p a n env d) = None"
proof -
  have "snd (handle_request cr clock w d') = None" for d'
    using assms(2) by (auto simp: handle_request_def)
  then show ?thesis
    using assms(1) by (auto simp: HandleDHT_def Let_def split: prod.splits bool.splits)
qed

lemma HandleDHT_reply_kind:
  assumes "HandleDHT cr clock ping io p a n env d = (d', Some r)"
  shows "w_Kind r \<in> {''NODES'', ''PONG'', ''VALUE'', ''STORE_RESULT''}"
  using assms handle_request_kind
  by (fastforce simp: HandleDHT_def Let_def split: option.splits prod.splits bool.splits)

lemma ObservePeer_rpc [simp]: "d_rpc (ObservePeer cr clock ping io p a n d) = d_rpc d"
  by (simp add: ObservePeer_def note_store_def split: sum.splits option.splits)

text \<open>Further hops are never used.\<close>

lemma sim_deliver_reply:
  assumes "w_Kind w \<in> {''NODES'', ''PONG'', ''VALUE'', ''STORE_RESULT''}" "nw toPeerID = Some to" "\<not> hp_dropped h"
  shows "sim_deliver cr (h # hs) from toPeerID \<lparr>env_Type = t, env_FromID = i, env_Payload = P_dht w\<rparr> nw =
    (None, nw(toPeerID \<mapsto> to\<lparr>sn_dht := fst (HandleDHT cr (hp_clock h) (hp_ping h) (hp_io h) (sn_peerID from) (sn_addr from)
       (sn_name from) \<lparr>env_Type = t, env_FromID = i, env_Payload = P_dht w\<rparr> (sn_dht to))\<rparr>))"
proof -
  let ?e = "\<lparr>env_Type = t, env_FromID = i, env_Payload = P_dht w\<rparr>"
  let ?h = "HandleDHT cr (hp_clock h) (hp_ping h) (hp_io h) (sn_peerID from) (sn_addr from) (sn_name from) ?e (sn_dht to)"
  have "snd ?h = None"
    by (rule reply_unanswered [OF _ assms(1)]) (simp add: as_dht_def)
  then obtain d where "?h = (d, None)"
    by (cases ?h) simp
  then show ?thesis
    using assms(2,3) by (simp add: sim_deliver.simps Let_def)
qed

lemma sim_deliver_two_hops: "sim_deliver cr (h1 # h2 # hs) from toPeerID env nw = sim_deliver cr [h1, h2] from toPeerID env nw"
proof (cases "nw toPeerID")
  case (Some to)
  obtain d reply where h: "HandleDHT cr (hp_clock h1) (hp_ping h1) (hp_io h1) (sn_peerID from) (sn_addr from) (sn_name from) env
      (sn_dht to) = (d, reply)"
    by fastforce
  have "sim_deliver cr (h2 # hs) f p \<lparr>env_Type = t, env_FromID = i, env_Payload = P_dht w\<rparr> nw' =
      sim_deliver cr [h2] f p \<lparr>env_Type = t, env_FromID = i, env_Payload = P_dht w\<rparr> nw'" if "reply = Some w" for f p t i w nw'
  proof (cases "nw' p = None \<or> hp_dropped h2")
    case True
    then show ?thesis by (auto simp: sim_deliver.simps split: option.splits)
  next
    case False
    then show ?thesis
      using sim_deliver_reply [OF HandleDHT_reply_kind [OF h [unfolded that]]] by auto
  qed
  then show ?thesis
    using Some h by (simp add: sim_deliver.simps(2) [of cr h1] Let_def split: option.splits)
qed (simp add: sim_deliver.simps)


definition hop0 :: hop where
  "hop0 = \<lparr>hp_clock = (\<lambda>_. 5), hp_ping = (\<lambda>_. True), hp_io = ([], True), hp_dropped = False\<rparr>"

definition sim_a :: SimNode where
  "sim_a = \<lparr>sn_peerID = ''a'', sn_addr = ''a:1'', sn_name = ''a'',
     sn_dht = sample_dht\<lparr>d_rpc := (d_rpc sample_dht)\<lparr>pending := [(''id'', 0)], chans := Map.empty\<rparr>\<rparr>\<rparr>"

definition sim_b :: SimNode where
  "sim_b = \<lparr>sn_peerID = ''b'', sn_addr = ''b:1'', sn_name = ''b'', sn_dht = sample_dht\<rparr>"

abbreviation sim_ping :: DHTWire where
  "sim_ping \<equiv> zeroWire\<lparr>w_Kind := ''PING'', w_RPCID := ''id''\<rparr>"


subsection \<open>Replies are well formed\<close>

text \<open>What a peer may rely on when it decodes a reply.\<close>

definition reply_ok :: "crypto \<Rightarrow> DHTWire \<Rightarrow> DHTWire \<Rightarrow> bool" where
  "reply_ok cr w r \<longleftrightarrow>
     w_RPCID r = w_RPCID w \<and>
     (w_Kind w = ''PING'' \<and> w_Kind r = ''PONG'' \<or> w_Kind w = ''FIND_NODE'' \<and> w_Kind r = ''NODES'' \<or>
      w_Kind w = ''STORE'' \<and> w_Kind r = ''STORE_RESULT'' \<or> w_Kind w = ''FIND_VALUE'' \<and> w_Kind r = ''VALUE'') \<and>
     length (w_Nodes r) \<le> 20 \<and> (\<forall>nd \<in> set (w_Nodes r). NodeIDMatchesPeerID cr (nd_NodeID nd) (nd_PeerID nd)) \<and>
     (w_Nodes r \<noteq> [] \<longrightarrow> w_Record r = None) \<and>
     (\<forall>rec. w_Record r = Some rec \<longrightarrow>
        (\<exists>key now. ParseKeyHex (w_Key w) = Inr key \<and> ValidateRecordAgainstKey cr now key (Some rec) = None))"

lemma Closest_authentic:
  assumes "dht_inv cr d" "sha256_size cr" "nd \<in> set (map wire_node (Closest (d_rt d) target n))"
  shows "NodeIDMatchesPeerID cr (nd_NodeID nd) (nd_PeerID nd)"
proof -
  obtain ni where ni: "nd = wire_node ni" "ni \<in> set (all_nodes (d_rt d))"
    using assms(3) by (auto simp: Closest_eq dest: in_set_takeD)
  then have "NodeIDFromPeerID cr (ni_PeerID ni) = Inr (ni_NodeID ni)" "ni_NodeIDHex ni = Hex (ni_NodeID ni)" "nodeid_ok (ni_NodeID ni)"
    using assms(1) rt_wf_all_nodes by (auto simp: dht_inv_def rt_inv_def rt_authentic_def entry_ok_def)
  then show ?thesis
    using ni(1) by (simp add: wire_node_def NodeIDMatchesPeerID_def nodeid_ok_length)
qed

lemma handle_request_ok:
  assumes "dht_inv cr d" "sha256_size cr" "handle_request cr clock w d = (d', Some r)"
  shows "reply_ok cr w r"
proof -
  have cl: "length (map wire_node (Closest (d_rt d) t 20)) \<le> 20" for t
    by (simp add: Closest_eq)
  note au = Closest_authentic [OF assms(1,2)]
  consider "w_Kind w = ''PING''" | "w_Kind w = ''FIND_NODE''" | "w_Kind w = ''STORE''" | "w_Kind w = ''FIND_VALUE''"
    using assms(3) by (auto simp: handle_request_def split: if_splits)
  then show ?thesis
  proof cases
    case 1
    then show ?thesis
      using assms(3) by (auto simp: handle_request_def reply_ok_def zeroWire_def)
  next
    case 2
    then show ?thesis
      using assms(3) cl au by (auto simp: handle_request_def handle_find_node_def reply_ok_def zeroWire_def split: sum.splits)
  next
    case 3
    then show ?thesis
      using assms(3)
      by (auto simp: handle_request_def handle_store_def store_result_def reply_ok_def zeroWire_def split: sum.splits option.splits prod.splits)
  next
    case 4
    then show ?thesis
      using assms(3) cl au
      by (auto simp: handle_request_def handle_find_value_def Let_def reply_ok_def zeroWire_def split: sum.splits option.splits if_splits)
  qed
qed

text \<open>C21: Every reply the engine sends is well formed: it echoes the request's identifier, has the kind that answers the
  request, names at most 20 nodes, each with a node identifier that is the hash of its peer identifier, and carries a record only
  for \<^verbatim>\<open>FIND_VALUE\<close>, without nodes, and only one that validates for the requested key.\<close>

theorem replies_well_formed:
  assumes "dht_inv cr d" "sha256_size cr" "env_Payload env = P_dht w"
    and "HandleDHT cr clock ping io p a n env d = (d', Some r)"
  shows "reply_ok cr w r"
proof -
  obtain d2 where d2: "dht_inv cr d2" "handle_request cr clock w d2 = (d', Some r)"
  proof -
    obtain ok d1 where rc: "rate_check (clock 0) p d = (ok, d1)"
      by fastforce
    have "dht_inv cr d1"
      using assms(1) rate_check_simps [of "clock 0" p d] rc by (simp add: dht_inv_def)
    then have "dht_inv cr (ObservePeer cr clock ping io p a n d1)"
      using assms(2) by (rule ObservePeer_inv)
    moreover have "handle_request cr clock w (ObservePeer cr clock ping io p a n d1) = (d', Some r)"
      using assms(3,4) rc by (auto simp: HandleDHT_def as_dht_def Let_def split: bool.splits prod.splits)
    ultimately show thesis
      using that by blast
  qed
  then show ?thesis
    using handle_request_ok assms(2) by blast
qed

theorem replies_well_formed_witness:
  "\<exists>d' r. HandleDHT demo_crypto (\<lambda>_. 5) (\<lambda>_. True) ([], True) ''a'' ''a:1'' ''a'' (dht_env sim_ping) sample_dht = (d', Some r) \<and>
     reply_ok demo_crypto sim_ping r"
proof -
  obtain d' r where h: "HandleDHT demo_crypto (\<lambda>_. 5) (\<lambda>_. True) ([], True) ''a'' ''a:1'' ''a'' (dht_env sim_ping) sample_dht = (d', Some r)"
    using HandleDHT_request [of "\<lambda>_. 5" "''a''" sample_dht sim_ping, OF sample_rate_ok]
    by (simp add: is_response_def handle_request_def)
  moreover have "reply_ok demo_crypto sim_ping r"
    by (rule replies_well_formed [OF New_inv [OF sample_dht_New] demo_crypto_ok(1) _ h]) simp_all
  ultimately show ?thesis by blast
qed

text \<open>A refresh keeps the engine's invariant.\<close>

lemma refresh_tick_inv:
  assumes "dht_inv cr d" "sha256_size cr" "fair_env e"
  shows "dht_inv cr (refresh_tick cr e rnd d)"
proof -
  obtain res q rt where f: "IterativeFindNode cr e (Hex (RandomNodeID rnd)) DefaultLookupConfig (d_rt d) = (res, q, rt)"
    by (metis prod_cases3)
  have "rt_good cr (d_rt d)"
    using assms(1) by (simp add: dht_inv_def rt_good_def)
  from IterativeFindNode_good [OF this assms(3,2) f] show ?thesis
    using assms(1) f by (simp add: refresh_tick_def dht_inv_def rt_good_def)
qed

end
